(* ===== verification/Prelude.thy ===== *)
theory Prelude
  imports Main "HOL-Library.Word"
begin

text \<open>
  Shared ground of the development: machine words and byte strings, the result type of fallible Go
  code (an error value, a panic, or a value), bounds-checked slice access, big-endian integers,
  64-bit signed wrap-around, and the lemma collections the component theories extend.

  Go reads \<open>xs[i]\<close> and \<open>xs[i:j]\<close> panic outside the bounds of the slice. \<open>idx\<close> and \<open>slice\<close> write
  that panic out, so a theorem that an operation returns \<open>Inr\<close> also says that it does not panic.
\<close>

unbundle bit_operations_syntax

named_theorems res_simps \<open>evaluation of the result type\<close>
named_theorems be_simps \<open>big-endian integers\<close>
named_theorems slice_simps \<open>bounds-checked slices\<close>

subsection \<open>Machine types\<close>

type_synonym byte = "8 word"
type_synonym u8 = "8 word"
type_synonym u16 = "16 word"
type_synonym u32 = "32 word"
type_synonym u64 = "64 word"
type_synonym bytes = "byte list"

subsection \<open>Results: an error value, a panic, or a value\<close>

datatype 'e fault = Err 'e | Panic

type_synonym ('e, 'a) res = "'e fault + 'a"

definition bindR :: "('e, 'a) res \<Rightarrow> ('a \<Rightarrow> ('e, 'b) res) \<Rightarrow> ('e, 'b) res" where
  "bindR m f = (case m of Inl e \<Rightarrow> Inl e | Inr x \<Rightarrow> f x)"

lemma bindR_simps [simp, res_simps]:
  "bindR (Inl e) f = Inl e"
  "bindR (Inr x) f = f x"
  by (simp_all add: bindR_def)

lemma bindR_eq_Inr_iff [res_simps]: "bindR m f = Inr y \<longleftrightarrow> (\<exists>x. m = Inr x \<and> f x = Inr y)"
  by (cases m) auto

lemma bindR_assoc: "bindR (bindR m f) g = bindR m (\<lambda>x. bindR (f x) g)"
  by (cases m) auto

lemma bindR_cong [fundef_cong]:
  "m = m' \<Longrightarrow> (\<And>x. m' = Inr x \<Longrightarrow> f x = f' x) \<Longrightarrow> bindR m f = bindR m' f'"
  by (cases m') auto

text \<open>An early return \<open>if c { return err }\<close>.\<close>

definition guardR :: "bool \<Rightarrow> 'e \<Rightarrow> ('e, 'a) res \<Rightarrow> ('e, 'a) res" where
  "guardR c e k = (if c then Inl (Err e) else k)"

lemma guardR_simps [simp, res_simps]:
  "guardR True e k = Inl (Err e)"
  "guardR False e k = k"
  by (simp_all add: guardR_def)

lemma guardR_eq_Inr_iff [res_simps]: "guardR c e k = Inr y \<longleftrightarrow> \<not> c \<and> k = Inr y"
  by (simp add: guardR_def)

text \<open>Returning another function's error in one's own error type.\<close>

definition mapErr :: "('e \<Rightarrow> 'f) \<Rightarrow> ('e, 'a) res \<Rightarrow> ('f, 'a) res" where
  "mapErr f m =
     (case m of Inl (Err e) \<Rightarrow> Inl (Err (f e)) | Inl Panic \<Rightarrow> Inl Panic | Inr x \<Rightarrow> Inr x)"

lemma mapErr_simps [simp, res_simps]:
  "mapErr f (Inl (Err e)) = Inl (Err (f e))"
  "mapErr f (Inl Panic) = Inl Panic"
  "mapErr f (Inr x) = Inr x"
  by (simp_all add: mapErr_def)

lemma mapErr_eq_Inr_iff [simp]: "mapErr f m = Inr x \<longleftrightarrow> m = Inr x"
  by (auto simp: mapErr_def split: sum.splits fault.splits)

lemma mapErr_eq_Panic_iff [simp]: "mapErr f m = Inl Panic \<longleftrightarrow> m = Inl Panic"
  by (auto simp: mapErr_def split: sum.splits fault.splits)

definition no_panic :: "('e, 'a) res \<Rightarrow> bool" where
  "no_panic m \<longleftrightarrow> m \<noteq> Inl Panic"

lemma no_panic_simps [simp]:
  "no_panic (Inr x)"
  "no_panic (Inl (Err e))"
  "\<not> no_panic (Inl Panic)"
  by (simp_all add: no_panic_def)

lemma no_panic_guardR [intro]: "(\<not> c \<Longrightarrow> no_panic k) \<Longrightarrow> no_panic (guardR c e k)"
  by (cases c) simp_all

lemma no_panic_bindR [intro]:
  "no_panic m \<Longrightarrow> (\<And>x. m = Inr x \<Longrightarrow> no_panic (f x)) \<Longrightarrow> no_panic (bindR m f)"
  by (cases m) (auto simp: no_panic_def)

subsection \<open>Slices\<close>

definition idx :: "'a list \<Rightarrow> nat \<Rightarrow> ('e, 'a) res" where
  "idx xs i = (if i < length xs then Inr (xs ! i) else Inl Panic)"

definition slice :: "'a list \<Rightarrow> nat \<Rightarrow> nat \<Rightarrow> ('e, 'a list) res" where
  "slice xs i j = (if i \<le> j \<and> j \<le> length xs then Inr (take (j - i) (drop i xs)) else Inl Panic)"

lemma idx_ok [simp, slice_simps]: "i < length xs \<Longrightarrow> idx xs i = Inr (xs ! i)"
  by (simp add: idx_def)

lemma idx_eq_Inr_iff [slice_simps]: "idx xs i = Inr x \<longleftrightarrow> i < length xs \<and> x = xs ! i"
  by (auto simp: idx_def)

lemma slice_ok [simp, slice_simps]:
  "i \<le> j \<Longrightarrow> j \<le> length xs \<Longrightarrow> slice xs i j = Inr (take (j - i) (drop i xs))"
  by (simp add: slice_def)

lemma slice_eq_Inr_iff [slice_simps]:
  "slice xs i j = Inr ys \<longleftrightarrow> i \<le> j \<and> j \<le> length xs \<and> ys = take (j - i) (drop i xs)"
  by (auto simp: slice_def)

lemma take_slice_append:
  assumes "i \<le> j" and "j \<le> length xs"
  shows "take i xs @ take (j - i) (drop i xs) = take j xs"
  using assms by (metis le_add_diff_inverse take_add)

lemma slice_cover:
  assumes "i \<le> j" and "j \<le> length xs"
  shows "take i xs @ take (j - i) (drop i xs) @ drop j xs = xs"
  using take_slice_append [OF assms] by (metis append_assoc append_take_drop_id)

subsection \<open>Big-endian integers\<close>

text \<open>\<open>binary.BigEndian.Uint16\<close> and \<open>PutUint16\<close>; \<open>uint16at\<close> is \<open>Uint16(m[i:i+2])\<close>.\<close>

definition be16 :: "byte \<Rightarrow> byte \<Rightarrow> u16" where
  "be16 a b = push_bit 8 (ucast a) OR ucast b"

definition put16 :: "u16 \<Rightarrow> bytes" where
  "put16 w = [ucast (drop_bit 8 w), ucast w]"

definition uint16at :: "bytes \<Rightarrow> nat \<Rightarrow> ('e, u16) res" where
  "uint16at m i = bindR (slice m i (i + 2)) (\<lambda>s. Inr (be16 (s ! 0) (s ! 1)))"

lemma length_put16 [simp, be_simps]: "length (put16 w) = 2"
  by (simp add: put16_def)

lemma unat_byte_less [simp]: "unat (b :: byte) < 256"
  using unsigned_less [of b] by simp

lemma unat_u16_less [simp]: "unat (w :: u16) < 65536"
  using unsigned_less [of w] by simp

lemma unat_be16 [be_simps]: "unat (be16 a b) = 256 * unat a + unat b"
proof -
  have disj: "push_bit 8 (ucast a :: u16) AND ucast b = 0"
    by (rule bit_word_eqI) (auto simp: bit_simps dest: bit_imp_le_length)
  have "be16 a b = push_bit 8 (ucast a) + ucast b"
    unfolding be16_def using disj by (simp add: disjunctive_add_eq_or)
  also have "unat \<dots> = 256 * unat a + unat b"
    using unat_byte_less [of a] unat_byte_less [of b]
    by (simp add: push_bit_eq_mult unat_word_ariths unsigned_ucast_eq take_bit_nat_eq_self
        del: unat_byte_less)
  finally show ?thesis .
qed

lemma be16_put16 [simp, be_simps]: "be16 (ucast (drop_bit 8 w)) (ucast w) = w"
  by (rule bit_word_eqI) (auto simp: be16_def bit_simps)

lemma be16_nth_put16 [simp, be_simps]: "be16 (put16 w ! 0) (put16 w ! 1) = w"
  by (simp add: put16_def)

lemma be16_zero_iff: "be16 a b = 0 \<longleftrightarrow> a = 0 \<and> b = 0"
  by (metis add_is_0 mult_is_0 unat_be16 unat_eq_zero zero_neq_numeral)

lemma uint16at_ok [simp, be_simps]:
  "i + 2 \<le> length m \<Longrightarrow> uint16at m i = Inr (be16 (m ! i) (m ! (i + 1)))"
  by (simp add: uint16at_def)

lemma no_panic_idx: "i < length xs \<Longrightarrow> no_panic (idx xs i)"
  by simp

lemma no_panic_uint16at: "i + 2 \<le> length m \<Longrightarrow> no_panic (uint16at m i)"
  by simp

subsection \<open>Signed 64-bit wrap-around\<close>

text \<open>Go's \<open>int\<close> has 64 bits on the supported platforms; \<open>wrap64\<close> is the value after overflow.\<close>

definition wrap64 :: "int \<Rightarrow> int" where
  "wrap64 x = (x + 2 ^ 63) mod 2 ^ 64 - 2 ^ 63"

lemma wrap64_id: "- (2 ^ 63) \<le> x \<Longrightarrow> x < 2 ^ 63 \<Longrightarrow> wrap64 x = x"
  by (simp add: wrap64_def)

lemma wrap64_range: "- (2 ^ 63) \<le> wrap64 x \<and> wrap64 x < 2 ^ 63"
  using pos_mod_bound [of "2 ^ 64" "x + 2 ^ 63"] pos_mod_sign [of "2 ^ 64" "x + 2 ^ 63"]
  by (simp add: wrap64_def)

lemma map_leD: "m \<subseteq>\<^sub>m n \<Longrightarrow> m k = Some v \<Longrightarrow> n k = Some v"
  by (metis domI map_le_def)

lemma map_leI: "(\<And>k v. m k = Some v \<Longrightarrow> n k = Some v) \<Longrightarrow> m \<subseteq>\<^sub>m n"
  by (auto simp: map_le_def)


subsection \<open>Nibbles\<close>

text \<open>Case analysis on a value below 16, as a finite list that evaluation can walk.\<close>

lemma nibble_cases: "list_all P [0..<16] \<Longrightarrow> n < 16 \<Longrightarrow> P (n :: nat)"
  by (auto simp: list_all_iff)

lemma upt_16: "[0..<16] = [0, 1, 2, 3, 4, 5, 6, 7, 8, 9, 10, 11, 12, 13, 14, 15 :: nat]"
  by (simp add: upt_rec)

end
