(* ===== verification/TLS.thy ===== *)
theory TLS
  imports Prelude
begin

text \<open>
  Model of \<open>src/internal/proto/tls.go\<close>: the TLS record header, the message read from a connection,
  and \<open>ExtractSNIOffset\<close>, the Client Hello walk that finds the server name. A reader is the bytes it
  still delivers before end of file; offsets are natural numbers (every offset computed by the code
  is below \<open>2 ^ 20\<close>, so Go's 64-bit \<open>int\<close> does not wrap here).
\<close>

subsection \<open>Messages\<close>

type_synonym TLSMessageType = byte

definition TLSMaxPayloadLen :: u16 where "TLSMaxPayloadLen = 16384"
definition TLSHeaderLen :: nat where "TLSHeaderLen = 5"
definition TLSHandshake :: TLSMessageType where "TLSHandshake = 0x16"

record TLSHeader =
  hdr_Type :: TLSMessageType
  hdr_ProtoVersion :: u16
  hdr_PayloadLen :: u16

record TLSMessage =
  tls_kind :: string
  tls_header :: TLSHeader
  tls_raw :: bytes
  tls_rawHeader :: bytes
  tls_rawPayload :: bytes

definition TLSHeader_Bytes :: "TLSHeader \<Rightarrow> bytes" where
  "TLSHeader_Bytes h = hdr_Type h # put16 (hdr_ProtoVersion h) @ put16 (hdr_PayloadLen h)"

definition TLSMessage_Len :: "TLSMessage \<Rightarrow> nat" where
  "TLSMessage_Len m = length (tls_raw m)"

definition IsClientHello :: "TLSMessage \<Rightarrow> bool" where
  "IsClientHello m \<longleftrightarrow>
     length (tls_raw m) > TLSHeaderLen \<and>
     hdr_Type (tls_header m) = TLSHandshake \<and>
     tls_raw m ! 5 = 1"

text \<open>\<open>TLSMessage{kind: "fake", raw: raw}\<close>: the other fields have Go's zero values.\<close>

definition NewFakeTLSMessage :: "bytes \<Rightarrow> TLSMessage" where
  "NewFakeTLSMessage r =
     \<lparr>tls_kind = ''fake'',
      tls_header = \<lparr>hdr_Type = 0, hdr_ProtoVersion = 0, hdr_PayloadLen = 0\<rparr>,
      tls_raw = r, tls_rawHeader = [], tls_rawPayload = []\<rparr>"

subsection \<open>Reading a message\<close>

datatype read_error = EOF | UnexpectedEOF | InvalidTLSHeader TLSHeader

text \<open>\<open>io.ReadFull\<close> on a reader that delivers \<open>r\<close> and then end of file.\<close>

definition ReadFull :: "nat \<Rightarrow> bytes \<Rightarrow> (read_error, bytes \<times> bytes) res" where
  "ReadFull n r =
     (if n \<le> length r then Inr (take n r, drop n r)
      else if r = [] then Inl (Err EOF)
      else Inl (Err UnexpectedEOF))"

definition ReadTLSMessage :: "bytes \<Rightarrow> (read_error, TLSMessage \<times> bytes) res" where
  "ReadTLSMessage r =
     bindR (ReadFull TLSHeaderLen r) (\<lambda>(rawHeader, r).
     let header = \<lparr>hdr_Type = rawHeader ! 0,
                   hdr_ProtoVersion = be16 (rawHeader ! 1) (rawHeader ! 2),
                   hdr_PayloadLen = be16 (rawHeader ! 3) (rawHeader ! 4)\<rparr> in
     guardR (hdr_PayloadLen header > TLSMaxPayloadLen) (InvalidTLSHeader header)
     (let size = unat (hdr_PayloadLen header + of_nat TLSHeaderLen) in
      bindR (ReadFull (size - TLSHeaderLen) r) (\<lambda>(payload, r).
      let raw = rawHeader @ payload in
      Inr (\<lparr>tls_kind = ''real'', tls_header = header, tls_raw = raw,
            tls_rawHeader = take TLSHeaderLen raw, tls_rawPayload = drop TLSHeaderLen raw\<rparr>, r))))"

subsection \<open>The server name offset\<close>

datatype sni_error =
    PacketTooShort
  | NotHandshakePacket
  | NotClientHello
  | TooShortAfterRandom
  | TooShortAfterSessionID
  | TooShortForCipherSuitesLen
  | TooShortAfterCipherSuites
  | TooShortForCompressionLen
  | TooShortAfterCompression
  | NoExtensions
  | ExtensionsLengthOverflow
  | MalformedSNIExtension
  | MalformedSNILength
  | SNINotFound

text \<open>The loop over the extensions; \<open>break\<close> falls through to the final \<open>sni not found\<close>.\<close>

function ext_loop :: "bytes \<Rightarrow> nat \<Rightarrow> nat \<Rightarrow> (sni_error, nat \<times> nat) res" where
  "ext_loop raw extensionsEnd cur =
     (if cur < extensionsEnd then
        if cur + 4 > extensionsEnd then Inl (Err SNINotFound)
        else
          bindR (uint16at raw cur) (\<lambda>extType.
          bindR (uint16at raw (cur + 2)) (\<lambda>el.
            let extLen = unat el; c = cur + 4 in
            if c + extLen > extensionsEnd then Inl (Err SNINotFound)
            else if extType = 0 then
              guardR (extLen < 5) MalformedSNIExtension
              (bindR (uint16at raw (c + 3)) (\<lambda>nl.
                let realStart = c + 5; realEnd = realStart + unat nl in
                guardR (realEnd > c + extLen) MalformedSNILength (Inr (realStart, realEnd))))
            else ext_loop raw extensionsEnd (c + extLen)))
      else Inl (Err SNINotFound))"
  by pat_completeness auto
termination
  by (relation "measure (\<lambda>(raw, e, c). e - c)") auto

declare ext_loop.simps [simp del]

definition ExtractSNIOffset :: "TLSMessage \<Rightarrow> (sni_error, nat \<times> nat) res" where
  "ExtractSNIOffset m =
     (let raw = tls_raw m; n = length raw in
      guardR (n < 43) PacketTooShort
      (bindR (idx raw 0) (\<lambda>t.
       guardR (t \<noteq> 0x16) NotHandshakePacket
       (bindR (idx raw 5) (\<lambda>ht.
        guardR (ht \<noteq> 0x01) NotClientHello
        (let cur = 5 + 4 + 34 in
         guardR (cur \<ge> n) TooShortAfterRandom
         (bindR (idx raw cur) (\<lambda>sessionIDLen.
          let cur = cur + (1 + unat sessionIDLen) in
          guardR (cur \<ge> n) TooShortAfterSessionID
          (guardR (cur + 2 > n) TooShortForCipherSuitesLen
          (bindR (uint16at raw cur) (\<lambda>cipherSuitesLen.
           let cur = cur + (2 + unat cipherSuitesLen) in
           guardR (cur \<ge> n) TooShortAfterCipherSuites
           (guardR (cur + 1 > n) TooShortForCompressionLen
           (bindR (idx raw cur) (\<lambda>compressionMethodsLen.
            let cur = cur + (1 + unat compressionMethodsLen) in
            guardR (cur \<ge> n) TooShortAfterCompression
            (guardR (cur + 2 > n) NoExtensions
            (bindR (uint16at raw cur) (\<lambda>extensionsLen.
             let cur = cur + 2; extensionsEnd = cur + unat extensionsLen in
             guardR (extensionsEnd > n) ExtensionsLengthOverflow
             (ext_loop raw extensionsEnd cur))))))))))))))))))"

subsection \<open>Reading: every branch\<close>

lemma length_TLSHeader_Bytes [simp]: "length (TLSHeader_Bytes h) = TLSHeaderLen"
  by (simp add: TLSHeader_Bytes_def TLSHeaderLen_def)

lemma ReadFull_append [simp]: "length xs = n \<Longrightarrow> ReadFull n (xs @ ys) = Inr (xs, ys)"
  by (simp add: ReadFull_def)

lemma no_panic_ReadFull [simp]: "no_panic (ReadFull n r)"
  by (simp add: ReadFull_def)

lemma payload_size:
  assumes "\<not> w > TLSMaxPayloadLen"
  shows "unat (w + of_nat TLSHeaderLen) - TLSHeaderLen = unat w"
proof -
  have "unat w \<le> 16384"
    using assms by (simp add: TLSMaxPayloadLen_def word_le_nat_alt not_less)
  then show ?thesis
    by (simp add: TLSHeaderLen_def unat_word_ariths)
qed

lemma TLSHeader_fields:
  "TLSHeader_Bytes h ! 0 = hdr_Type h"
  "be16 (TLSHeader_Bytes h ! 1) (TLSHeader_Bytes h ! 2) = hdr_ProtoVersion h"
  "be16 (TLSHeader_Bytes h ! 3) (TLSHeader_Bytes h ! 4) = hdr_PayloadLen h"
  by (simp_all add: TLSHeader_Bytes_def put16_def)

subsection \<open>The extension walk stays inside the message\<close>

text \<open>
  Inside the bounds the slice reads succeed, and the loop is this recursion on the bytes. The
  properties below are proved from this equation.
\<close>

abbreviation word16 :: "bytes \<Rightarrow> nat \<Rightarrow> nat" where
  "word16 raw i \<equiv> unat (be16 (raw ! i) (raw ! (i + 1)))"

lemma ext_loop_unfold:
  assumes "extensionsEnd \<le> length raw"
  shows "ext_loop raw extensionsEnd cur =
    (if cur + 4 > extensionsEnd \<or> cur + 4 + word16 raw (cur + 2) > extensionsEnd
     then Inl (Err SNINotFound)
     else if word16 raw cur = 0 then
       if word16 raw (cur + 2) < 5 then Inl (Err MalformedSNIExtension)
       else if word16 raw (cur + 7) + 5 > word16 raw (cur + 2) then Inl (Err MalformedSNILength)
       else Inr (cur + 9, cur + 9 + word16 raw (cur + 7))
     else ext_loop raw extensionsEnd (cur + 4 + word16 raw (cur + 2)))"
proof (cases "cur + 4 + word16 raw (cur + 2) > extensionsEnd \<or> cur + 4 > extensionsEnd")
  case True
  with assms show ?thesis
    by (subst ext_loop.simps) (auto simp: Let_def)
next
  case False
  with assms show ?thesis
    by (subst ext_loop.simps)
      (simp add: Let_def unat_eq_zero split del: if_split, auto simp: guardR_def ac_simps)
qed

text \<open>The offsets an outcome may carry: inside \<open>[lo, hi]\<close>, and no panic.\<close>

definition sni_within :: "nat \<Rightarrow> nat \<Rightarrow> (sni_error, nat \<times> nat) res \<Rightarrow> bool" where
  "sni_within lo hi r \<longleftrightarrow>
     (case r of Inr (s, e) \<Rightarrow> lo \<le> s \<and> s \<le> e \<and> e \<le> hi | Inl f \<Rightarrow> f \<noteq> Panic)"

lemma sni_within_simps [simp]:
  "sni_within lo hi (Inr (s, e)) \<longleftrightarrow> lo \<le> s \<and> s \<le> e \<and> e \<le> hi"
  "sni_within lo hi (Inl f) \<longleftrightarrow> f \<noteq> Panic"
  by (simp_all add: sni_within_def)

lemma sni_within_mono: "sni_within lo hi r \<Longrightarrow> lo' \<le> lo \<Longrightarrow> hi \<le> hi' \<Longrightarrow> sni_within lo' hi' r"
  by (auto simp: sni_within_def split: sum.splits)

lemma sni_within_guardR: "(\<not> c \<Longrightarrow> sni_within lo hi k) \<Longrightarrow> sni_within lo hi (guardR c e k)"
  by (simp add: guardR_def)

lemma sni_within_bindR:
  "no_panic m \<Longrightarrow> (\<And>x. m = Inr x \<Longrightarrow> sni_within lo hi (f x)) \<Longrightarrow> sni_within lo hi (bindR m f)"
  by (cases m) (auto simp: no_panic_def)

lemma ext_loop_safe:
  assumes "extensionsEnd \<le> length raw"
  shows "sni_within (cur + 9) extensionsEnd (ext_loop raw extensionsEnd cur)"
proof (induction "extensionsEnd - cur" arbitrary: cur rule: less_induct)
  case less
  define l where "l = word16 raw (cur + 2)"
  have IH: "sni_within (cur + 9) extensionsEnd (ext_loop raw extensionsEnd (cur + 4 + l))"
    if "cur + 4 \<le> extensionsEnd"
    by (rule sni_within_mono [OF less.hyps]) (use that in auto)
  show ?case
    unfolding ext_loop_unfold [OF assms, of cur] l_def [symmetric]
    using IH by auto
qed

lemma ExtractSNIOffset_within: "sni_within 58 (length (tls_raw m)) (ExtractSNIOffset m)"
proof -
  define raw where "raw = tls_raw m"
  have ext: "sni_within 58 (length raw) (ext_loop raw e cur)"
    if "e \<le> length raw" and "49 \<le> cur" for e cur
    by (rule sni_within_mono [OF ext_loop_safe]) (use that in auto)
  show ?thesis
    unfolding ExtractSNIOffset_def raw_def [symmetric] Let_def
    by (intro sni_within_guardR sni_within_bindR ext no_panic_idx no_panic_uint16at) auto
qed

text \<open>
  C5: \<open>ExtractSNIOffset\<close> reads nothing outside the message (no panic) on any input, and the offsets
  it returns are ordered, inside the message, and past the fixed part of a Client Hello.
\<close>

theorem ExtractSNIOffset_safe:
  "case ExtractSNIOffset m of
     Inr (s, e) \<Rightarrow> 58 \<le> s \<and> s \<le> e \<and> e \<le> length (tls_raw m)
   | Inl f \<Rightarrow> f \<noteq> Panic"
  using ExtractSNIOffset_within [of m] by (simp only: sni_within_def)

subsection \<open>Round trip with an encoded Client Hello\<close>

text \<open>
  The reference encoder, after RFC 8446 section 4.1.2 and RFC 6066 section 3: \<open>hdr\<close> is the record
  header and the handshake header, \<open>vr\<close> the version and the random, and an extension is its type
  and its data.
\<close>

definition enc_ext :: "u16 \<times> bytes \<Rightarrow> bytes" where
  "enc_ext x = put16 (fst x) @ put16 (of_nat (length (snd x))) @ snd x"

definition enc_exts :: "(u16 \<times> bytes) list \<Rightarrow> bytes" where
  "enc_exts es = concat (map enc_ext es)"

definition sni_ext :: "u16 \<Rightarrow> byte \<Rightarrow> bytes \<Rightarrow> bytes \<Rightarrow> u16 \<times> bytes" where
  "sni_ext listLen nameType host rest =
     (0, put16 listLen @ nameType # put16 (of_nat (length host)) @ host @ rest)"

definition enc_client_hello ::
    "bytes \<Rightarrow> bytes \<Rightarrow> bytes \<Rightarrow> bytes \<Rightarrow> bytes \<Rightarrow> (u16 \<times> bytes) list \<Rightarrow> bytes" where
  "enc_client_hello hdr vr sess ciph cmpr exts =
     hdr @ vr @ of_nat (length sess) # sess @ put16 (of_nat (length ciph)) @ ciph @
     of_nat (length cmpr) # cmpr @ put16 (of_nat (length (enc_exts exts))) @ enc_exts exts"

lemma enc_exts_simps [simp]:
  "enc_exts [] = []"
  "enc_exts (x # xs) = enc_ext x @ enc_exts xs"
  "enc_exts (xs @ ys) = enc_exts xs @ enc_exts ys"
  by (simp_all add: enc_exts_def)

lemma length_enc_ext [simp]: "length (enc_ext x) = 4 + length (snd x)"
  by (simp add: enc_ext_def)

lemma word16_prefix: "i = length xs \<Longrightarrow> word16 (xs @ put16 w @ ys) i = unat w"
  by (simp add: put16_def nth_append)

lemma unat_of_nat_u16 [simp]: "n < 65536 \<Longrightarrow> unat (of_nat n :: u16) = n"
  by (simp add: unat_of_nat)

lemma unat_of_nat_byte [simp]: "n < 256 \<Longrightarrow> unat (of_nat n :: byte) = n"
  by (simp add: unat_of_nat)

lemma ext_header:
  assumes "length (snd x) < 65536"
  shows "word16 (A @ enc_ext x @ B) (length A) = unat (fst x)"
    and "word16 (A @ enc_ext x @ B) (length A + 2) = length (snd x)"
proof -
  show "word16 (A @ enc_ext x @ B) (length A) = unat (fst x)"
    using word16_prefix [of "length A" A] by (simp add: enc_ext_def)
  show "word16 (A @ enc_ext x @ B) (length A + 2) = length (snd x)"
    using word16_prefix [of "length A + 2" "A @ put16 (fst x)" "of_nat (length (snd x))" "snd x @ B"]
      assms by (simp add: enc_ext_def)
qed

lemma ext_loop_skip:
  assumes "\<forall>x \<in> set es. fst x \<noteq> 0 \<and> length (snd x) < 65536"
    and "length A + length (enc_exts es) \<le> e" and "e \<le> length (A @ enc_exts es @ B)"
  shows "ext_loop (A @ enc_exts es @ B) e (length A) =
         ext_loop (A @ enc_exts es @ B) e (length A + length (enc_exts es))"
  using assms
proof (induction es arbitrary: A)
  case Nil
  then show ?case by simp
next
  case (Cons x es)
  let ?raw = "A @ enc_exts (x # es) @ B"
  have raw: "?raw = (A @ enc_ext x) @ enc_exts es @ B"
    by simp
  from Cons.prems have x: "fst x \<noteq> 0" "length (snd x) < 65536" by auto
  have h: "word16 ?raw (length A) = unat (fst x)" "word16 ?raw (length A + 2) = length (snd x)"
    using ext_header [OF x(2), of A "enc_exts es @ B"] by simp_all
  from Cons.prems(3) have "ext_loop ?raw e (length A) = ext_loop ?raw e (length (A @ enc_ext x))"
    by (subst ext_loop_unfold) (use h x Cons.prems in \<open>auto simp: unat_eq_zero ac_simps\<close>)
  also have "\<dots> = ext_loop ?raw e (length (A @ enc_ext x) + length (enc_exts es))"
    unfolding raw by (rule Cons.IH) (use Cons.prems in auto)
  finally show ?case by (simp add: ac_simps)
qed

lemma ext_loop_sni:
  fixes A B :: bytes
  assumes "length host < 65536" and "length (snd x) < 65536" and "e \<le> length (A @ enc_ext x @ B)"
    and "length A + length (enc_ext x) \<le> e" and x: "x = sni_ext listLen nameType host rest"
  shows "ext_loop (A @ enc_ext x @ B) e (length A) = Inr (length A + 9, length A + 9 + length host)"
proof -
  let ?raw = "A @ enc_ext x @ B"
  have raw: "?raw = (A @ put16 0 @ put16 (of_nat (length (snd x))) @ put16 listLen @ [nameType]) @
      put16 (of_nat (length host)) @ (host @ rest @ B)"
    by (simp add: enc_ext_def x sni_ext_def)
  have n: "word16 ?raw (length A + 7) = length host"
    unfolding raw by (subst word16_prefix) (use assms in simp_all)
  have l: "length host + 5 \<le> length (snd x)"
    by (simp add: x sni_ext_def)
  have t: "unat (fst x) = 0"
    by (simp add: x sni_ext_def)
  show ?thesis
    by (subst ext_loop_unfold [OF assms(3)])
      (use n l t ext_header [OF assms(2), of A B] assms(4) in auto)
qed

lemma ExtractSNIOffset_prefix:
  assumes hdr: "length hdr = 9" "hdr ! 0 = 0x16" "hdr ! 5 = 1" and vr: "length vr = 34"
    and len: "length sess < 256" "length ciph < 65536" "length cmpr < 256"
      "length (enc_exts exts) < 65536"
    and raw: "tls_raw m = enc_client_hello hdr vr sess ciph cmpr exts"
    and A: "A = hdr @ vr @ of_nat (length sess) # sess @ put16 (of_nat (length ciph)) @ ciph @
      of_nat (length cmpr) # cmpr @ put16 (of_nat (length (enc_exts exts)))"
  shows "ExtractSNIOffset m = ext_loop (A @ enc_exts exts) (length (A @ enc_exts exts)) (length A)"
proof -
  let ?r = "A @ enc_exts exts"
  have r: "tls_raw m = ?r"
    by (simp add: raw A enc_client_hello_def)
  have lA: "length A = 49 + length sess + length ciph + length cmpr"
    by (simp add: A hdr vr)
  have "?r ! 0 = 0x16" "?r ! 5 = 1"
    using hdr by (auto simp: A nth_append)
  moreover have "?r ! 43 = of_nat (length sess)"
    using hdr vr by (simp add: A nth_append)
  moreover have "word16 ?r (44 + length sess) = length ciph"
    using word16_prefix [of "44 + length sess" "hdr @ vr @ of_nat (length sess) # sess"
        "of_nat (length ciph)"] hdr vr len by (simp add: A)
  moreover have "?r ! (46 + length sess + length ciph) = of_nat (length cmpr)"
    using nth_append_length [of "hdr @ vr @ of_nat (length sess) # sess @
        put16 (of_nat (length ciph)) @ ciph" "of_nat (length cmpr)"] hdr vr
    by (simp add: A ac_simps)
  moreover have "word16 ?r (47 + length sess + length ciph + length cmpr) = length (enc_exts exts)"
    using word16_prefix [of "47 + length sess + length ciph + length cmpr"
        "hdr @ vr @ of_nat (length sess) # sess @ put16 (of_nat (length ciph)) @ ciph @
         of_nat (length cmpr) # cmpr" "of_nat (length (enc_exts exts))"] hdr vr len
    by (simp add: A)
  ultimately show ?thesis
    unfolding ExtractSNIOffset_def r Let_def
    using len lA by (simp add: ac_simps)
qed

text \<open>
  C6: extraction inverts the encoding. On the encoding of any Client Hello whose first extension of
  type 0 is a server name extension for \<open>host\<close>, the returned offsets delimit exactly \<open>host\<close>.
\<close>

theorem ExtractSNIOffset_roundtrip:
  assumes hdr: "length hdr = 9" "hdr ! 0 = 0x16" "hdr ! 5 = 1" "length vr = 34"
    and len: "length sess < 256" "length ciph < 65536" "length cmpr < 256"
      "length (enc_exts exts) < 65536"
    and exts: "exts = before @ sni_ext listLen nameType host rest # after"
    and before: "\<forall>x \<in> set before. fst x \<noteq> 0"
    and raw: "tls_raw m = enc_client_hello hdr vr sess ciph cmpr exts"
  shows "\<exists>s. ExtractSNIOffset m = Inr (s, s + length host) \<and>
    take (length host) (drop s (tls_raw m)) = host"
proof -
  let ?x = "sni_ext listLen nameType host rest"
  define A where "A = hdr @ vr @ of_nat (length sess) # sess @ put16 (of_nat (length ciph)) @ ciph @
      of_nat (length cmpr) # cmpr @ put16 (of_nat (length (enc_exts exts)))"
  let ?A = "A @ enc_exts before" and ?B = "enc_exts after"
  have r: "tls_raw m = A @ enc_exts exts"
    by (simp add: raw A_def enc_client_hello_def)
  have E: "enc_exts exts = enc_exts before @ enc_ext ?x @ ?B"
    by (simp add: exts)
  have small: "\<forall>x \<in> set before. length (snd x) < 65536" "length (snd ?x) < 65536"
  proof -
    have "length (snd x) \<le> length (enc_exts es)" if "x \<in> set es" for x es
      using that by (induction es) auto
    with len(4) E show "\<forall>x \<in> set before. length (snd x) < 65536" "length (snd ?x) < 65536"
      by fastforce+
  qed
  then have host: "length host < 65536"
    by (simp add: sni_ext_def)
  have "ExtractSNIOffset m =
      ext_loop (A @ enc_exts exts) (length (A @ enc_exts exts)) (length A)"
    by (rule ExtractSNIOffset_prefix [OF hdr(1-4) len raw A_def])
  also have "\<dots> = ext_loop (A @ enc_exts exts) (length (A @ enc_exts exts)) (length ?A)"
    unfolding E by (subst ext_loop_skip) (use before small in auto)
  also have "\<dots> = Inr (length ?A + 9, length ?A + 9 + length host)"
    using ext_loop_sni [OF host small(2), of "length (A @ enc_exts exts)" ?A ?B] by (simp add: E)
  finally have "ExtractSNIOffset m = Inr (length ?A + 9, length ?A + 9 + length host)" .
  moreover have "take (length host) (drop (length ?A + 9) (tls_raw m)) = host"
    by (simp add: r E enc_ext_def sni_ext_def put16_def)
  ultimately show ?thesis by blast
qed

text \<open>
  C22: a header and a payload of the announced length are read back as written, and the reader is
  left at the next record.
\<close>

theorem ReadTLSMessage_roundtrip:
  assumes "unat (hdr_PayloadLen h) = length payload" and "length payload \<le> 16384"
  shows "ReadTLSMessage (TLSHeader_Bytes h @ payload @ rest) =
    Inr (\<lparr>tls_kind = ''real'', tls_header = h, tls_raw = TLSHeader_Bytes h @ payload,
          tls_rawHeader = TLSHeader_Bytes h, tls_rawPayload = payload\<rparr>, rest)"
proof -
  have "\<not> hdr_PayloadLen h > TLSMaxPayloadLen"
    using assms by (simp add: TLSMaxPayloadLen_def word_less_nat_alt)
  with assms show ?thesis
    by (simp add: ReadTLSMessage_def payload_size TLSHeader_fields [unfolded One_nat_def])
qed

text \<open>
  Whatever the input, the message reader neither panics nor loses a byte: a message is the
  consumed prefix of the input, five header bytes and the announced payload of at most 16384 bytes.
\<close>

lemma ReadTLSMessage_consumes:
  assumes "ReadTLSMessage r = Inr (m, r')"
  shows "r = tls_raw m @ r' \<and> tls_raw m = tls_rawHeader m @ tls_rawPayload m \<and>
    length (tls_rawHeader m) = 5 \<and>
    length (tls_rawPayload m) = unat (hdr_PayloadLen (tls_header m)) \<and>
    length (tls_rawPayload m) \<le> 16384 \<and>
    hdr_Type (tls_header m) = tls_raw m ! 0"
proof -
  define w where "w = be16 (take 5 r ! 3) (take 5 r ! 4)"
  from assms have ok: "5 \<le> length r" "\<not> w > TLSMaxPayloadLen"
    and rest: "unat w \<le> length r - 5" "tls_raw m = take 5 r @ take (unat w) (drop 5 r)"
      "r' = drop (unat w) (drop 5 r)" "hdr_PayloadLen (tls_header m) = w"
      "tls_rawHeader m = take 5 (tls_raw m)" "tls_rawPayload m = drop 5 (tls_raw m)"
      "hdr_Type (tls_header m) = r ! 0"
    by (auto simp: ReadTLSMessage_def ReadFull_def TLSHeaderLen_def w_def Let_def guardR_def
        payload_size [unfolded TLSHeaderLen_def, simplified] split: if_splits)
  have "unat w \<le> 16384"
    using ok(2) by (simp add: TLSMaxPayloadLen_def word_le_nat_alt not_less)
  moreover have "r = tls_raw m @ r'"
    using ok(1) rest by (simp flip: drop_drop)
  moreover have "r ! 0 = tls_raw m ! 0"
    using ok(1) rest by (simp add: nth_append)
  ultimately show ?thesis
    using ok(1) rest by auto
qed

lemma ReadTLSMessage_consumes_witness:
  "ReadTLSMessage [0x16, 3, 1, 0, 2, 1, 7, 9] =
     Inr (\<lparr>tls_kind = ''real'',
            tls_header = \<lparr>hdr_Type = 0x16, hdr_ProtoVersion = 0x301, hdr_PayloadLen = 2\<rparr>,
            tls_raw = [0x16, 3, 1, 0, 2, 1, 7], tls_rawHeader = [0x16, 3, 1, 0, 2],
            tls_rawPayload = [1, 7]\<rparr>, [9]) \<and>
   ([0x16, 3, 1, 0, 2, 1, 7, 9] :: bytes) = [0x16, 3, 1, 0, 2, 1, 7] @ [9]"
  (is "?read = Inr (?m, _) \<and> ?r = _")
proof -
  have full: "ReadFull 5 ?r = Inr ([0x16, 3, 1, 0, 2], [1, 7, 9])"
    by (simp add: ReadFull_def)
  have "be16 3 1 = 0x301" "be16 0 2 = 2"
    by (simp_all add: be16_def)
  then have r: "?read = Inr (?m, [9])"
    by (simp add: ReadTLSMessage_def TLSHeaderLen_def TLSMaxPayloadLen_def full, simp add: ReadFull_def)
  show ?thesis
    by (rule conjI [OF r]) (use ReadTLSMessage_consumes [OF r] in simp)
qed

theorem ReadTLSMessage_roundtrip_witness:
  "ReadTLSMessage (TLSHeader_Bytes \<lparr>hdr_Type = 0x16, hdr_ProtoVersion = 0x301,
       hdr_PayloadLen = 2\<rparr> @ [1, 7] @ [9]) =
     Inr (\<lparr>tls_kind = ''real'',
            tls_header = \<lparr>hdr_Type = 0x16, hdr_ProtoVersion = 0x301, hdr_PayloadLen = 2\<rparr>,
            tls_raw = TLSHeader_Bytes \<lparr>hdr_Type = 0x16, hdr_ProtoVersion = 0x301,
              hdr_PayloadLen = 2\<rparr> @ [1, 7],
            tls_rawHeader = TLSHeader_Bytes \<lparr>hdr_Type = 0x16, hdr_ProtoVersion = 0x301,
              hdr_PayloadLen = 2\<rparr>,
            tls_rawPayload = [1, 7]\<rparr>, [9])"
  by (rule ReadTLSMessage_roundtrip) simp_all

theorem ExtractSNIOffset_roundtrip_witness:
  "let m = NewFakeTLSMessage (enc_client_hello [0x16, 3, 1, 0, 0, 1, 0, 0, 0] (replicate 34 0)
       [] [0x13, 0x01] [0] [(0x17, []), sni_ext 4 0 [0x61, 0x62] [], (0x23, [7])])
   in \<exists>s. ExtractSNIOffset m = Inr (s, s + length [0x61 :: byte, 0x62]) \<and>
        take (length [0x61 :: byte, 0x62]) (drop s (tls_raw m)) = [0x61, 0x62]"
  unfolding Let_def
  by (rule ExtractSNIOffset_roundtrip [where before = "[(0x17, [])]" and after = "[(0x23, [7])]"
        and vr = "replicate 34 0" and sess = "[]" and ciph = "[0x13, 0x01]" and cmpr = "[0]"
        and hdr = "[0x16, 3, 1, 0, 0, 1, 0, 0, 0]" and listLen = 4 and nameType = 0 and rest = "[]"])
    (simp_all add: NewFakeTLSMessage_def sni_ext_def enc_exts_def enc_ext_def put16_def)

end
