(* ===== verification/GoStd.thy ===== *)
theory GoStd
  imports Prelude
begin

text \<open>
  The functions of Go's standard library that the modelled sources call: \<open>strings\<close>, \<open>strconv.Atoi\<close>,
  \<open>net.SplitHostPort\<close>, \<open>net.ParseIP\<close>, \<open>net.ParseCIDR\<close>, \<open>net.IP.To4\<close>/\<open>To16\<close>, \<open>net.IP.Equal\<close> and the
  bit rotations of \<open>math/bits\<close>. A Go string is a list of bytes (\<open>char\<close>); a \<open>net.IP\<close> is a byte list with
  \<open>[]\<close> for nil. Where the callers look only at \<open>err != nil\<close>, an error is \<open>None\<close>.
\<close>

subsection \<open>strings\<close>

fun strSplit :: "char \<Rightarrow> string \<Rightarrow> string list" where
  "strSplit sep [] = [[]]"
| "strSplit sep (c # cs) =
     (if c = sep then [] # strSplit sep cs
      else case strSplit sep cs of [] \<Rightarrow> [[c]] | p # ps \<Rightarrow> (c # p) # ps)"

fun strJoin :: "string \<Rightarrow> string list \<Rightarrow> string" where
  "strJoin sep [] = []"
| "strJoin sep [p] = p"
| "strJoin sep (p # q # ps) = p @ sep @ strJoin sep (q # ps)"

fun HasPrefix :: "string \<Rightarrow> string \<Rightarrow> bool" where
  "HasPrefix s [] = True"
| "HasPrefix [] (p # ps) = False"
| "HasPrefix (c # cs) (p # ps) = (c = p \<and> HasPrefix cs ps)"

definition TrimSuffix :: "string \<Rightarrow> string \<Rightarrow> string" where
  "TrimSuffix s suf =
     (if HasPrefix (rev s) (rev suf) then take (length s - length suf) s else s)"

fun strContains :: "string \<Rightarrow> string \<Rightarrow> bool" where
  "strContains [] sub = (sub = [])"
| "strContains (c # cs) sub = (HasPrefix (c # cs) sub \<or> strContains cs sub)"

text \<open>
  The white space of \<open>unicode.IsSpace\<close> as UTF-8: the six ASCII characters, U+0085, U+00A0, U+1680,
  U+2000 to U+200A, U+2028, U+2029, U+202F, U+205F and U+3000.
\<close>

definition goSpaces :: "string list" where
  "goSpaces =
     map (\<lambda>n. [char_of (n :: nat)]) [9, 10, 11, 12, 13, 32] @
     map (\<lambda>(a, b). [char_of (a :: nat), char_of (b :: nat)]) [(0xC2, 0x85), (0xC2, 0xA0)] @
     map (\<lambda>(a, b, c). [char_of (a :: nat), char_of (b :: nat), char_of (c :: nat)])
       ([(0xE1, 0x9A, 0x80), (0xE2, 0x80, 0xA8), (0xE2, 0x80, 0xA9), (0xE2, 0x80, 0xAF),
         (0xE2, 0x81, 0x9F), (0xE3, 0x80, 0x80)] @ map (\<lambda>c. (0xE2, 0x80, c)) [0x80..<0x8B])"

definition spacePrefix :: "string list \<Rightarrow> string \<Rightarrow> nat" where
  "spacePrefix sps s = (case find (HasPrefix s) sps of None \<Rightarrow> 0 | Some p \<Rightarrow> length p)"

function trimLeftWith :: "string list \<Rightarrow> string \<Rightarrow> string" where
  "trimLeftWith sps s =
     (if spacePrefix sps s = 0 \<or> s = [] then s else trimLeftWith sps (drop (spacePrefix sps s) s))"
  by pat_completeness auto
termination
  by (relation "measure (\<lambda>(sps, s). length s)") auto

declare trimLeftWith.simps [simp del]

definition TrimSpace :: "string \<Rightarrow> string" where
  "TrimSpace s =
     rev (trimLeftWith (map rev goSpaces) (rev (trimLeftWith goSpaces s)))"

lemma strSplit_not_Nil [simp]: "strSplit sep s \<noteq> []"
  by (induction s) (auto split: list.splits)

lemma strSplit_no_sep [simp]: "sep \<notin> set s \<Longrightarrow> strSplit sep s = [s]"
  by (induction s) auto

lemma strSplit_append_sep:
  "sep \<notin> set p \<Longrightarrow> strSplit sep (p @ sep # s) = p # strSplit sep s"
  by (induction p) auto

lemma strSplit_no_sep_in: "p \<in> set (strSplit sep s) \<Longrightarrow> sep \<notin> set p"
proof (induction s arbitrary: p)
  case (Cons c s)
  then show ?case by (cases "strSplit sep s") (auto split: if_splits)
qed simp

lemma strSplit_strJoin:
  "ps \<noteq> [] \<Longrightarrow> \<forall>p \<in> set ps. sep \<notin> set p \<Longrightarrow> strSplit sep (strJoin [sep] ps) = ps"
proof (induction ps rule: induct_list012)
  case (3 p q ps)
  then show ?case by (simp add: strSplit_append_sep)
qed simp_all

lemma HasPrefix_iff: "HasPrefix s p \<longleftrightarrow> (\<exists>t. s = p @ t)"
  by (induction s p rule: HasPrefix.induct) auto

subsection \<open>strconv.Atoi\<close>

definition isDigit :: "char \<Rightarrow> bool" where
  "isDigit c \<longleftrightarrow> 48 \<le> (of_char c :: nat) \<and> of_char c \<le> (57 :: nat)"

definition digitVal :: "char \<Rightarrow> nat" where
  "digitVal c = of_char c - 48"

definition decVal :: "string \<Rightarrow> nat" where
  "decVal s = foldl (\<lambda>n c. 10 * n + digitVal c) 0 s"

definition Atoi :: "string \<Rightarrow> int option" where
  "Atoi s =
     (let neg = HasPrefix s ''-'';
          ds = (if neg \<or> HasPrefix s ''+'' then tl s else s);
          v = (if neg then - int (decVal ds) else int (decVal ds)) in
      if ds = [] \<or> \<not> list_all isDigit ds then None
      else if v < - (2 ^ 63) \<or> v \<ge> 2 ^ 63 then None
      else Some v)"

subsection \<open>net.SplitHostPort\<close>

fun indexByte :: "string \<Rightarrow> char \<Rightarrow> nat option" where
  "indexByte [] x = None"
| "indexByte (c # cs) x = (if c = x then Some 0 else map_option Suc (indexByte cs x))"

definition lastIndexByte :: "string \<Rightarrow> char \<Rightarrow> nat option" where
  "lastIndexByte s x = map_option (\<lambda>i. length s - 1 - i) (indexByte (rev s) x)"

definition SplitHostPort :: "string \<Rightarrow> (string \<times> string) option" where
  "SplitHostPort hp =
     (case lastIndexByte hp CHR '':'' of
        None \<Rightarrow> None
      | Some i \<Rightarrow>
         let port = drop (i + 1) hp in
         if HasPrefix hp ''['' then
           (case indexByte hp CHR '']'' of
              None \<Rightarrow> None
            | Some e \<Rightarrow>
               if e + 1 = length hp then None
               else if e + 1 \<noteq> i then None
               else if CHR ''['' \<in> set (drop 1 hp) then None
               else if CHR '']'' \<in> set (drop (e + 1) hp) then None
               else Some (drop 1 (take e hp), port))
         else
           let host = take i hp in
           if CHR '':'' \<in> set host then None
           else if CHR ''['' \<in> set hp then None
           else if CHR '']'' \<in> set hp then None
           else Some (host, port))"

subsection \<open>IP addresses\<close>

type_synonym IP = bytes

definition v4InV6Prefix :: bytes where
  "v4InV6Prefix = [0, 0, 0, 0, 0, 0, 0, 0, 0, 0, 0xff, 0xff]"

definition To4 :: "IP \<Rightarrow> IP option" where
  "To4 ip =
     (if length ip = 4 then Some ip
      else if length ip = 16 \<and> take 12 ip = v4InV6Prefix then Some (drop 12 ip)
      else None)"

definition To16 :: "IP \<Rightarrow> IP option" where
  "To16 ip =
     (if length ip = 4 then Some (v4InV6Prefix @ ip)
      else if length ip = 16 then Some ip
      else None)"

text \<open>\<open>net.IP.Equal\<close>: an IPv4 address and the same address in IPv6 form are equal.\<close>

definition IP_Equal :: "IP \<Rightarrow> IP \<Rightarrow> bool" where
  "IP_Equal ip x =
     (if length ip = length x then ip = x
      else if length ip = 4 \<and> length x = 16 then take 12 x = v4InV6Prefix \<and> ip = drop 12 x
      else if length ip = 16 \<and> length x = 4 then take 12 ip = v4InV6Prefix \<and> drop 12 ip = x
      else False)"

lemma length_v4InV6Prefix [simp]: "length v4InV6Prefix = 12"
  by (simp add: v4InV6Prefix_def)

lemma To16_length: "To16 ip = Some x \<Longrightarrow> length x = 16"
  by (auto simp: To16_def split: if_splits)

lemma To4_length: "To4 ip = Some x \<Longrightarrow> length x = 4"
  by (auto simp: To4_def split: if_splits)

lemma To4_To16: "To16 ip = Some x \<Longrightarrow> To4 x = To4 ip"
  by (auto simp: To16_def To4_def split: if_splits)

subsection \<open>Parsing addresses\<close>

datatype Addr = InvalidAddr | Addr4 bytes | Addr6 bytes string

definition parseOctet :: "string \<Rightarrow> byte option" where
  "parseOctet s =
     (if s = [] \<or> \<not> list_all isDigit s then None
      else if HasPrefix s ''0'' \<and> length s > 1 then None
      else if decVal s > 255 then None
      else Some (of_nat (decVal s)))"

definition parseIPv4Fields :: "string \<Rightarrow> bytes option" where
  "parseIPv4Fields s =
     (let fs = map parseOctet (strSplit CHR ''.'' s) in
      if length fs = 4 \<and> None \<notin> set fs then Some (map the fs) else None)"

definition hexVal :: "char \<Rightarrow> nat option" where
  "hexVal c =
     (if isDigit c then Some (digitVal c)
      else if 97 \<le> (of_char c :: nat) \<and> of_char c \<le> (102 :: nat) then Some (of_char c - 87)
      else if 65 \<le> (of_char c :: nat) \<and> of_char c \<le> (70 :: nat) then Some (of_char c - 55)
      else None)"

definition hexDigits :: "string \<Rightarrow> string" where
  "hexDigits s = takeWhile (\<lambda>c. hexVal c \<noteq> None) s"

definition hexNum :: "string \<Rightarrow> nat" where
  "hexNum s = foldl (\<lambda>n c. 16 * n + the (hexVal c)) 0 s"

text \<open>
  The group loop of \<open>netip.parseIPv6\<close>: \<open>ip\<close> holds the bytes parsed so far (\<open>i = length ip\<close>), \<open>ell\<close> the
  position of the ellipsis. The result is the bytes, the ellipsis and the unread rest.
\<close>

function v6Groups :: "bytes \<Rightarrow> nat option \<Rightarrow> string \<Rightarrow> (bytes \<times> nat option \<times> string) option" where
  "v6Groups ip ell s =
     (if length ip < 16 then
        let ds = hexDigits s; off = length ds; r = drop off s in
        if off = 0 \<or> off > 4 then None
        else if HasPrefix r ''.'' then
          if ell = None \<and> length ip \<noteq> 12 then None
          else if length ip + 4 > 16 then None
          else map_option (\<lambda>q. (ip @ q, ell, [])) (parseIPv4Fields s)
        else
          let ip' = ip @ [of_nat (hexNum ds div 256), of_nat (hexNum ds mod 256)] in
          if r = [] then Some (ip', ell, [])
          else if \<not> HasPrefix r '':'' \<or> length r = 1 then None
          else if HasPrefix (tl r) '':'' then
            if ell \<noteq> None then None
            else if tl (tl r) = [] then Some (ip', Some (length ip'), [])
            else v6Groups ip' (Some (length ip')) (tl (tl r))
          else v6Groups ip' ell (tl r)
      else Some (ip, ell, s))"
  by pat_completeness auto
termination
  by (relation "measure (\<lambda>(ip, ell, s). 16 - length ip)") auto

declare v6Groups.simps [simp del]

definition v6Expand :: "bytes \<times> nat option \<times> string \<Rightarrow> bytes option" where
  "v6Expand x =
     (case x of (ip, ell, s) \<Rightarrow>
        if s \<noteq> [] then None
        else if length ip < 16 then
          (case ell of
             None \<Rightarrow> None
           | Some e \<Rightarrow> Some (take e ip @ replicate (16 - length ip) 0 @ drop e ip))
        else if ell \<noteq> None then None
        else Some ip)"

definition parseIPv6 :: "string \<Rightarrow> Addr option" where
  "parseIPv6 inp =
     (let (s, zone) = (case indexByte inp CHR ''%'' of
                         None \<Rightarrow> (inp, None)
                       | Some i \<Rightarrow> (take i inp, Some (drop (i + 1) inp))) in
      if zone = Some [] then None
      else
        let z = (case zone of None \<Rightarrow> [] | Some z \<Rightarrow> z) in
        if HasPrefix s ''::'' then
          if length s = 2 then Some (Addr6 (replicate 16 0) z)
          else map_option (\<lambda>ip. Addr6 ip z) (Option.bind (v6Groups [] (Some 0) (drop 2 s)) v6Expand)
        else map_option (\<lambda>ip. Addr6 ip z) (Option.bind (v6Groups [] None s) v6Expand))"

definition ParseAddr :: "string \<Rightarrow> Addr option" where
  "ParseAddr s =
     (case find (\<lambda>c. c = CHR ''.'' \<or> c = CHR '':'' \<or> c = CHR ''%'') s of
        None \<Rightarrow> None
      | Some c \<Rightarrow>
         if c = CHR ''.'' then map_option Addr4 (parseIPv4Fields s)
         else if c = CHR '':'' then parseIPv6 s
         else None)"

fun As16 :: "Addr \<Rightarrow> bytes" where
  "As16 InvalidAddr = replicate 16 0"
| "As16 (Addr4 b) = v4InV6Prefix @ b"
| "As16 (Addr6 b z) = b"

fun Addr_Zone :: "Addr \<Rightarrow> string" where
  "Addr_Zone (Addr6 b z) = z"
| "Addr_Zone a = []"

fun BitLen :: "Addr \<Rightarrow> nat" where
  "BitLen InvalidAddr = 0"
| "BitLen (Addr4 b) = 32"
| "BitLen (Addr6 b z) = 128"

definition ParseIP :: "string \<Rightarrow> IP" where
  "ParseIP s =
     (case ParseAddr s of
        None \<Rightarrow> []
      | Some a \<Rightarrow> if Addr_Zone a \<noteq> [] then [] else As16 a)"

text \<open>\<open>CIDRMask(n, bits)\<close> as bytes and the bytewise \<open>IP.Mask\<close>.\<close>

definition maskByte :: "nat \<Rightarrow> byte" where
  "maskByte k = (if k \<ge> 8 then 0xff else NOT (drop_bit k 0xff))"

definition CIDRMask :: "nat \<Rightarrow> nat \<Rightarrow> bytes" where
  "CIDRMask n bits = map (\<lambda>i. maskByte (n - 8 * i)) [0..<bits div 8]"

record IPNet =
  net_IP :: IP
  net_Ones :: nat

text \<open>The \<open>IPNet\<close> keeps the number of leading ones (\<open>Mask.Size()\<close>) for its mask.\<close>

definition ParseCIDR :: "string \<Rightarrow> (IP \<times> IPNet) option" where
  "ParseCIDR s =
     (case indexByte s CHR ''/'' of
        None \<Rightarrow> None
      | Some i \<Rightarrow>
         (case ParseAddr (take i s) of
            None \<Rightarrow> None
          | Some a \<Rightarrow>
             let m = drop (i + 1) s in
             if Addr_Zone a \<noteq> [] then None
             else if m = [] \<or> \<not> list_all isDigit m then None
             else if decVal m > BitLen a then None
             else
               let ip16 = As16 a;
                   ip = (if BitLen a = 32 then drop 12 ip16 else ip16) in
               Some (ip16, \<lparr>net_IP = map2 (AND) ip (CIDRMask (decVal m) (BitLen a)),
                            net_Ones = decVal m\<rparr>)))"

subsection \<open>math/bits\<close>

definition RotateLeft8 :: "byte \<Rightarrow> int \<Rightarrow> byte" where
  "RotateLeft8 x k = (let s = nat (k mod 8) in push_bit s x OR drop_bit (8 - s) x)"

definition RotateLeft64 :: "u64 \<Rightarrow> int \<Rightarrow> u64" where
  "RotateLeft64 x k = (let s = nat (k mod 64) in push_bit s x OR drop_bit (64 - s) x)"

subsection \<open>Lengths of parsed addresses\<close>

lemma parseIPv4Fields_length: "parseIPv4Fields s = Some b \<Longrightarrow> length b = 4"
  by (auto simp: parseIPv4Fields_def Let_def split: if_splits)

lemma v6Groups_length:
  "v6Groups ip ell s = Some (ip', ell', r) \<Longrightarrow> even (length ip) \<Longrightarrow> length ip \<le> 16 \<Longrightarrow> length ip' \<le> 16"
proof (induction ip ell s rule: v6Groups.induct)
  case (1 ip ell s)
  show ?case
  proof (cases "length ip < 16")
    case False
    with 1(3,5) show ?thesis by (simp add: v6Groups.simps [of ip ell s])
  next
    case True
    then have len: "length ip \<le> 14"
      using 1(4) by (cases "length ip = 15") auto
    define ds where "ds = hexDigits s"
    define r' where "r' = drop (length ds) s"
    define ip2 where "ip2 = ip @ [of_nat (hexNum ds div 256), of_nat (hexNum ds mod 256)]"
    have ip2: "even (length ip2)" "length ip2 \<le> 16"
      using len 1(4) by (simp_all add: ip2_def)
    note eq = 1(3) [unfolded v6Groups.simps [of ip ell s] Let_def, folded ds_def, folded r'_def, folded ip2_def]
    note IH = 1(1) [OF True ds_def refl r'_def _ _ ip2_def _ _ _ _ _ _ ip2] 1(2) [OF True ds_def refl r'_def _ _ ip2_def _ _ _ _ ip2]
    show ?thesis
      using eq True IH ip2 len parseIPv4Fields_length [of s] by (auto split: if_splits)
  qed
qed


lemma v6Expand_length: "v6Expand (ip, ell, s) = Some b \<Longrightarrow> length ip \<le> 16 \<Longrightarrow> length b = 16"
  by (auto simp: v6Expand_def split: if_splits option.splits)

lemma parseIPv6_length:
  assumes "parseIPv6 s = Some a"
  shows "\<exists>b z. a = Addr6 b z \<and> length b = 16"
proof -
  have g: "length b = 16" if "Option.bind (v6Groups [] e t) v6Expand = Some b" for e t b
    using that v6Groups_length [of "[]" e t] v6Expand_length by (auto simp: bind_eq_Some_conv)
  show ?thesis
    using assms by (auto simp: parseIPv6_def Let_def dest: g split: prod.splits if_splits option.splits)
qed

lemma ParseAddr_cases:
  assumes "ParseAddr s = Some a"
  shows "(\<exists>b. a = Addr4 b \<and> length b = 4) \<or> (\<exists>b z. a = Addr6 b z \<and> length b = 16)"
  using assms parseIPv6_length
  by (auto simp: ParseAddr_def parseIPv4Fields_length split: option.splits if_splits)

lemma length_CIDRMask [simp]: "length (CIDRMask n bits) = bits div 8"
  by (simp add: CIDRMask_def)

lemma ParseCIDR_net:
  assumes "ParseCIDR s = Some (ip, n)"
  shows "(length (net_IP n) = 4 \<and> net_Ones n \<le> 32) \<or> (length (net_IP n) = 16 \<and> net_Ones n \<le> 128)"
proof -
  obtain i a where i: "indexByte s CHR ''/'' = Some i" and a: "ParseAddr (take i s) = Some a"
    using assms by (auto simp: ParseCIDR_def split: option.splits)
  show ?thesis
    using assms ParseAddr_cases [OF a] by (auto simp: ParseCIDR_def i a Let_def split: if_splits)
qed

lemma ParseIP_length: "ParseIP s \<noteq> [] \<Longrightarrow> length (ParseIP s) = 16"
  using ParseAddr_cases [of s] by (auto simp: ParseIP_def split: option.splits if_splits)


lemma strJoin_Cons: "strJoin sep ((c # p) # ps) = c # strJoin sep (p # ps)"
  by (cases ps) auto

lemma strJoin_strSplit: "strJoin [sep] (strSplit sep s) = s"
proof (induction s)
  case (Cons c s)
  then show ?case by (cases "strSplit sep s" rule: list.exhaust) (auto split: list.splits simp: neq_Nil_conv strJoin_Cons)
qed simp


end
