(* ===== verification/ConfigTypes.thy ===== *)
theory ConfigTypes
  imports TLS GoStd
begin

text \<open>
  The configuration data of \<open>src/internal/config\<close>: the option structs and enums of \<open>types.go\<close>, the
  grouping of \<open>config.go\<close>, the defaults of \<open>cli.go\<close> and the operations of \<open>config.go\<close> on a resolved
  configuration. Durations are nanoseconds (\<open>time.Duration\<close>). The log level is the integer of the
  logging library; its \<open>InfoLevel\<close> and \<open>ParseLevel\<close> are arguments where they are used.
\<close>

subsection \<open>Enums and their names\<close>

datatype AppModeType = AppModeHTTP | AppModeSOCKS5 | AppModeTUN

datatype DNSModeType = DNSModeUDP | DNSModeHTTPS | DNSModeSystem

datatype DNSQueryType = DNSQueryIPv4 | DNSQueryIPv6 | DNSQueryAll

datatype HTTPSSplitModeType =
    HTTPSSplitModeSNI
  | HTTPSSplitModeRandom
  | HTTPSSplitModeChunk
  | HTTPSSplitModeFirstByte
  | HTTPSSplitModeCustom
  | HTTPSSplitModeNone

datatype SegmentFromType = SegmentFromHead | SegmentFromSNI

definition availableLogLevelValues :: "string list" where
  "availableLogLevelValues = [''info'', ''warn'', ''trace'', ''error'', ''debug'', ''disabled'']"

definition availableAppModeValues :: "string list" where
  "availableAppModeValues = [''http'', ''socks5'', ''tun'']"

definition availableDNSModeValues :: "string list" where
  "availableDNSModeValues = [''udp'', ''https'', ''system'']"

definition availableDNSQueryValues :: "string list" where
  "availableDNSQueryValues = [''ipv4'', ''ipv6'', ''all'']"

definition availableHTTPSModeValues :: "string list" where
  "availableHTTPSModeValues = [''sni'', ''random'', ''chunk'', ''first-byte'', ''custom'', ''none'']"

definition availableSegmentFromValues :: "string list" where
  "availableSegmentFromValues = [''head'', ''sni'']"

text \<open>\<open>String()\<close> indexes the value table by the enum's number (\<open>iota\<close> order).\<close>

definition AppModeType_String :: "AppModeType \<Rightarrow> string" where
  "AppModeType_String t = availableAppModeValues !
     (case t of AppModeHTTP \<Rightarrow> 0 | AppModeSOCKS5 \<Rightarrow> 1 | AppModeTUN \<Rightarrow> 2)"

definition DNSModeType_String :: "DNSModeType \<Rightarrow> string" where
  "DNSModeType_String t = availableDNSModeValues !
     (case t of DNSModeUDP \<Rightarrow> 0 | DNSModeHTTPS \<Rightarrow> 1 | DNSModeSystem \<Rightarrow> 2)"

definition DNSQueryType_String :: "DNSQueryType \<Rightarrow> string" where
  "DNSQueryType_String t = availableDNSQueryValues !
     (case t of DNSQueryIPv4 \<Rightarrow> 0 | DNSQueryIPv6 \<Rightarrow> 1 | DNSQueryAll \<Rightarrow> 2)"

definition HTTPSSplitModeType_String :: "HTTPSSplitModeType \<Rightarrow> string" where
  "HTTPSSplitModeType_String k = availableHTTPSModeValues !
     (case k of HTTPSSplitModeSNI \<Rightarrow> 0 | HTTPSSplitModeRandom \<Rightarrow> 1 | HTTPSSplitModeChunk \<Rightarrow> 2
      | HTTPSSplitModeFirstByte \<Rightarrow> 3 | HTTPSSplitModeCustom \<Rightarrow> 4 | HTTPSSplitModeNone \<Rightarrow> 5)"

definition SegmentFromType_String :: "SegmentFromType \<Rightarrow> string" where
  "SegmentFromType_String s = availableSegmentFromValues !
     (case s of SegmentFromHead \<Rightarrow> 0 | SegmentFromSNI \<Rightarrow> 1)"

subsection \<open>Option structs\<close>

record TCPAddr =
  addr_IP :: IP
  addr_Port :: int
  addr_Zone :: string

record AppOptions =
  app_NoTUI :: bool
  app_LogLevel :: int
  app_Silent :: bool
  app_AutoConfigureNetwork :: bool
  app_Mode :: AppModeType
  app_ListenAddr :: TCPAddr
  app_FreebsdFIB :: int

record ConnOptions =
  conn_DefaultFakeTTL :: u8
  conn_DNSTimeout :: int
  conn_TCPTimeout :: int
  conn_UDPIdleTimeout :: int

record DNSOptions =
  dns_Mode :: DNSModeType
  dns_Addr :: TCPAddr
  dns_HTTPSURL :: string
  dns_QType :: DNSQueryType
  dns_Cache :: bool

record SegmentPlan =
  plan_From :: SegmentFromType
  plan_At :: int
  plan_Lazy :: bool
  plan_Noise :: int

record HTTPSOptions =
  https_Disorder :: bool
  https_FakeCount :: u8
  https_FakePacket :: "TLSMessage option"
  https_SplitMode :: HTTPSSplitModeType
  https_ChunkSize :: u8
  https_Skip :: bool
  https_CustomSegmentPlans :: "SegmentPlan list"

record UDPOptions =
  udp_Skip :: bool
  udp_FakeCount :: u8
  udp_FakePacket :: bytes

record MatchAttrs =
  match_Domains :: "string list"
  match_CIDRs :: "string list"

record RuntimeConfig =
  rt_Conn :: ConnOptions
  rt_DNS :: DNSOptions
  rt_HTTPS :: HTTPSOptions
  rt_UDP :: UDPOptions

record Rule =
  rule_Name :: string
  rule_Priority :: u16
  rule_Block :: bool
  rule_Match :: "MatchAttrs option"
  rule_Config :: RuntimeConfig

record StartupConfig =
  st_App :: AppOptions
  st_Rules :: "Rule list"

record Config =
  cfg_Startup :: StartupConfig
  cfg_Runtime :: RuntimeConfig

definition Rule_Clone :: "Rule option \<Rightarrow> Rule option" where
  "Rule_Clone r = (case r of None \<Rightarrow> None | Some x \<Rightarrow> Some x)"

definition fakePacketLen :: "TLSMessage option \<Rightarrow> nat" where
  "fakePacketLen m = (case m of None \<Rightarrow> 0 | Some x \<Rightarrow> length (tls_raw x))"

subsection \<open>Defaults\<close>

definition Millisecond :: int where "Millisecond = 1000000"

definition zeroTCPAddr :: TCPAddr where
  "zeroTCPAddr = \<lparr>addr_IP = [], addr_Port = 0, addr_Zone = []\<rparr>"

definition FakeClientHello :: bytes where
  "FakeClientHello =
    [0x16, 0x03, 0x01, 0x02, 0x00, 0x01, 0x00, 0x01, 0xfc, 0x03, 0x03, 0x9a, 0x8f, 0xa7, 0x6a, 0x5d,
     0x57, 0xf3, 0x62, 0x19, 0xbe, 0x46, 0x82, 0x45, 0xe2, 0x59, 0x5c, 0xb4, 0x48, 0x31, 0x12, 0x15,
     0x14, 0x79, 0x2c, 0xaa, 0xcd, 0xea, 0xda, 0xf0, 0xe1, 0xfd, 0xbb, 0x20, 0xf4, 0x83, 0x2a, 0x94,
     0xf1, 0x48, 0x3b, 0x9d, 0xb6, 0x74, 0xba, 0x3c, 0x81, 0x63, 0xbc, 0x18, 0xcc, 0x14, 0x45, 0x57,
     0x6c, 0x80, 0xf9, 0x25, 0xcf, 0x9c, 0x86, 0x60, 0x50, 0x31, 0x2e, 0xe9, 0x00, 0x22, 0x13, 0x01,
     0x13, 0x03, 0x13, 0x02, 0xc0, 0x2b, 0xc0, 0x2f, 0xcc, 0xa9, 0xcc, 0xa8, 0xc0, 0x2c, 0xc0, 0x30,
     0xc0, 0x0a, 0xc0, 0x09, 0xc0, 0x13, 0xc0, 0x14, 0x00, 0x9c, 0x00, 0x9d, 0x00, 0x2f, 0x00, 0x35,
     0x01, 0x00, 0x01, 0x91, 0x00, 0x00, 0x00, 0x14, 0x00, 0x12, 0x00, 0x00, 0x0f, 0x77, 0x77, 0x77,
     0x2e, 0x67, 0x6f, 0x6f, 0x67, 0x6c, 0x65, 0x2e, 0x63, 0x6f, 0x6d, 0x00, 0x17, 0x00, 0x00, 0xff,
     0x01, 0x00, 0x01, 0x00, 0x00, 0x0a, 0x00, 0x0e, 0x00, 0x0c, 0x00, 0x1d, 0x00, 0x17, 0x00, 0x18,
     0x00, 0x19, 0x01, 0x00, 0x01, 0x01, 0x00, 0x0b, 0x00, 0x02, 0x01, 0x00, 0x00, 0x23, 0x00, 0x00,
     0x00, 0x10, 0x00, 0x0e, 0x00, 0x0c, 0x02, 0x68, 0x32, 0x08, 0x68, 0x74, 0x74, 0x70, 0x2f, 0x31,
     0x2e, 0x31, 0x00, 0x05, 0x00, 0x05, 0x01, 0x00, 0x00, 0x00, 0x00, 0x00, 0x0d, 0x00, 0x18, 0x00,
     0x16, 0x04, 0x03, 0x05, 0x03, 0x06, 0x03, 0x08, 0x04, 0x08, 0x05, 0x08, 0x06, 0x04, 0x01, 0x05,
     0x01, 0x06, 0x01, 0x02, 0x03, 0x02, 0x01, 0x00, 0x12, 0x00, 0x00, 0x00, 0x33, 0x00, 0x6b, 0x00,
     0x69, 0x00, 0x1d, 0x00, 0x20, 0x67, 0xb1, 0x88, 0x18, 0x47, 0x6e, 0xc3, 0xc1, 0x83, 0x73, 0xb1,
     0xa9, 0x80, 0x42, 0x36, 0xb6, 0xe1, 0x66, 0x6e, 0xb6, 0x6c, 0x32, 0x9b, 0xc3, 0xf3, 0x18, 0x29,
     0x7c, 0xff, 0xc1, 0x77, 0x7c, 0x00, 0x17, 0x00, 0x41, 0x04, 0xa6, 0xb6, 0xb1, 0xb1, 0xc6, 0x4d,
     0xb1, 0x86, 0xa1, 0x8a, 0x80, 0x4d, 0xa6, 0x35, 0x57, 0xa1, 0xc4, 0x88, 0x9a, 0x9c, 0xa9, 0x6d,
     0x6e, 0x67, 0xa6, 0x47, 0x59, 0xc6, 0x82, 0x10, 0x06, 0xc9, 0x9b, 0x12, 0x91, 0x6c, 0xa1, 0xc4,
     0x8d, 0xb1, 0xc6, 0x95, 0xa9, 0xc7, 0x9c, 0x06, 0xa1, 0xa3, 0x83, 0xb6, 0x59, 0xa6, 0x40, 0x73,
     0x83, 0xc6, 0x95, 0x59, 0xa9, 0xb1, 0x18, 0xc1, 0x6d, 0x9b, 0xa6, 0x49, 0x9c, 0x47, 0x16, 0xc1,
     0xa6, 0x59, 0xa9, 0x18, 0xc7, 0x9c, 0x18, 0x4d, 0xa6, 0x9b, 0x4d, 0x6d, 0x57, 0x16, 0x16, 0x95,
     0xa6, 0xc7, 0x96, 0x67, 0x96, 0x16, 0x69, 0x82, 0x95, 0x91, 0x83, 0x49, 0xc7, 0x06, 0x82, 0x6c,
     0xb6, 0x6c, 0x96, 0xa3, 0xc1, 0xb1, 0xc1, 0x86, 0x16, 0xa3, 0xc1, 0xb1, 0xc4, 0x95, 0xa6, 0x67,
     0xb1, 0x86, 0xa3, 0xc1, 0xa6, 0x16, 0xa6, 0xc4, 0x06, 0x6e, 0x6d, 0x99, 0x47, 0x6c, 0xa1, 0x82,
     0x06, 0xc4, 0x18, 0xa6, 0xc4, 0x69, 0xa3, 0x9b, 0xa3, 0x40, 0x6e, 0xa9, 0xb1, 0xa6, 0x95, 0x73,
     0xc1, 0x88, 0x06, 0x95, 0x4d, 0xa9, 0x40, 0x4d, 0x67, 0x88, 0x96, 0xa6, 0x67, 0x18, 0x06, 0x69,
     0x99, 0xa3, 0x88, 0x88, 0xa9, 0x6e, 0xa1, 0x99, 0x06, 0x95, 0x06, 0xa9, 0x83, 0x4d, 0x16, 0x73,
     0x47, 0x88, 0x67, 0xa6, 0x6c, 0xa6, 0x18, 0xc1, 0xa6, 0x95, 0x59, 0xa3, 0x9b, 0x96, 0xa3, 0x73,
     0xb6, 0x06, 0xa1, 0x18, 0x6e, 0x67, 0x67, 0xa1, 0x91, 0x4d, 0xa6, 0x59, 0x9c, 0x82, 0x86, 0x95,
     0x16, 0xa3, 0x47, 0x95, 0x18, 0x96, 0x95, 0x06, 0xa6, 0xc7, 0x47, 0xc7, 0x82, 0x47, 0x9b, 0x18,
     0x73, 0x9b, 0x18, 0x91, 0x99, 0x18, 0x9c, 0xa6, 0x9c, 0xa9, 0x67, 0xc7, 0x96, 0x18, 0x06, 0xc4,
     0x9c, 0xc4, 0x83, 0x47, 0x18, 0x59, 0x96, 0x47, 0x91, 0xa1, 0x47, 0x06, 0xb6, 0x69, 0x6c, 0x99,
     0x4d, 0x69, 0xa1, 0x59, 0x18, 0xc1, 0x47, 0x6c, 0x6e, 0x91, 0x9b, 0x6e, 0x67, 0xa6, 0x91, 0xa3,
     0xc4, 0x47, 0xb1, 0x47, 0xa3, 0x95, 0x49, 0x73, 0x95, 0x88, 0x18, 0x59, 0x82, 0xc7, 0xa9, 0x99,
     0xc6, 0x99, 0xa3, 0x88, 0x6c, 0x67, 0x6c, 0xa6, 0xa6, 0xb1, 0xc7, 0x67, 0x59, 0x99, 0x06, 0x4d,
     0xa3, 0x95, 0x49, 0xc4, 0x69, 0x6e, 0x4d, 0x96, 0x47, 0x4d, 0xa1, 0xa1, 0xa1, 0x99, 0xa9, 0xb1,
     0x82, 0xa9, 0x16, 0x40, 0x95, 0x95, 0x82, 0x82, 0x91, 0x47, 0xa6, 0x40, 0x91, 0x91, 0x99, 0xa9,
     0x06, 0xa9, 0x88, 0x9c, 0xa9, 0xa9, 0x18, 0x47, 0x6e, 0x9b, 0x9b, 0xa3, 0xa9, 0xc7, 0x6e, 0xa3,
     0xa3, 0xc7, 0xb1, 0x47, 0x4d, 0x83, 0xa9, 0xc4, 0x49, 0x4d, 0x9c, 0x91, 0xa9, 0x47, 0xb6, 0xa9,
     0x4d, 0x47]"

definition DefaultConfig :: "int \<Rightarrow> Config" where
  "DefaultConfig infoLevel =
    \<lparr>cfg_Startup =
       \<lparr>st_App =
          \<lparr>app_NoTUI = False,
           app_LogLevel = infoLevel,
           app_Silent = False,
           app_AutoConfigureNetwork = False,
           app_Mode = AppModeHTTP,
           app_ListenAddr = zeroTCPAddr,
           app_FreebsdFIB = 1\<rparr>,
        st_Rules = []\<rparr>,
     cfg_Runtime =
       \<lparr>rt_Conn =
          \<lparr>conn_DefaultFakeTTL = 8,
           conn_DNSTimeout = 5000 * Millisecond,
           conn_TCPTimeout = 10000 * Millisecond,
           conn_UDPIdleTimeout = 25000 * Millisecond\<rparr>,
        rt_DNS =
          \<lparr>dns_Mode = DNSModeUDP,
           dns_Addr = \<lparr>addr_IP = ParseIP ''8.8.8.8'', addr_Port = 53, addr_Zone = []\<rparr>,
           dns_HTTPSURL = ''https://dns.google/dns-query'',
           dns_QType = DNSQueryIPv4,
           dns_Cache = False\<rparr>,
        rt_HTTPS =
          \<lparr>https_Disorder = False,
           https_FakeCount = 0,
           https_FakePacket = Some (NewFakeTLSMessage FakeClientHello),
           https_SplitMode = HTTPSSplitModeSNI,
           https_ChunkSize = 35,
           https_Skip = False,
           https_CustomSegmentPlans = []\<rparr>,
        rt_UDP =
          \<lparr>udp_Skip = False,
           udp_FakeCount = 0,
           udp_FakePacket = replicate 64 0\<rparr>\<rparr>\<rparr>"

subsection \<open>Operations on a resolved configuration\<close>

definition NeedsPcapTCP :: "Config \<Rightarrow> bool" where
  "NeedsPcapTCP c \<longleftrightarrow>
     https_FakeCount (rt_HTTPS (cfg_Runtime c)) > 0 \<or>
     list_ex (\<lambda>r. https_FakeCount (rt_HTTPS (rule_Config r)) > 0) (st_Rules (cfg_Startup c))"

definition NeedsPcapUDP :: "Config \<Rightarrow> bool" where
  "NeedsPcapUDP c \<longleftrightarrow>
     udp_FakeCount (rt_UDP (cfg_Runtime c)) > 0 \<or>
     list_ex (\<lambda>r. udp_FakeCount (rt_UDP (rule_Config r)) > 0) (st_Rules (cfg_Startup c))"

definition NeedsPcap :: "Config \<Rightarrow> bool" where
  "NeedsPcap c \<longleftrightarrow> NeedsPcapTCP c \<or> NeedsPcapUDP c"

text \<open>The messages \<open>AddWarnMsg\<close> appends to \<open>WarnMsgs\<close>, one constructor per call site.\<close>

datatype warning =
    WarnSocks5Experimental
  | WarnTunExperimental
  | WarnPolicyTemplateDeprecated
  | WarnPolicyOverridesDeprecated
  | WarnFileNotFound string

text \<open>
  \<open>Finalize\<close> returns the configuration and the warnings it appends to \<open>WarnMsgs\<close>; it has no error
  path.
\<close>

definition Finalize :: "Config \<Rightarrow> Config \<times> warning list" where
  "Finalize c =
     (let app = st_App (cfg_Startup c);
          port = (if app_Mode app = AppModeSOCKS5 then 1080 else 8080);
          app' = (if addr_IP (app_ListenAddr app) = [] \<and> addr_Port (app_ListenAddr app) = 0
                  then app\<lparr>app_ListenAddr :=
                         \<lparr>addr_IP = ParseIP ''127.0.0.1'', addr_Port = port, addr_Zone = []\<rparr>\<rparr>
                  else app);
          warns = (case app_Mode app of
                     AppModeSOCKS5 \<Rightarrow> [WarnSocks5Experimental]
                   | AppModeTUN \<Rightarrow> [WarnTunExperimental]
                   | AppModeHTTP \<Rightarrow> [])
      in (c\<lparr>cfg_Startup := (cfg_Startup c)\<lparr>st_App := app'\<rparr>\<rparr>, warns))"

end
