(* ===== verification/NetKey.thy ===== *)
theory NetKey
  imports GoStd
begin

text \<open>
  The cache keys of \<open>src/internal/netutil/key.go\<close>: an IP key is a 16-byte array, a NAT key the 4-tuple
  of a UDP session. Arrays are byte lists; \<open>wf_NATKey\<close> states their fixed length.
\<close>

type_synonym IPKey = bytes

definition isIPv4Mapped :: "bytes \<Rightarrow> bool" where
  "isIPv4Mapped ip \<longleftrightarrow> (\<forall>i < 10. ip ! i = 0) \<and> ip ! 10 = 0xff \<and> ip ! 11 = 0xff"

record NATKey =
  nat_SrcIP :: bytes
  nat_SrcPort :: u16
  nat_DstIP :: bytes
  nat_DstPort :: u16

definition IPKey_Bytes :: "IPKey \<Rightarrow> bytes" where
  "IPKey_Bytes k = k"

text \<open>\<open>copy(k[:], ip16)\<close> into a zeroed array, skipped when \<open>To16\<close> is nil.\<close>

definition copy16 :: "IP \<Rightarrow> bytes" where
  "copy16 ip = (case To16 ip of None \<Rightarrow> replicate 16 0 | Some x \<Rightarrow> x)"

definition NewIPKey :: "IP \<Rightarrow> IPKey" where
  "NewIPKey ip = copy16 ip"

definition NATKey_Bytes :: "NATKey \<Rightarrow> bytes" where
  "NATKey_Bytes k = nat_SrcIP k @ put16 (nat_SrcPort k) @ nat_DstIP k @ put16 (nat_DstPort k)"

text \<open>The ports are Go \<open>int\<close>s truncated to 16 bits.\<close>

definition NewNATKey :: "IP \<Rightarrow> int \<Rightarrow> IP \<Rightarrow> int \<Rightarrow> NATKey" where
  "NewNATKey srcIP srcPort dstIP dstPort =
     \<lparr>nat_SrcIP = copy16 srcIP, nat_SrcPort = of_int srcPort,
      nat_DstIP = copy16 dstIP, nat_DstPort = of_int dstPort\<rparr>"

definition wf_NATKey :: "NATKey \<Rightarrow> bool" where
  "wf_NATKey k \<longleftrightarrow> length (nat_SrcIP k) = 16 \<and> length (nat_DstIP k) = 16"

lemma length_copy16 [simp]: "length (copy16 ip) = 16"
  by (auto simp: copy16_def To16_length split: option.splits)

lemma wf_NewNATKey [simp]: "wf_NATKey (NewNATKey a p b q)"
  by (simp add: wf_NATKey_def NewNATKey_def)

lemma put16_inject [simp]: "put16 a = put16 b \<longleftrightarrow> a = b"
  by (metis be16_nth_put16)

lemma isIPv4Mapped_iff_To4:
  assumes "length ip = 16"
  shows "isIPv4Mapped ip \<longleftrightarrow> To4 ip \<noteq> None"
proof -
  have "take 12 ip = v4InV6Prefix \<longleftrightarrow> (\<forall>i < 12. ip ! i = v4InV6Prefix ! i)"
    using assms by (auto simp: list_eq_iff_nth_eq)
  also have "\<dots> \<longleftrightarrow> isIPv4Mapped ip"
    by (auto simp: isIPv4Mapped_def v4InV6Prefix_def numeral_eq_Suc All_less_Suc)
  finally show ?thesis
    using assms by (auto simp: To4_def)
qed

text \<open>
  The byte form of a NAT key, which selects the cache shard, is injective: two sessions have
  equal bytes only when all four components agree.
\<close>

lemma NATKey_Bytes_inject:
  assumes "wf_NATKey k" and "wf_NATKey l" and "NATKey_Bytes k = NATKey_Bytes l"
  shows "k = l"
proof -
  have "nat_SrcIP k = nat_SrcIP l \<and> nat_SrcPort k = nat_SrcPort l \<and>
      nat_DstIP k = nat_DstIP l \<and> nat_DstPort k = nat_DstPort l"
    using assms by (simp add: wf_NATKey_def NATKey_Bytes_def append_eq_append_conv)
  then show ?thesis by simp
qed

lemma NATKey_Bytes_inject_witness:
  "NewNATKey [10, 0, 0, 1] 53 [8, 8, 8, 8] 53 = NewNATKey (v4InV6Prefix @ [10, 0, 0, 1]) 53 [8, 8, 8, 8] (53 + 2 ^ 16)"
proof (rule NATKey_Bytes_inject)
  show "NATKey_Bytes (NewNATKey [10, 0, 0, 1] 53 [8, 8, 8, 8] 53) =
      NATKey_Bytes (NewNATKey (v4InV6Prefix @ [10, 0, 0, 1]) 53 [8, 8, 8, 8] (53 + 2 ^ 16))"
    by (simp add: NATKey_Bytes_def NewNATKey_def copy16_def To16_def v4InV6Prefix_def)
qed simp_all


end
