(* ===== verification/Desync.thy ===== *)
theory Desync
  imports ConfigTypes NetKey "HOL-Library.Multiset" "HOL-Library.Sublist"
begin

text \<open>
  Model of \<open>src/internal/desync\<close>: how a Client Hello is cut into segments, how the segments are
  written with a manipulated TTL, and how fake packets are injected before it.

  Randomness is an argument: \<open>seed\<close> for the one \<open>rand.Uint\<close> of \<open>genPatternMask\<close>, and \<open>intN j n\<close> for the
  \<open>j\<close>-th call \<open>rand.IntN(n)\<close>. \<open>slices.SortFunc\<close> is not stable, so the sort is an argument too. The
  outcome of each system call (\<open>SetTTL\<close>, \<open>Write\<close>, \<open>WriteCraftedPacket\<close>) is a function of the number of
  such calls made before it.
\<close>

record Segment =
  seg_Packet :: bytes
  seg_Lazy :: bool

datatype split_error =
    EmptyData
  | SizeIsZero
  | LenLessThan2
  | StartAfterEnd
  | PosOutOfRange
  | SNIError sni_error

subsection \<open>The split modes\<close>

text \<open>The loop of \<open>splitChunks\<close>; the caller has refused size 0, for which Go would not return.\<close>

function chunk_loop :: "bytes \<Rightarrow> nat \<Rightarrow> bool \<Rightarrow> bool \<Rightarrow> Segment list" where
  "chunk_loop raw sz disorder curDisorder =
     (if length raw > 0 \<and> sz > 0 then
        let n = min (length raw) sz in
        \<lparr>seg_Packet = take n raw, seg_Lazy = curDisorder \<and> disorder\<rparr> #
        chunk_loop (drop n raw) sz disorder (\<not> curDisorder)
      else [])"
  by pat_completeness auto
termination
  by (relation "measure (\<lambda>(raw, s, d, c). length raw)") auto

declare chunk_loop.simps [simp del]

definition splitChunks :: "bytes \<Rightarrow> nat \<Rightarrow> bool \<Rightarrow> (split_error, Segment list) res" where
  "splitChunks raw sz disorder =
     guardR (length raw = 0) EmptyData
     (guardR (sz = 0) SizeIsZero
     (Inr (chunk_loop raw sz disorder True)))"

definition splitFirstByte :: "bytes \<Rightarrow> bool \<Rightarrow> (split_error, Segment list) res" where
  "splitFirstByte raw disorder =
     guardR (length raw < 2) LenLessThan2
     (bindR (slice raw 0 1) (\<lambda>a.
      bindR (slice raw 1 (length raw)) (\<lambda>b.
      Inr [\<lparr>seg_Packet = a, seg_Lazy = disorder\<rparr>, \<lparr>seg_Packet = b, seg_Lazy = False\<rparr>])))"

text \<open>The loop of \<open>splitSNI\<close> over \<open>range stop - start\<close>: one segment per byte from index \<open>i\<close>.\<close>

fun sni_loop :: "bytes \<Rightarrow> bool \<Rightarrow> nat \<Rightarrow> nat \<Rightarrow> bool \<Rightarrow> (split_error, Segment list \<times> bool) res" where
  "sni_loop raw disorder 0 i curDisorder = Inr ([], curDisorder)"
| "sni_loop raw disorder (Suc k) i curDisorder =
     bindR (idx raw i) (\<lambda>b.
     bindR (sni_loop raw disorder k (i + 1) (\<not> curDisorder)) (\<lambda>(segs, c).
     Inr (\<lparr>seg_Packet = [b], seg_Lazy = curDisorder \<and> disorder\<rparr> # segs, c)))"

definition splitSNI :: "bytes \<Rightarrow> int \<Rightarrow> int \<Rightarrow> bool \<Rightarrow> (split_error, Segment list) res" where
  "splitSNI raw start stop disorder =
     (let lenRaw = int (length raw) in
      guardR (lenRaw = 0) EmptyData
      (guardR (start > stop) StartAfterEnd
      (guardR (start < 0 \<or> lenRaw \<le> start \<or> stop < 0 \<or> lenRaw \<le> stop) PosOutOfRange
      (bindR (slice raw 0 (nat start)) (\<lambda>before.
       bindR (sni_loop raw disorder (nat (stop - start)) (nat start) True) (\<lambda>(segs, curDisorder).
       bindR (slice raw (nat stop) (length raw)) (\<lambda>after.
       Inr (\<lparr>seg_Packet = before, seg_Lazy = False\<rparr> # segs @
            [\<lparr>seg_Packet = after, seg_Lazy = curDisorder \<and> disorder\<rparr>]))))))))"

text \<open>The loop of \<open>splitMask\<close> with \<open>k\<close> indices left, and the trailing segment after it.\<close>

fun mask_loop ::
    "bytes \<Rightarrow> u64 \<Rightarrow> bool \<Rightarrow> nat \<Rightarrow> nat \<Rightarrow> nat \<Rightarrow> u64 \<Rightarrow> bool \<Rightarrow> (split_error, Segment list) res" where
  "mask_loop raw msk disorder 0 i start curBit curDisorder =
     (if length raw > start then
        bindR (slice raw start (length raw)) (\<lambda>s.
        Inr [\<lparr>seg_Packet = s, seg_Lazy = curDisorder \<and> disorder\<rparr>])
      else Inr [])"
| "mask_loop raw msk disorder (Suc k) i start curBit curDisorder =
     (if msk AND curBit = curBit then
        bindR (if i > start then
                 bindR (slice raw start i) (\<lambda>s.
                 Inr ([\<lparr>seg_Packet = s, seg_Lazy = curDisorder \<and> disorder\<rparr>], \<not> curDisorder))
               else Inr ([], curDisorder)) (\<lambda>(before, cur).
        bindR (slice raw i (i + 1)) (\<lambda>s.
        bindR (mask_loop raw msk disorder k (i + 1) (i + 1) (RotateLeft64 curBit 1) (\<not> cur)) (\<lambda>rest.
        Inr (before @ \<lparr>seg_Packet = s, seg_Lazy = cur \<and> disorder\<rparr> # rest))))
      else mask_loop raw msk disorder k (i + 1) start (RotateLeft64 curBit 1) curDisorder)"

definition splitMask :: "bytes \<Rightarrow> u64 \<Rightarrow> bool \<Rightarrow> (split_error, Segment list) res" where
  "splitMask raw msk disorder =
     guardR (length raw = 0) EmptyData
     (mask_loop raw msk disorder (length raw) 0 0 1 True)"

subsection \<open>Custom segment plans\<close>

record splitPoint =
  pt_at :: int
  pt_lazy :: bool

text \<open>
  The split points of the plans, in order. Go's \<open>int\<close> arithmetic wraps; \<open>rand.IntN\<close> panics on a bound
  that is not positive, which an overflow of \<open>Noise*2+1\<close> gives it.
\<close>

fun plan_points ::
    "nat \<Rightarrow> nat \<Rightarrow> (nat \<Rightarrow> int \<Rightarrow> int) \<Rightarrow> nat \<Rightarrow> SegmentPlan list \<Rightarrow> (split_error, splitPoint list) res"
where
  "plan_points sniStart lenRaw intN j [] = Inr []"
| "plan_points sniStart lenRaw intN j (s # ss) =
     (let base = (if plan_From s = SegmentFromSNI then int sniStart else 0);
          at = wrap64 (base + plan_At s);
          bound = wrap64 (wrap64 (plan_Noise s * 2) + 1) in
      bindR (if plan_Noise s > 0 then
               if bound \<le> 0 then Inl Panic
               else Inr (wrap64 (at + wrap64 (intN j bound - plan_Noise s)), j + 1)
             else Inr (at, j)) (\<lambda>(at, j).
      bindR (plan_points sniStart lenRaw intN j ss) (\<lambda>ps.
      Inr (\<lparr>pt_at = max 0 (min at (int lenRaw)), pt_lazy = plan_Lazy s\<rparr> # ps))))"

fun cut_points :: "bytes \<Rightarrow> int \<Rightarrow> splitPoint list \<Rightarrow> (split_error, Segment list) res" where
  "cut_points raw prvAt [] =
     (if prvAt < int (length raw) then
        bindR (slice raw (nat prvAt) (length raw)) (\<lambda>s.
        Inr [\<lparr>seg_Packet = s, seg_Lazy = False\<rparr>])
      else Inr [])"
| "cut_points raw prvAt (p # ps) =
     (if pt_at p = prvAt then cut_points raw prvAt ps
      else
        bindR (slice raw (nat prvAt) (nat (pt_at p))) (\<lambda>s.
        bindR (cut_points raw (pt_at p) ps) (\<lambda>segs.
        Inr (\<lparr>seg_Packet = s, seg_Lazy = pt_lazy p\<rparr> # segs))))"

definition applySegmentPlans ::
    "(splitPoint list \<Rightarrow> splitPoint list) \<Rightarrow> (nat \<Rightarrow> int \<Rightarrow> int) \<Rightarrow> TLSMessage \<Rightarrow> SegmentPlan list \<Rightarrow>
     (split_error, Segment list) res" where
  "applySegmentPlans sortFunc intN msg plans =
     (let raw = tls_raw msg in
      bindR (mapErr SNIError (ExtractSNIOffset msg)) (\<lambda>(sniStart, _).
      bindR (plan_points sniStart (length raw) intN 0 plans) (\<lambda>points.
      cut_points raw 0 (sortFunc points))))"

subsection \<open>The pattern mask\<close>

definition genPatternMask :: "u64 \<Rightarrow> u64" where
  "genPatternMask seed0 =
     (let ret = 0;
          ret = ret OR 0xA9;
          seed = seed0 XOR drop_bit 13 seed0;
          ret = ret OR push_bit 8 (ucast (RotateLeft8 0x80 (sint seed)));
          seed = seed XOR push_bit 11 seed;
          ret = ret OR push_bit 8 (ucast (RotateLeft8 0x80 (- int (unat (seed mod 7)) + 1)));
          seed = seed XOR drop_bit 17 seed;
          ret = ret OR push_bit 16 (ucast (RotateLeft8 1 (sint seed)));
          seed = seed XOR push_bit 5 seed;
          ret = ret OR push_bit 24 (ucast (RotateLeft8 1 (sint seed)));
          seed = seed XOR drop_bit 12 seed;
          ret = ret OR push_bit 32 (ucast (RotateLeft8 1 (int (unat (seed mod 2)))));
          ret = ret OR push_bit 32 (ucast (RotateLeft8 1 (int (unat (seed mod 3)) + 2)));
          ret = ret OR push_bit 32 (ucast (RotateLeft8 1 (int (unat (seed mod 3)) + 5)));
          seed = seed XOR push_bit 25 seed;
          ret = ret OR push_bit 40 (ucast (RotateLeft8 1 (sint seed)));
          seed = seed XOR drop_bit 27 seed;
          ret = ret OR push_bit 48 (ucast (RotateLeft8 1 (sint seed)));
          seed = seed XOR push_bit 13 seed;
          ret = ret OR push_bit 56 (ucast (RotateLeft8 1 (sint seed)))
      in ret)"

subsection \<open>Choosing the mode\<close>

record split_env =
  env_seed :: u64
  env_intN :: "nat \<Rightarrow> int \<Rightarrow> int"
  env_sort :: "splitPoint list \<Rightarrow> splitPoint list"

text \<open>
  \<open>split\<close> handles every error by sending the message whole. In SNI mode the trace message slices the
  server name out of the message after the segments are made, whatever \<open>splitSNI\<close> returned.
\<close>

definition split_attempt ::
    "split_env \<Rightarrow> TLSMessage \<Rightarrow> HTTPSOptions \<Rightarrow> (split_error, Segment list) res" where
  "split_attempt env msg opts =
     (let raw = tls_raw msg in
      case https_SplitMode opts of
        HTTPSSplitModeSNI \<Rightarrow>
          bindR (mapErr SNIError (ExtractSNIOffset msg)) (\<lambda>(start, stop).
          case splitSNI raw (int start) (int stop) (https_Disorder opts) of
            Inl Panic \<Rightarrow> Inl Panic
          | r \<Rightarrow> bindR (slice raw start stop) (\<lambda>_. r))
      | HTTPSSplitModeRandom \<Rightarrow> splitMask raw (genPatternMask (env_seed env)) (https_Disorder opts)
      | HTTPSSplitModeChunk \<Rightarrow> splitChunks raw (unat (https_ChunkSize opts)) (https_Disorder opts)
      | HTTPSSplitModeFirstByte \<Rightarrow> splitFirstByte raw (https_Disorder opts)
      | HTTPSSplitModeCustom \<Rightarrow>
          applySegmentPlans (env_sort env) (env_intN env) msg (https_CustomSegmentPlans opts)
      | HTTPSSplitModeNone \<Rightarrow> Inr [\<lparr>seg_Packet = raw, seg_Lazy = False\<rparr>])"

definition split_msg ::
    "split_env \<Rightarrow> TLSMessage \<Rightarrow> HTTPSOptions \<Rightarrow> ('e, Segment list) res" where
  "split_msg env msg opts =
     (case split_attempt env msg opts of
        Inl Panic \<Rightarrow> Inl Panic
      | Inl (Err _) \<Rightarrow> Inr [\<lparr>seg_Packet = tls_raw msg, seg_Lazy = False\<rparr>]
      | Inr segs \<Rightarrow> Inr segs)"

subsection \<open>Sending\<close>

text \<open>
  The connection as the code drives it: the TTL of the socket, what was written (each write with the
  TTL in force), and how many \<open>SetTTL\<close> and \<open>Write\<close> calls were made. \<open>setFails j\<close> says whether the \<open>j\<close>-th
  \<open>SetTTL\<close> returns an error (the TTL is then unchanged); \<open>wr j b\<close> is the count and error of the \<open>j\<close>-th
  \<open>Write(b)\<close>.
\<close>

record wire =
  wr_ttl :: u8
  wr_out :: "(u8 \<times> bytes) list"
  wr_sets :: nat
  wr_writes :: nat

definition getDefaultTTL :: u8 where "getDefaultTTL = 64"

definition setTTLWrap :: "(nat \<Rightarrow> bool) \<Rightarrow> u8 \<Rightarrow> bool \<times> wire \<Rightarrow> bool \<times> wire" where
  "setTTLWrap setFails ttl st =
     (case st of (ttlErrored, w) \<Rightarrow>
        if setFails (wr_sets w) then (True, w\<lparr>wr_sets := wr_sets w + 1\<rparr>)
        else (ttlErrored, w\<lparr>wr_ttl := ttl, wr_sets := wr_sets w + 1\<rparr>))"

definition conn_Write :: "(nat \<Rightarrow> bytes \<Rightarrow> nat \<times> 'e option) \<Rightarrow> bytes \<Rightarrow> wire \<Rightarrow> (nat \<times> 'e option) \<times> wire" where
  "conn_Write wr b w =
     (let (n, err) = wr (wr_writes w) b in
      ((n, err), w\<lparr>wr_out := wr_out w @ [(wr_ttl w, take n b)], wr_writes := wr_writes w + 1\<rparr>))"

fun send_loop ::
    "(nat \<Rightarrow> bool) \<Rightarrow> (nat \<Rightarrow> bytes \<Rightarrow> nat \<times> 'e option) \<Rightarrow> Segment list \<Rightarrow> nat \<Rightarrow> bool \<times> wire \<Rightarrow>
     (nat \<times> 'e option) \<times> wire" where
  "send_loop setFails wr [] tot st = ((tot, None), snd st)"
| "send_loop setFails wr (chunk # segs) tot st =
     (let st = (if \<not> fst st \<and> seg_Lazy chunk then setTTLWrap setFails 1 st else st);
          ((n, err), w) = conn_Write wr (seg_Packet chunk) (snd st);
          tot = tot + n in
      case err of
        Some e \<Rightarrow> ((tot, Some e), w)
      | None \<Rightarrow>
          let st = (fst st, w);
              st = (if \<not> fst st \<and> seg_Lazy chunk then setTTLWrap setFails getDefaultTTL st else st) in
          send_loop setFails wr segs tot st)"

definition sendSegments ::
    "(nat \<Rightarrow> bool) \<Rightarrow> (nat \<Rightarrow> bytes \<Rightarrow> nat \<times> 'e option) \<Rightarrow> Segment list \<Rightarrow> wire \<Rightarrow> (nat \<times> 'e option) \<times> wire" where
  "sendSegments setFails wr segs w = send_loop setFails wr segs 0 (False, w)"

subsection \<open>Fake packets\<close>

text \<open>
  \<open>WriteCraftedPacket\<close> is \<open>craft j ttl payload\<close> for its \<open>j\<close>-th call; \<open>inj\<close> records the calls made. The two
  nested loops of \<open>sendFakePackets\<close> stop at the first error.
\<close>

fun craft_pass ::
    "(nat \<Rightarrow> u8 \<Rightarrow> bytes \<Rightarrow> nat \<times> 'e option) \<Rightarrow> u8 \<Rightarrow> bytes list \<Rightarrow> nat \<Rightarrow> (u8 \<times> bytes) list \<Rightarrow>
     (nat \<times> 'e option) \<times> (u8 \<times> bytes) list" where
  "craft_pass craft ttl [] totalSent injd = ((totalSent, None), injd)"
| "craft_pass craft ttl (v # vs) totalSent injd =
     (case craft (length injd) ttl v of
        (n, Some e) \<Rightarrow> ((totalSent, Some e), injd @ [(ttl, v)])
      | (n, None) \<Rightarrow> craft_pass craft ttl vs (totalSent + n) (injd @ [(ttl, v)]))"

fun craft_repeat ::
    "(nat \<Rightarrow> u8 \<Rightarrow> bytes \<Rightarrow> nat \<times> 'e option) \<Rightarrow> u8 \<Rightarrow> bytes list \<Rightarrow> nat \<Rightarrow> nat \<Rightarrow> (u8 \<times> bytes) list \<Rightarrow>
     (nat \<times> 'e option) \<times> (u8 \<times> bytes) list" where
  "craft_repeat craft ttl vs 0 totalSent injd = ((totalSent, None), injd)"
| "craft_repeat craft ttl vs (Suc k) totalSent injd =
     (case craft_pass craft ttl vs totalSent injd of
        ((n, Some e), injd) \<Rightarrow> ((n, Some e), injd)
      | ((n, None), injd) \<Rightarrow> craft_repeat craft ttl vs k n injd)"

text \<open>A nil \<open>FakePacket\<close> is a nil pointer dereference in \<open>split\<close>.\<close>

definition sendFakePackets ::
    "(nat \<Rightarrow> u8 \<Rightarrow> bytes \<Rightarrow> nat \<times> 'e option) \<Rightarrow> split_env \<Rightarrow> u8 \<Rightarrow> HTTPSOptions \<Rightarrow>
     ('e, (nat \<times> 'e option) \<times> (u8 \<times> bytes) list) res" where
  "sendFakePackets craft env oTTL opts =
     (case https_FakePacket opts of
        None \<Rightarrow> Inl Panic
      | Some fake \<Rightarrow>
          bindR (split_msg env fake opts) (\<lambda>segments.
          Inr (craft_repeat craft oTTL (map seg_Packet segments) (unat (https_FakeCount opts)) 0 [])))"

subsection \<open>The TLS desyncer\<close>

text \<open>
  The desyncer's sniffer is its \<open>GetOptimalTTL\<close> and its writer the crafted-packet call; each may be
  nil. \<open>remote\<close> is the peer's IP, \<open>None\<close> where the address is not a \<open>*net.TCPAddr\<close> (the type assertion
  panics). The two splits use their own randomness. The result is the count and error of the send,
  the injected fake packets and the connection.
\<close>

record 'e desyncer =
  d_sniffer :: "(IPKey \<Rightarrow> u8) option"
  d_writer :: "(nat \<Rightarrow> u8 \<Rightarrow> bytes \<Rightarrow> nat \<times> 'e option) option"

definition TLS_Desync ::
    "'e desyncer \<Rightarrow> split_env \<Rightarrow> split_env \<Rightarrow> (nat \<Rightarrow> bool) \<Rightarrow> (nat \<Rightarrow> bytes \<Rightarrow> nat \<times> 'e option) \<Rightarrow>
     IP option \<Rightarrow> TLSMessage \<Rightarrow> HTTPSOptions \<Rightarrow> wire \<Rightarrow>
     ('e, (nat \<times> 'e option) \<times> (u8 \<times> bytes) list \<times> wire) res" where
  "TLS_Desync d fakeEnv env setFails wr remote msg opts w =
     (if https_Skip opts then
        let (r, w) = sendSegments setFails wr [\<lparr>seg_Packet = tls_raw msg, seg_Lazy = False\<rparr>] w in
        Inr (r, [], w)
      else
        bindR (case (d_sniffer d, d_writer d) of
                 (Some getOptimalTTL, Some craft) \<Rightarrow>
                   if https_FakeCount opts > 0 then
                     (case remote of
                        None \<Rightarrow> Inl Panic
                      | Some ip \<Rightarrow>
                          bindR (sendFakePackets craft fakeEnv (getOptimalTTL (NewIPKey ip)) opts) (\<lambda>r.
                          Inr (snd r)))
                   else Inr []
               | _ \<Rightarrow> Inr []) (\<lambda>fakes.
        bindR (split_msg env msg opts) (\<lambda>segments.
        let (r, w) = sendSegments setFails wr segments w in
        Inr (r, fakes, w))))"

text \<open>\<open>PrepareHopTrack\<close>: whether the addresses are handed to the sniffer's \<open>Register\<close>.\<close>

definition TLS_PrepareHopTrack ::
    "('s \<Rightarrow> IP list \<Rightarrow> 's) \<Rightarrow> 's option \<Rightarrow> IP list \<Rightarrow> HTTPSOptions \<Rightarrow> 's option" where
  "TLS_PrepareHopTrack register sniffer addrs cfg =
     (case sniffer of
        None \<Rightarrow> None
      | Some s \<Rightarrow> if https_Skip cfg \<or> https_FakeCount cfg = 0 then Some s else Some (register s addrs))"

subsection \<open>The UDP desyncer\<close>

text \<open>A failed fake packet is logged and skipped (\<open>continue\<close>); the loop always runs its full count.\<close>

fun udp_fakes ::
    "(nat \<Rightarrow> u8 \<Rightarrow> bytes \<Rightarrow> nat \<times> 'e option) \<Rightarrow> u8 \<Rightarrow> bytes \<Rightarrow> nat \<Rightarrow> nat \<Rightarrow> (u8 \<times> bytes) list \<Rightarrow>
     nat \<times> (u8 \<times> bytes) list" where
  "udp_fakes craft ttl pkt 0 totalSent injd = (totalSent, injd)"
| "udp_fakes craft ttl pkt (Suc k) totalSent injd =
     (case craft (length injd) ttl pkt of
        (n, Some e) \<Rightarrow> udp_fakes craft ttl pkt k totalSent (injd @ [(ttl, pkt)])
      | (n, None) \<Rightarrow> udp_fakes craft ttl pkt k (totalSent + n) (injd @ [(ttl, pkt)]))"

definition UDP_Desync ::
    "'e desyncer \<Rightarrow> IP option \<Rightarrow> UDPOptions \<Rightarrow> ('e, nat \<times> (u8 \<times> bytes) list) res" where
  "UDP_Desync d remote opts =
     (if udp_FakeCount opts = 0 then Inr (0, [])
      else case (d_sniffer d, d_writer d) of
        (Some getOptimalTTL, Some craft) \<Rightarrow>
          (case remote of
             None \<Rightarrow> Inl Panic
           | Some ip \<Rightarrow>
               Inr (udp_fakes craft (getOptimalTTL (NewIPKey ip)) (udp_FakePacket opts)
                      (unat (udp_FakeCount opts)) 0 []))
      | _ \<Rightarrow> Inr (0, []))"

definition UDP_PrepareHopTrack ::
    "('s \<Rightarrow> IP list \<Rightarrow> 's) \<Rightarrow> 's option \<Rightarrow> IP list \<Rightarrow> UDPOptions \<Rightarrow> 's option" where
  "UDP_PrepareHopTrack register sniffer addrs cfg =
     (case sniffer of
        None \<Rightarrow> None
      | Some s \<Rightarrow> if udp_FakeCount cfg = 0 then Some s else Some (register s addrs))"

subsection \<open>What the segments carry\<close>

definition payload :: "Segment list \<Rightarrow> bytes" where
  "payload segs = concat (map seg_Packet segs)"

text \<open>The \<open>curDisorder\<close> flip: every second segment is lazy, starting with the first.\<close>

fun alternating :: "bool \<Rightarrow> bool \<Rightarrow> nat \<Rightarrow> bool list" where
  "alternating c d 0 = []"
| "alternating c d (Suc n) = (c \<and> d) # alternating (\<not> c) d n"

lemma payload_simps [simp]:
  "payload [] = []"
  "payload (s # segs) = seg_Packet s @ payload segs"
  "payload (xs @ ys) = payload xs @ payload ys"
  by (simp_all add: payload_def)

lemma length_alternating [simp]: "length (alternating c d n) = n"
  by (induction n arbitrary: c) auto

lemma nth_alternating: "j < n \<Longrightarrow> alternating c d n ! j \<longleftrightarrow> d \<and> (even j \<longleftrightarrow> c)"
proof (induction n arbitrary: c j)
  case (Suc n)
  then show ?case by (cases j) auto
qed simp

lemma alternating_append:
  "alternating c d (m + n) = alternating c d m @ alternating (if even m then c else \<not> c) d n"
  by (induction m arbitrary: c) auto

lemma chunk_loop_step:
  "0 < length raw \<Longrightarrow> 0 < sz \<Longrightarrow> chunk_loop raw sz d c =
     \<lparr>seg_Packet = take sz raw, seg_Lazy = c \<and> d\<rparr> # chunk_loop (drop sz raw) sz d (\<not> c)"
  by (subst chunk_loop.simps) (auto simp: Let_def min_def)

lemma chunk_loop_Nil [simp]: "chunk_loop [] sz d c = []"
  by (simp add: chunk_loop.simps)

lemma chunk_loop_induct [consumes 1, case_names Nil Step]:
  assumes "0 < sz" and "\<And>c. P [] c"
    and "\<And>raw c. raw \<noteq> [] \<Longrightarrow> P (drop sz raw) (\<not> c) \<Longrightarrow> P raw c"
  shows "P (raw :: bytes) (c :: bool)"
proof (induction "length raw" arbitrary: raw c rule: less_induct)
  case less
  with assms show ?case by (cases "raw = []") auto
qed

lemma ceil_div_step:
  assumes "0 < n" and "0 < (sz :: nat)"
  shows "(n + sz - 1) div sz = Suc ((n - sz + sz - 1) div sz)"
proof -
  have "n + sz - 1 = sz + (n - 1)" using assms by simp
  also have "\<dots> div sz = Suc ((n - 1) div sz)" using assms by (simp only: div_add_self1)
  also have "(n - 1) div sz = (n - sz + sz - 1) div sz"
    using assms by (cases "sz \<le> n") auto
  finally show ?thesis .
qed

lemma chunk_loop_payload:
  assumes sz: "0 < sz"
  shows "payload (chunk_loop raw sz d c) = raw"
  using sz by (induction raw c rule: chunk_loop_induct) (auto simp: chunk_loop_step sz)

lemma chunk_loop_lazy:
  assumes sz: "0 < sz"
  shows "map seg_Lazy (chunk_loop raw sz d c) = alternating c d (length (chunk_loop raw sz d c))"
  using sz by (induction raw c rule: chunk_loop_induct) (auto simp: chunk_loop_step sz)

lemma chunk_loop_length:
  assumes sz: "0 < sz"
  shows "length (chunk_loop raw sz d c) = (length raw + sz - 1) div sz"
  using sz
proof (induction raw c rule: chunk_loop_induct)
  case (Step raw c)
  then show ?case
    using ceil_div_step [of "length raw" sz] sz by (simp add: chunk_loop_step)
qed (use sz in auto)

lemma chunk_loop_sizes:
  assumes sz: "0 < sz"
  shows "\<forall>s \<in> set (chunk_loop raw sz d c). 0 < length (seg_Packet s) \<and> length (seg_Packet s) \<le> sz"
  using sz by (induction raw c rule: chunk_loop_induct) (auto simp: chunk_loop_step sz)

lemma chunk_loop_full:
  assumes sz: "0 < sz"
  shows "\<forall>s \<in> set (butlast (chunk_loop raw sz d c)). length (seg_Packet s) = sz"
  using sz
proof (induction raw c rule: chunk_loop_induct)
  case (Step raw c)
  have "sz < length raw" if "chunk_loop (drop sz raw) sz d (\<not> c) \<noteq> []"
    using that by (cases "sz < length raw") auto
  with Step sz show ?case
    by (cases "chunk_loop (drop sz raw) sz d (\<not> c) = []") (simp_all add: chunk_loop_step)
qed simp

text \<open>The loop of \<open>splitSNI\<close>: one byte per segment, no panic inside the bounds.\<close>

lemma sni_loop_spec:
  assumes "i + k \<le> length raw"
  shows "sni_loop raw d k i c =
    Inr (map2 (\<lambda>b l. \<lparr>seg_Packet = [b], seg_Lazy = l\<rparr>) (take k (drop i raw)) (alternating c d k),
         if even k then c else \<not> c)"
  using assms
proof (induction k arbitrary: i c)
  case (Suc k)
  then have "drop i raw = raw ! i # drop (i + 1) raw"
    by (simp add: Cons_nth_drop_Suc)
  with Suc show ?case by simp
qed simp

lemma map2_packets:
  "length xs = length ls \<Longrightarrow>
     payload (map2 (\<lambda>b l. \<lparr>seg_Packet = [b], seg_Lazy = l\<rparr>) xs ls) = xs"
  by (induction xs ls rule: list_induct2) auto

lemma splitSNI_ok:
  assumes "0 \<le> start" and "start \<le> stop" and "stop < int (length raw)"
  defines "name \<equiv> take (nat (stop - start)) (drop (nat start) raw)"
  shows "splitSNI raw start stop d =
    Inr (\<lparr>seg_Packet = take (nat start) raw, seg_Lazy = False\<rparr> #
         map2 (\<lambda>b l. \<lparr>seg_Packet = [b], seg_Lazy = l\<rparr>) name (alternating True d (length name)) @
         [\<lparr>seg_Packet = drop (nat stop) raw, seg_Lazy = d \<and> even (length name)\<rparr>])"
proof -
  have len: "length name = nat (stop - start)"
    using assms by (simp add: name_def)
  have "nat start + nat (stop - start) \<le> length raw" "raw \<noteq> []"
    using assms by auto
  then show ?thesis
    unfolding len using assms sni_loop_spec [of "nat start" "nat (stop - start)" raw d True]
    by (simp add: splitSNI_def Let_def guardR_def name_def)
qed

subsection \<open>The mask split against a reference\<close>

text \<open>
  The reference: walk the bytes; a selected byte is a packet of its own, the bytes between two
  selected ones form one packet.
\<close>

fun mask_groups :: "(nat \<Rightarrow> bool) \<Rightarrow> nat \<Rightarrow> bytes \<Rightarrow> bytes \<Rightarrow> bytes list" where
  "mask_groups f i run [] = (if run = [] then [] else [run])"
| "mask_groups f i run (b # bs) =
     (if f i then (if run = [] then [] else [run]) @ [b] # mask_groups f (i + 1) [] bs
      else mask_groups f (i + 1) (run @ [b]) bs)"

definition mask_bit :: "u64 \<Rightarrow> nat \<Rightarrow> bool" where
  "mask_bit msk i \<longleftrightarrow> bit msk (i mod 64)"

lemma concat_mask_groups: "concat (mask_groups f i run bs) = run @ bs"
  by (induction f i run bs rule: mask_groups.induct) auto

lemma RotateLeft64_bit:
  assumes "j < 64"
  shows "RotateLeft64 (push_bit j 1) 1 = push_bit ((j + 1) mod 64) 1"
proof (cases "j = 63")
  case True
  then show ?thesis by (simp add: RotateLeft64_def)
next
  case False
  with assms have "drop_bit 63 (push_bit j 1 :: u64) = 0"
    by (intro bit_word_eqI) (auto simp: bit_simps)
  with False assms show ?thesis
    by (simp add: RotateLeft64_def)
qed

lemma and_push_bit_eq_iff:
  assumes "j < 64"
  shows "msk AND push_bit j 1 = (push_bit j 1 :: u64) \<longleftrightarrow> bit msk j"
proof
  assume "msk AND push_bit j 1 = (push_bit j 1 :: u64)"
  then have "bit (msk AND push_bit j 1) j \<longleftrightarrow> bit (push_bit j 1 :: u64) j" by simp
  with assms show "bit msk j" by (simp add: bit_simps)
next
  assume "bit msk j"
  then show "msk AND push_bit j 1 = (push_bit j 1 :: u64)"
    by (intro bit_word_eqI) (auto simp: bit_simps)
qed

lemma take_Suc_run:
  "start \<le> i \<Longrightarrow> i < length raw \<Longrightarrow>
     take (Suc i - start) (drop start raw) = take (i - start) (drop start raw) @ [raw ! i]"
  by (simp add: Suc_diff_le take_Suc_conv_app_nth)

lemma mask_loop_spec:
  assumes "start \<le> i" and "i + k = length raw"
  shows "\<exists>segs. mask_loop raw msk d k i start (push_bit (i mod 64) 1) c = Inr segs \<and>
    map seg_Packet segs = mask_groups (mask_bit msk) i (take (i - start) (drop start raw)) (drop i raw) \<and>
    map seg_Lazy segs = alternating c d (length segs)"
  using assms
proof (induction k arbitrary: i start c)
  case 0
  then show ?case by (auto simp: Let_def)
next
  case (Suc k)
  have i: "i < length raw" and d: "drop i raw = raw ! i # drop (Suc i) raw"
    using Suc.prems by (auto simp: Cons_nth_drop_Suc)
  have bit: "msk AND push_bit (i mod 64) 1 = (push_bit (i mod 64) 1 :: u64) \<longleftrightarrow> mask_bit msk i"
    unfolding mask_bit_def by (rule and_push_bit_eq_iff) simp
  have rot: "RotateLeft64 (push_bit (i mod 64) 1) 1 = push_bit (Suc i mod 64) 1"
    using RotateLeft64_bit [of "i mod 64"] by (simp add: mod_Suc_eq)
  show ?case
  proof (cases "mask_bit msk i")
    case True
    define c' where "c' = (if i > start then \<not> c else c)"
    have prem: "Suc i \<le> Suc i" "Suc i + k = length raw" using Suc.prems by auto
    obtain segs where "mask_loop raw msk d k (Suc i) (Suc i) (push_bit (Suc i mod 64) 1) (\<not> c') = Inr segs"
      "map seg_Packet segs = mask_groups (mask_bit msk) (Suc i) [] (drop (Suc i) raw)"
      "map seg_Lazy segs = alternating (\<not> c') d (length segs)"
      using Suc.IH [OF prem, of "\<not> c'"] by auto
    then show ?thesis
      using True i d bit rot Suc.prems
      by (cases "i > start") (auto simp: c'_def take_Suc)
  next
    case False
    have prem: "start \<le> Suc i" "Suc i + k = length raw" using Suc.prems by auto
    from Suc.IH [OF prem, of c] show ?thesis
      using False i d bit rot Suc.prems take_Suc_run [of start i raw] by simp
  qed
qed

subsection \<open>Custom plans\<close>

text \<open>What \<open>slices.SortFunc\<close> documents: the same elements, in ascending order of the key.\<close>

definition sorts_points :: "(splitPoint list \<Rightarrow> splitPoint list) \<Rightarrow> bool" where
  "sorts_points f \<longleftrightarrow> (\<forall>ps. mset (f ps) = mset ps \<and> sorted (map pt_at (f ps)))"

lemma sorts_pointsD:
  "sorts_points f \<Longrightarrow> set (f ps) = set ps"
  "sorts_points f \<Longrightarrow> sorted (map pt_at (f ps))"
  by (auto simp: sorts_points_def dest: mset_eq_setD)

lemma sorts_points_sort_key: "sorts_points (sort_key pt_at)"
  by (simp add: sorts_points_def)

lemma plan_points_ok:
  assumes "\<forall>s \<in> set plans. plan_Noise s < 2 ^ 62"
  shows "\<exists>ps. plan_points sni n intN j plans = Inr ps \<and> map pt_lazy ps = map plan_Lazy plans \<and>
    (\<forall>p \<in> set ps. 0 \<le> pt_at p \<and> pt_at p \<le> int n)"
  using assms
proof (induction plans arbitrary: j)
  case (Cons s ss)
  have "0 < wrap64 (wrap64 (plan_Noise s * 2) + 1)" if "0 < plan_Noise s"
    using that Cons.prems by (simp add: wrap64_id)
  moreover have "\<exists>ps. plan_points sni n intN j' ss = Inr ps \<and> map pt_lazy ps = map plan_Lazy ss \<and>
    (\<forall>p \<in> set ps. 0 \<le> pt_at p \<and> pt_at p \<le> int n)" for j'
    using Cons by simp
  from this [of "if plan_Noise s > 0 then j + 1 else j"] obtain ps where
    "plan_points sni n intN (if plan_Noise s > 0 then j + 1 else j) ss = Inr ps"
    "map pt_lazy ps = map plan_Lazy ss" "\<forall>p \<in> set ps. 0 \<le> pt_at p \<and> pt_at p \<le> int n"
    by blast
  ultimately show ?case
    by (cases "0 < plan_Noise s") (auto simp: Let_def)
qed simp

lemma cut_points_ok:
  assumes "0 \<le> prv" and "prv \<le> int (length raw)"
    and "sorted (map pt_at ps)" and "\<forall>p \<in> set ps. prv \<le> pt_at p \<and> pt_at p \<le> int (length raw)"
  shows "\<exists>segs. cut_points raw prv ps = Inr segs \<and> payload segs = drop (nat prv) raw \<and>
    (\<forall>s \<in> set segs. seg_Packet s \<noteq> [])"
  using assms
proof (induction ps arbitrary: prv)
  case Nil
  then show ?case by auto
next
  case (Cons p ps)
  show ?case
  proof (cases "pt_at p = prv")
    case True
    with Cons show ?thesis by simp
  next
    case False
    from Cons.prems False have p: "prv < pt_at p" "pt_at p \<le> int (length raw)" by auto
    obtain segs where segs: "cut_points raw (pt_at p) ps = Inr segs"
      "payload segs = drop (nat (pt_at p)) raw" "\<forall>s \<in> set segs. seg_Packet s \<noteq> []"
      using Cons.IH [of "pt_at p"] Cons.prems p by auto
    have "take (nat (pt_at p) - nat prv) (drop (nat prv) raw) @ drop (nat (pt_at p)) raw =
        drop (nat prv) raw"
      using p Cons.prems
      by (metis append_take_drop_id drop_drop le_add_diff_inverse2 less_imp_le nat_mono)
    with segs p Cons.prems False show ?thesis by auto
  qed
qed

lemma applySegmentPlans_ok:
  assumes "sorts_points f" and "\<forall>s \<in> set plans. plan_Noise s < 2 ^ 62"
  shows "(\<exists>e. applySegmentPlans f intN msg plans = Inl (Err (SNIError e))) \<or>
    (\<exists>segs. applySegmentPlans f intN msg plans = Inr segs \<and> payload segs = tls_raw msg)"
proof (cases "ExtractSNIOffset msg")
  case (Inl e)
  then have "e \<noteq> Panic"
    using ExtractSNIOffset_within [of msg] by simp
  with Inl show ?thesis by (cases e) (auto simp: applySegmentPlans_def Let_def)
next
  case (Inr off)
  obtain sni stop where off: "off = (sni, stop)" by (cases off)
  obtain ps where ps: "plan_points sni (length (tls_raw msg)) intN 0 plans = Inr ps"
    "\<forall>p \<in> set ps. 0 \<le> pt_at p \<and> pt_at p \<le> int (length (tls_raw msg))"
    using plan_points_ok [OF assms(2)] by meson
  obtain segs where "cut_points (tls_raw msg) 0 (f ps) = Inr segs" "payload segs = tls_raw msg"
    using cut_points_ok [of 0 "tls_raw msg" "f ps"] sorts_pointsD [OF assms(1), of ps] ps by auto
  with Inr off ps show ?thesis
    by (auto simp: applySegmentPlans_def Let_def)
qed

subsection \<open>Every mode sends exactly the message\<close>

lemma split_attempt_ok:
  assumes "sorts_points (env_sort env)"
    and "\<forall>s \<in> set (https_CustomSegmentPlans opts). plan_Noise s < 2 ^ 62"
  shows "(\<exists>e. split_attempt env msg opts = Inl (Err e)) \<or>
    (\<exists>segs. split_attempt env msg opts = Inr segs \<and> payload segs = tls_raw msg)"
proof (cases "https_SplitMode opts")
  case HTTPSSplitModeSNI
  show ?thesis
  proof (cases "ExtractSNIOffset msg")
    case (Inl e)
    then have "e \<noteq> Panic"
      using ExtractSNIOffset_within [of msg] by simp
    with Inl HTTPSSplitModeSNI show ?thesis by (cases e) (auto simp: split_attempt_def Let_def Let_def)
  next
    case (Inr off)
    obtain a b where off: "off = (a, b)" by (cases off)
    have ab: "a \<le> b" "b \<le> length (tls_raw msg)"
      using ExtractSNIOffset_within [of msg] Inr off by auto
    show ?thesis
    proof (cases "b < length (tls_raw msg)")
      case True
      have "nat (int b - int a) = b - a"
        using ab by simp
      with True ab HTTPSSplitModeSNI Inr off show ?thesis
        by (simp add: split_attempt_def Let_def splitSNI_ok map2_packets slice_cover)
    next
      case False
      with ab HTTPSSplitModeSNI Inr off show ?thesis
        by (auto simp: split_attempt_def Let_def splitSNI_def Let_def guardR_def)
    qed
  qed
next
  case HTTPSSplitModeRandom
  let ?msk = "genPatternMask (env_seed env)" and ?raw = "tls_raw msg" and ?d = "https_Disorder opts"
  obtain segs where "mask_loop ?raw ?msk ?d (length ?raw) 0 0 1 True = Inr segs"
    "map seg_Packet segs = mask_groups (mask_bit ?msk) 0 [] ?raw"
    using mask_loop_spec [of 0 0 "length ?raw" ?raw ?msk ?d True] by auto
  with HTTPSSplitModeRandom show ?thesis
    by (auto simp: split_attempt_def Let_def splitMask_def guardR_def payload_def concat_mask_groups)
next
  case HTTPSSplitModeChunk
  then show ?thesis
    by (auto simp: split_attempt_def Let_def splitChunks_def guardR_def chunk_loop_payload unat_gt_0)
next
  case HTTPSSplitModeFirstByte
  then show ?thesis
    by (auto simp: split_attempt_def Let_def splitFirstByte_def guardR_def)
next
  case HTTPSSplitModeCustom
  then show ?thesis
    using applySegmentPlans_ok [OF assms, of "env_intN env" msg] by (auto simp: split_attempt_def)
next
  case HTTPSSplitModeNone
  then show ?thesis by (simp add: split_attempt_def)
qed

text \<open>
  C4: in every split mode, for every message, every random choice and any noise below \<open>2 ^ 62\<close>,
  \<open>split\<close> returns segments (it never panics and never fails) whose packets put together are exactly
  the bytes of the message, in order: nothing is lost, repeated or reordered by the splitting.
\<close>

theorem split_msg_preserves:
  assumes "sorts_points (env_sort env)"
    and "\<forall>s \<in> set (https_CustomSegmentPlans opts). plan_Noise s < 2 ^ 62"
  shows "\<exists>segs. split_msg env msg opts = Inr segs \<and> payload segs = tls_raw msg"
  using split_attempt_ok [OF assms, of msg] by (auto simp: split_msg_def)

theorem split_msg_preserves_witness:
  "let env = \<lparr>env_seed = 7, env_intN = (\<lambda>_ _. 0), env_sort = sort_key pt_at\<rparr>;
       opts = \<lparr>https_Disorder = True, https_FakeCount = 0, https_FakePacket = None,
               https_SplitMode = HTTPSSplitModeCustom, https_ChunkSize = 2, https_Skip = False,
               https_CustomSegmentPlans =
                 [\<lparr>plan_From = SegmentFromSNI, plan_At = 1, plan_Lazy = True, plan_Noise = 3\<rparr>]\<rparr>
   in \<exists>segs. split_msg env (NewFakeTLSMessage [1, 2, 3]) opts = Inr segs \<and> payload segs = [1, 2, 3]"
  unfolding Let_def
  by (rule split_msg_preserves [where msg = "NewFakeTLSMessage [1, 2, 3]",
        unfolded NewFakeTLSMessage_def, simplified, folded NewFakeTLSMessage_def])
    (simp_all add: sorts_points_sort_key)

text \<open>
  \<open>splitChunks\<close> on a nonempty message and a positive size returns exactly
  \<open>\<lceil>length / size\<rceil>\<close> chunks that put together are the message; every chunk but the last has exactly
  the requested size, the last is not empty, and with disorder on every second chunk, from the
  first, is lazy.
\<close>

lemma splitChunks_correct:
  assumes "raw \<noteq> []" and "0 < sz"
  shows "\<exists>segs. splitChunks raw sz d = Inr segs \<and> payload segs = raw \<and>
    length segs = (length raw + sz - 1) div sz \<and>
    (\<forall>s \<in> set (butlast segs). length (seg_Packet s) = sz) \<and>
    (\<forall>s \<in> set segs. 0 < length (seg_Packet s) \<and> length (seg_Packet s) \<le> sz) \<and>
    map seg_Lazy segs = alternating True d (length segs)"
  using assms chunk_loop_payload chunk_loop_length chunk_loop_full chunk_loop_sizes chunk_loop_lazy
  by (intro exI [of _ "chunk_loop raw sz d True"]) (simp add: splitChunks_def)

lemma splitChunks_correct_witness:
  "\<exists>segs. splitChunks [1, 2, 3, 4, 5] 2 True = Inr segs \<and> payload segs = [1, 2, 3, 4, 5] \<and>
    length segs = (length [1, 2, 3, 4, 5 :: byte] + 2 - 1) div 2 \<and>
    (\<forall>s \<in> set (butlast segs). length (seg_Packet s) = 2) \<and>
    (\<forall>s \<in> set segs. 0 < length (seg_Packet s) \<and> length (seg_Packet s) \<le> 2) \<and>
    map seg_Lazy segs = alternating True True (length segs)"
  by (rule splitChunks_correct) simp_all

text \<open>
  C21: the mask split equals its reference: byte \<open>i\<close> travels alone exactly when bit \<open>i mod 64\<close> of the
  mask is set, the bytes between two such positions travel together, and lazy segments alternate.
\<close>

theorem splitMask_equiv:
  assumes "raw \<noteq> []"
  shows "\<exists>segs. splitMask raw msk d = Inr segs \<and>
    map seg_Packet segs = mask_groups (mask_bit msk) 0 [] raw \<and>
    map seg_Lazy segs = alternating True d (length segs)"
  using mask_loop_spec [of 0 0 "length raw" raw msk d True] assms
  by (simp add: splitMask_def)

theorem splitMask_equiv_witness:
  "\<exists>segs. splitMask [1, 2, 3, 4, 5, 6] 0x12 True = Inr segs \<and>
    map seg_Packet segs = [[1], [2], [3, 4], [5], [6 :: byte]] \<and>
    map seg_Lazy segs = alternating True True (length segs)"
proof -
  have "mask_groups (mask_bit 0x12) 0 [] [1, 2, 3, 4, 5, 6 :: byte] = [[1], [2], [3, 4], [5], [6]]"
    by (simp add: mask_bit_def)
  with splitMask_equiv [of "[1, 2, 3, 4, 5, 6]" "0x12" True] show ?thesis by simp
qed

subsection \<open>The pattern mask has a bit in every byte\<close>

lemma nonzero_has_bit: "(x :: byte) \<noteq> 0 \<Longrightarrow> \<exists>n < 8. bit x n"
proof (rule ccontr)
  assume "x \<noteq> 0" and "\<not> (\<exists>n < 8. bit x n)"
  then have "x = 0" by (intro bit_word_eqI) simp
  with \<open>x \<noteq> 0\<close> show False by simp
qed

lemma RotateLeft8_nonzero:
  assumes "x \<noteq> 0"
  shows "RotateLeft8 x k \<noteq> 0"
proof -
  define s where "s = nat (k mod 8)"
  have s: "s < 8" by (simp add: s_def)
  obtain n where n: "n < 8" "bit x n"
    using nonzero_has_bit [OF assms] by blast
  have R: "RotateLeft8 x k = push_bit s x OR drop_bit (8 - s) x"
    by (simp add: RotateLeft8_def s_def Let_def)
  have "bit (RotateLeft8 x k) (if n + s < 8 then n + s else n + s - 8)"
    using n s by (simp add: R bit_simps)
  then show ?thesis by auto
qed

lemma byte_nonzero_bits:
  fixes y :: byte
  assumes "y \<noteq> 0" and "j < 8"
  shows "\<exists>n. 8 * j \<le> n \<and> n < 8 * j + 8 \<and> bit (push_bit (8 * j) (ucast y) :: u64) n"
proof -
  obtain n where n: "n < 8" "bit y n"
    using nonzero_has_bit [OF assms(1)] by blast
  then have "bit (push_bit (8 * j) (ucast y) :: u64) (8 * j + n)"
    using assms(2) by (simp add: bit_simps)
  then show ?thesis using n by (intro exI [of _ "8 * j + n"]) simp
qed

definition block_set :: "u64 \<Rightarrow> nat \<Rightarrow> bool" where
  "block_set w j \<longleftrightarrow> (\<exists>n. 8 * j \<le> n \<and> n < 8 * j + 8 \<and> bit w n)"

lemma block_setI: "y \<noteq> 0 \<Longrightarrow> j < 8 \<Longrightarrow> block_set (push_bit (8 * j) (ucast (y :: byte))) j"
  unfolding block_set_def by (rule byte_nonzero_bits)

lemma block_set_or: "block_set (a OR b) j \<longleftrightarrow> block_set a j \<or> block_set b j"
  by (auto simp: block_set_def bit_simps)

lemma genPatternMask_shape:
  "\<exists>k1 k2 k3 k4 k5 k6 k7 k8 k9 k10. genPatternMask seed =
     0 OR 0xA9 OR push_bit 8 (ucast (RotateLeft8 0x80 k1)) OR push_bit 8 (ucast (RotateLeft8 0x80 k2)) OR
     push_bit 16 (ucast (RotateLeft8 1 k3)) OR push_bit 24 (ucast (RotateLeft8 1 k4)) OR
     push_bit 32 (ucast (RotateLeft8 1 k5)) OR push_bit 32 (ucast (RotateLeft8 1 k6)) OR
     push_bit 32 (ucast (RotateLeft8 1 k7)) OR push_bit 40 (ucast (RotateLeft8 1 k8)) OR
     push_bit 48 (ucast (RotateLeft8 1 k9)) OR push_bit 56 (ucast (RotateLeft8 1 k10))"
  unfolding genPatternMask_def Let_def or.assoc by blast

text \<open>
  The pattern mask has a set bit in each of its eight bytes, whatever the seed, and the first
  byte is set at least at the bits 0, 3, 5 and 7.
\<close>

lemma genPatternMask_blocks:
  "list_all (block_set (genPatternMask seed)) [0, 1, 2, 3, 4, 5, 6, 7] \<and>
   list_all (bit (genPatternMask seed)) [0, 3, 5, 7]"
proof -
  have block: "block_set (push_bit (8 * j) (ucast (RotateLeft8 x k))) j" if "x \<noteq> 0" "j < 8" for j x k
    using block_setI [of "RotateLeft8 x k" j] RotateLeft8_nonzero that by blast
  have blocks: "block_set (push_bit 8 (ucast (RotateLeft8 0x80 k))) 1"
    "block_set (push_bit 16 (ucast (RotateLeft8 1 k))) 2"
    "block_set (push_bit 24 (ucast (RotateLeft8 1 k))) 3"
    "block_set (push_bit 32 (ucast (RotateLeft8 1 k))) 4"
    "block_set (push_bit 40 (ucast (RotateLeft8 1 k))) 5"
    "block_set (push_bit 48 (ucast (RotateLeft8 1 k))) 6"
    "block_set (push_bit 56 (ucast (RotateLeft8 1 k))) 7" for k
    using block [of "0x80" 1] block [of 1 2] block [of 1 3] block [of 1 4] block [of 1 5]
      block [of 1 6] block [of 1 7] by simp_all
  have zero: "block_set 0xA9 0"
    unfolding block_set_def by (rule exI [of _ 0]) simp
  show ?thesis
    using genPatternMask_shape [of seed] blocks zero
    by (auto simp: block_set_or bit_or_iff)
qed

subsection \<open>What reaches the wire\<close>

text \<open>The contract of \<open>io.Writer\<close>: at most the given bytes, and all of them where there is no error.\<close>

definition honest_writer :: "(nat \<Rightarrow> bytes \<Rightarrow> nat \<times> 'e option) \<Rightarrow> bool" where
  "honest_writer wr \<longleftrightarrow>
     (\<forall>j b. fst (wr j b) \<le> length b \<and> (snd (wr j b) = None \<longrightarrow> fst (wr j b) = length b))"

definition sent :: "wire \<Rightarrow> bytes" where
  "sent w = concat (map snd (wr_out w))"

lemma sent_setTTLWrap [simp]: "sent (snd (setTTLWrap f t st)) = sent (snd st)"
  by (cases st) (auto simp: setTTLWrap_def sent_def)

lemma sent_conn_Write [simp]:
  "sent (snd (conn_Write wr b w)) = sent w @ take (fst (wr (wr_writes w) b)) b"
  by (auto simp: conn_Write_def sent_def split: prod.splits)

lemma fst_conn_Write [simp]: "fst (conn_Write wr b w) = wr (wr_writes w) b"
  by (auto simp: conn_Write_def split: prod.splits)

lemma send_loop_sent:
  assumes "honest_writer wr"
  shows "\<exists>out. sent (snd (send_loop f wr segs tot st)) = sent (snd st) @ out \<and>
    fst (fst (send_loop f wr segs tot st)) = tot + length out \<and> prefix out (payload segs) \<and>
    (snd (fst (send_loop f wr segs tot st)) = None \<longrightarrow> out = payload segs)"
proof (induction segs arbitrary: tot st)
  case Nil
  then show ?case by simp
next
  case (Cons s segs)
  define st1 where "st1 = (if \<not> fst st \<and> seg_Lazy s then setTTLWrap f 1 st else st)"
  define r where "r = wr (wr_writes (snd st1)) (seg_Packet s)"
  define w where "w = snd (conn_Write wr (seg_Packet s) (snd st1))"
  have r: "fst r \<le> length (seg_Packet s)" "snd r = None \<Longrightarrow> fst r = length (seg_Packet s)"
    using assms by (auto simp: honest_writer_def r_def)
  have w: "conn_Write wr (seg_Packet s) (snd st1) = (r, w)" "sent w = sent (snd st) @ take (fst r) (seg_Packet s)"
    by (auto simp: r_def w_def st1_def prod_eq_iff)
  show ?case
  proof (cases "snd r")
    case (Some e)
    then have "send_loop f wr (s # segs) tot st = ((tot + fst r, Some e), w)"
      using w(1) by (cases r) (simp add: st1_def [symmetric] Let_def)
    then show ?thesis
      using w(2) r(1) by (auto simp: take_is_prefix prefix_order.trans [OF take_is_prefix])
  next
    case None
    define st2 where "st2 = (if \<not> fst st1 \<and> seg_Lazy s then setTTLWrap f getDefaultTTL (fst st1, w) else (fst st1, w))"
    have loop: "send_loop f wr (s # segs) tot st = send_loop f wr segs (tot + fst r) st2"
      using w(1) None by (cases r) (simp add: st1_def [symmetric] st2_def Let_def)
    have "sent (snd st2) = sent (snd st) @ seg_Packet s"
      using w(2) r(2) None by (simp add: st2_def)
    with Cons.IH [of "tot + fst r" st2] r(2) None show ?thesis
      unfolding loop by fastforce
  qed
qed

text \<open>
  Whatever \<open>SetTTL\<close> calls fail and wherever a write fails, \<open>sendSegments\<close> has written a prefix of
  the segments' bytes, returns exactly the number of bytes written, and returns no error only when
  everything was written.
\<close>

lemma sendSegments_prefix:
  assumes "honest_writer wr" and "sendSegments f wr segs w = ((n, err), w')"
  shows "\<exists>out. sent w' = sent w @ out \<and> n = length out \<and> prefix out (payload segs) \<and>
    (err = None \<longrightarrow> out = payload segs)"
  using send_loop_sent [OF assms(1), of f segs 0 "(False, w)"] assms(2)
  by (auto simp: sendSegments_def)

lemma sendSegments_prefix_witness:
  "\<exists>out. sent \<lparr>wr_ttl = 1, wr_out = [(1, [5])], wr_sets = 1, wr_writes = 1\<rparr> =
       sent \<lparr>wr_ttl = 9, wr_out = [], wr_sets = 0, wr_writes = 0\<rparr> @ out \<and>
     1 = length out \<and> prefix out (payload [\<lparr>seg_Packet = [5, 6], seg_Lazy = True\<rparr>]) \<and>
     (Some () = None \<longrightarrow> out = payload [\<lparr>seg_Packet = [5, 6], seg_Lazy = True\<rparr>])"
  by (rule sendSegments_prefix [where wr = "\<lambda>j b. if b = [] then (0, None) else (1, Some ())"
        and f = "\<lambda>_. False"])
    (simp_all add: honest_writer_def Suc_le_eq sendSegments_def setTTLWrap_def conn_Write_def)

subsection \<open>The TTL discipline\<close>

text \<open>Where no call fails: the TTL each segment leaves with, from the TTL \<open>t\<close> of the socket.\<close>

fun ttl_schedule :: "u8 \<Rightarrow> Segment list \<Rightarrow> (u8 \<times> bytes) list" where
  "ttl_schedule t [] = []"
| "ttl_schedule t (s # segs) =
     (if seg_Lazy s then (1, seg_Packet s) # ttl_schedule getDefaultTTL segs
      else (t, seg_Packet s) # ttl_schedule t segs)"

definition all_written :: "(nat \<Rightarrow> bytes \<Rightarrow> nat \<times> 'e option) \<Rightarrow> bool" where
  "all_written wr \<longleftrightarrow> (\<forall>j b. wr j b = (length b, None))"

lemma send_loop_schedule:
  assumes "\<And>j. \<not> f j" and "all_written wr"
  shows "wr_out (snd (send_loop f wr segs tot (False, w))) = wr_out w @ ttl_schedule (wr_ttl w) segs \<and>
    fst (send_loop f wr segs tot (False, w)) = (tot + length (payload segs), None) \<and>
    wr_ttl (snd (send_loop f wr segs tot (False, w))) =
      (if list_ex seg_Lazy segs then getDefaultTTL else wr_ttl w)"
  using assms
proof (induction segs arbitrary: tot w)
  case (Cons s segs)
  have wr: "wr j b = (length b, None)" for j b
    using Cons.prems by (simp add: all_written_def)
  show ?case
    using Cons.prems(1) Cons.IH [OF Cons.prems]
    by (simp add: conn_Write_def setTTLWrap_def wr Let_def)
qed simp



lemma send_loop_errored:
  assumes "all_written wr"
  shows "wr_out (snd (send_loop f wr segs tot (True, w))) =
    wr_out w @ map (\<lambda>s. (wr_ttl w, seg_Packet s)) segs"
  using assms by (induction segs arbitrary: tot w) (auto simp: conn_Write_def all_written_def Let_def)

text \<open>
  If the reset after a lazy segment fails, the flag \<open>ttlErrored\<close> stops every later \<open>SetTTL\<close>, so all
  remaining segments leave with TTL 1, although the code goes on and reports success.
\<close>

lemma sendSegments_failed_reset:
  assumes "\<not> f (wr_sets w)" and "f (wr_sets w + 1)" and "all_written wr" and "seg_Lazy s"
    and "sendSegments f wr (s # segs) w = (r, w')"
  shows "wr_out w' = wr_out w @ (1, seg_Packet s) # map (\<lambda>s. (1, seg_Packet s)) segs"
proof -
  define w1 where "w1 = w\<lparr>wr_ttl := 1, wr_out := wr_out w @ [(1, seg_Packet s)],
      wr_writes := Suc (wr_writes w), wr_sets := Suc (Suc (wr_sets w))\<rparr>"
  have "send_loop f wr segs (length (seg_Packet s)) (True, w1) = (r, w')"
    using assms by (simp add: sendSegments_def setTTLWrap_def conn_Write_def all_written_def Let_def w1_def)
  then show ?thesis
    using send_loop_errored [OF assms(3), of f segs "length (seg_Packet s)" w1]
    by (simp add: w1_def)
qed

lemma sendSegments_failed_reset_witness:
  "wr_out (snd (sendSegments (\<lambda>j. j = 1) (\<lambda>_ b. (length b, None :: unit option))
      [\<lparr>seg_Packet = [5], seg_Lazy = True\<rparr>, \<lparr>seg_Packet = [6], seg_Lazy = False\<rparr>]
      \<lparr>wr_ttl = 64, wr_out = [], wr_sets = 0, wr_writes = 0\<rparr>)) = [(1, [5]), (1, [6])]"
proof -
  have wr: "all_written (\<lambda>_ b. (length b, None :: unit option))"
    by (simp add: all_written_def)
  show ?thesis
    using sendSegments_failed_reset [OF _ _ wr _ prod.collapse [symmetric], of "\<lambda>j. j = 1"
        "\<lparr>wr_ttl = 64, wr_out = [], wr_sets = 0, wr_writes = 0\<rparr>" "\<lparr>seg_Packet = [5], seg_Lazy = True\<rparr>"
        "[\<lparr>seg_Packet = [6], seg_Lazy = False\<rparr>]"]
    by simp
qed

subsection \<open>The TLS desyncer as a whole\<close>

lemma craft_pass_ttl:
  "list_all (\<lambda>x. fst x = ttl) injd \<Longrightarrow>
     list_all (\<lambda>x. fst x = ttl) (snd (craft_pass craft ttl vs n injd))"
  by (induction vs arbitrary: n injd) (auto split: prod.splits option.splits)

lemma craft_repeat_ttl:
  "list_all (\<lambda>x. fst x = ttl) injd \<Longrightarrow>
     list_all (\<lambda>x. fst x = ttl) (snd (craft_repeat craft ttl vs k n injd))"
proof (induction k arbitrary: n injd)
  case (Suc k)
  obtain m e injd' where p: "craft_pass craft ttl vs n injd = ((m, e), injd')"
    by (metis prod.exhaust)
  then have "list_all (\<lambda>x. fst x = ttl) injd'"
    using craft_pass_ttl [OF Suc.prems, of craft vs n] by simp
  with Suc.IH p show ?case by (cases e) auto
qed simp

lemma craft_pass_ok:
  assumes "\<And>j t v. craft j t v = (length v, None)"
  shows "craft_pass craft ttl vs n injd =
    ((n + length (concat vs), None), injd @ map (Pair ttl) vs)"
  using assms by (induction vs arbitrary: n injd) auto

lemma craft_repeat_ok:
  assumes "\<And>j t v. craft j t v = (length v, None)"
  shows "craft_repeat craft ttl vs k n injd =
    ((n + k * length (concat vs), None), injd @ concat (replicate k (map (Pair ttl) vs)))"
  by (induction k arbitrary: n injd) (auto simp: craft_pass_ok [OF assms])

definition split_env_ok :: "split_env \<Rightarrow> HTTPSOptions \<Rightarrow> bool" where
  "split_env_ok env opts \<longleftrightarrow> sorts_points (env_sort env) \<and>
     (\<forall>s \<in> set (https_CustomSegmentPlans opts). plan_Noise s < 2 ^ 62)"

lemma split_msg_ok:
  "split_env_ok env opts \<Longrightarrow> \<exists>segs. split_msg env msg opts = Inr segs \<and> payload segs = tls_raw msg"
  using split_attempt_ok [of env opts msg] by (auto simp: split_msg_def split_env_ok_def)

lemma TLS_Desync_sends:
  assumes env: "split_env_ok fakeEnv opts" "split_env_ok env opts" and wr: "honest_writer wr"
    and fake: "https_FakePacket opts = Some fake"
  shows "\<exists>n err fakes w' out. TLS_Desync d fakeEnv env f wr (Some ip) msg opts w = Inr ((n, err), fakes, w') \<and>
    sent w' = sent w @ out \<and> n = length out \<and> prefix out (tls_raw msg) \<and>
    (err = None \<longrightarrow> out = tls_raw msg) \<and>
    (fakes \<noteq> [] \<longrightarrow> \<not> https_Skip opts \<and> https_FakeCount opts > 0 \<and> d_writer d \<noteq> None \<and>
       (\<exists>s. d_sniffer d = Some s \<and> list_all (\<lambda>x. fst x = s (NewIPKey ip)) fakes))"
proof -
  obtain fsegs where fs: "split_msg fakeEnv fake opts = (Inr fsegs :: ('a, Segment list) res)"
    using split_msg_ok [OF env(1)] by blast
  define fakes where "fakes = (case (d_sniffer d, d_writer d) of
      (Some s, Some craft) \<Rightarrow>
        if https_FakeCount opts > 0 \<and> \<not> https_Skip opts then
          snd (craft_repeat craft (s (NewIPKey ip)) (map seg_Packet fsegs) (unat (https_FakeCount opts)) 0 [])
        else []
    | _ \<Rightarrow> [])"
  obtain segs where segs: "(split_msg env msg opts :: ('a, Segment list) res) = Inr segs"
    "payload segs = tls_raw msg"
    using split_msg_ok [OF env(2)] by blast
  define segs' where "segs' = (if https_Skip opts then [\<lparr>seg_Packet = tls_raw msg, seg_Lazy = False\<rparr>] else segs)"
  obtain n err w' where send: "sendSegments f wr segs' w = ((n, err), w')"
    by (metis prod.exhaust)
  have "TLS_Desync d fakeEnv env f wr (Some ip) msg opts w = Inr ((n, err), fakes, w')"
    using send segs(1) fs fake
    by (auto simp: TLS_Desync_def sendFakePackets_def fakes_def segs'_def
        split: option.splits prod.splits)
  moreover have "\<exists>out. sent w' = sent w @ out \<and> n = length out \<and> prefix out (tls_raw msg) \<and>
      (err = None \<longrightarrow> out = tls_raw msg)"
    using send_loop_sent [OF wr, of f segs' 0 "(False, w)"] send segs(2)
    by (auto simp: sendSegments_def segs'_def split: if_splits)
  moreover have "fakes \<noteq> [] \<longrightarrow> \<not> https_Skip opts \<and> https_FakeCount opts > 0 \<and> d_writer d \<noteq> None \<and>
      (\<exists>s. d_sniffer d = Some s \<and> list_all (\<lambda>x. fst x = s (NewIPKey ip)) fakes)"
    by (simp add: fakes_def craft_repeat_ttl split: option.splits)
  ultimately show ?thesis by blast
qed

text \<open>
  C3: end to end, the TLS desyncer never panics when the peer is a TCP address and a fake packet is
  configured, and over the connection goes a prefix of the Client Hello (all of it when no error is
  returned), whatever the mode, the randomness and the failures of the TTL calls and of the fake
  packets; fakes are injected only when desync is on, a count is configured and both a sniffer and a
  writer exist, and then with the sniffer's TTL for the peer.
\<close>

theorem TLS_Desync_delivers:
  assumes env: "split_env_ok fakeEnv opts" "split_env_ok env opts" and wr: "honest_writer wr"
    and fake: "https_FakePacket opts = Some fake"
  shows "\<exists>n err fakes w' out. TLS_Desync d fakeEnv env f wr (Some ip) msg opts w = Inr ((n, err), fakes, w') \<and>
    sent w' = sent w @ out \<and> n = length out \<and> prefix out (tls_raw msg) \<and>
    (err = None \<longrightarrow> out = tls_raw msg) \<and>
    (fakes \<noteq> [] \<longrightarrow> \<not> https_Skip opts \<and> https_FakeCount opts > 0 \<and> d_writer d \<noteq> None \<and>
       (\<exists>s. d_sniffer d = Some s \<and> list_all (\<lambda>x. fst x = s (NewIPKey ip)) fakes))"
  by (rule TLS_Desync_sends [OF assms])

theorem TLS_Desync_delivers_witness:
  "let env = \<lparr>env_seed = 7, env_intN = (\<lambda>_ _. 0), env_sort = sort_key pt_at\<rparr>;
       opts = \<lparr>https_Disorder = True, https_FakeCount = 2, https_FakePacket = Some (NewFakeTLSMessage [9]),
               https_SplitMode = HTTPSSplitModeFirstByte, https_ChunkSize = 2, https_Skip = False,
               https_CustomSegmentPlans = []\<rparr>;
       d = \<lparr>d_sniffer = Some (\<lambda>_. 5), d_writer = Some (\<lambda>_ _ v. (length v, None :: unit option))\<rparr>
   in \<exists>n err fakes w' out. TLS_Desync d env env (\<lambda>_. False) (\<lambda>_ b. (length b, None))
        (Some [1, 2, 3, 4]) (NewFakeTLSMessage [1, 2, 3]) opts
        \<lparr>wr_ttl = 64, wr_out = [], wr_sets = 0, wr_writes = 0\<rparr> = Inr ((n, err), fakes, w') \<and>
      sent w' = out \<and> n = length out \<and> prefix out [1, 2, 3] \<and> (err = None \<longrightarrow> out = [1, 2, 3]) \<and>
      (fakes \<noteq> [] \<longrightarrow> list_all (\<lambda>x. fst x = 5) fakes)"
proof -
  define env where "env = \<lparr>env_seed = (7 :: u64), env_intN = (\<lambda>_ _. 0), env_sort = sort_key pt_at\<rparr>"
  define opts where "opts = \<lparr>https_Disorder = True, https_FakeCount = 2,
      https_FakePacket = Some (NewFakeTLSMessage [9]), https_SplitMode = HTTPSSplitModeFirstByte,
      https_ChunkSize = 2, https_Skip = False, https_CustomSegmentPlans = []\<rparr>"
  have env: "split_env_ok env opts"
    by (simp add: split_env_ok_def env_def opts_def sorts_points_sort_key)
  have wr: "honest_writer (\<lambda>_ b. (length b, None :: unit option))"
    by (simp add: honest_writer_def)
  have fake: "https_FakePacket opts = Some (NewFakeTLSMessage [9])"
    by (simp add: opts_def)
  show ?thesis
    unfolding Let_def env_def [symmetric] opts_def [symmetric]
    using TLS_Desync_delivers [OF env env wr fake,
        of "\<lparr>d_sniffer = Some (\<lambda>_. 5), d_writer = Some (\<lambda>_ _ v. (length v, None))\<rparr>" "\<lambda>_. False"
          "[1, 2, 3, 4]" "NewFakeTLSMessage [1, 2, 3]" "\<lparr>wr_ttl = 64, wr_out = [], wr_sets = 0, wr_writes = 0\<rparr>"]
    by (fastforce simp: sent_def NewFakeTLSMessage_def)
qed


end
