(* ===== verification/Cache.thy ===== *)
theory Cache
  imports Prelude "HOL-Library.Multiset"
begin

text \<open>
  The caches of \<open>src/internal/cache\<close>: the interface \<open>Cache\<close> as a locale, the sharded LRU cache
  (\<open>lru_cache.go\<close>) over an explicit element store, and the sharded TTL cache (\<open>ttl_cache.go\<close>) over a
  clock. A cache key is any type with a byte form \<open>Bytes\<close>, a parameter of the operations; it only
  selects the shard. Every operation holds the mutex of its shard, so one call is one atomic step,
  except the TTL cache's \<open>Get\<close>, which is split into its two critical sections.
\<close>

section \<open>Options and the hash\<close>

record options =
  opt_ttl :: int
  opt_skipExisting :: bool
  opt_updateExistingOnly :: bool

definition Options :: options where
  "Options = \<lparr>opt_ttl = 0, opt_skipExisting = False, opt_updateExistingOnly = False\<rparr>"

definition WithTTL :: "int \<Rightarrow> options \<Rightarrow> options" where
  "WithTTL t o' = o'\<lparr>opt_ttl := t\<rparr>"

definition WithUpdateExistingOnly :: "bool \<Rightarrow> options \<Rightarrow> options" where
  "WithUpdateExistingOnly b o' = o'\<lparr>opt_updateExistingOnly := b\<rparr>"

definition WithSkipExisting :: "bool \<Rightarrow> options \<Rightarrow> options" where
  "WithSkipExisting b o' = o'\<lparr>opt_skipExisting := b\<rparr>"

text \<open>A nil options pointer means the defaults.\<close>

definition optsOrDefault :: "options option \<Rightarrow> options" where
  "optsOrDefault oo = (case oo of None \<Rightarrow> Options | Some o' \<Rightarrow> o')"

definition fnvOffset64 :: u64 where "fnvOffset64 = 14695981039346656037"
definition fnvPrime64 :: u64 where "fnvPrime64 = 1099511628211"

definition fnv1aBytes :: "bytes \<Rightarrow> u64" where
  "fnv1aBytes b = foldl (\<lambda>h c. (h XOR ucast c) * fnvPrime64) fnvOffset64 b"

section \<open>The LRU cache\<close>

record ('k, 'v) lruEntry =
  entry_key :: 'k
  entry_value :: 'v

text \<open>
  A shard: \<open>items\<close> maps a key to a list element, the doubly linked list is the sequence of its elements
  (front first), and \<open>elems\<close> is the store that an element pointer is looked up in. \<open>next\<close> is the
  allocator's next address.
\<close>

record ('k, 'v) lruShardNode =
  ls_items :: "'k \<rightharpoonup> nat"
  ls_list :: "nat list"
  ls_elems :: "nat \<rightharpoonup> ('k, 'v) lruEntry"
  ls_next :: nat
  ls_capacity :: int

record ('k, 'v) LRUCache =
  lru_shards :: "('k, 'v) lruShardNode list"
  lru_mask :: u64
  lru_onInvalidate :: bool

definition newShard :: "int \<Rightarrow> ('k, 'v) lruShardNode" where
  "newShard capPerShard = \<lparr>ls_items = Map.empty, ls_list = [], ls_elems = Map.empty, ls_next = 0,
     ls_capacity = capPerShard\<rparr>"

definition NewLRUCache :: "int \<Rightarrow> int \<Rightarrow> bool \<Rightarrow> ('e, ('k, 'v) LRUCache) res" where
  "NewLRUCache numShards totalCapacity onInv =
     (if numShards \<le> 0 \<or> numShards AND (numShards - 1) \<noteq> 0 then Inl Panic
      else
        let c = totalCapacity div numShards; capPerShard = (if c \<le> 0 then 1 else c) in
        Inr \<lparr>lru_shards = replicate (nat numShards) (newShard capPerShard),
             lru_mask = of_int (numShards - 1), lru_onInvalidate = onInv\<rparr>)"

definition lru_shard :: "('k \<Rightarrow> bytes) \<Rightarrow> ('k, 'v) LRUCache \<Rightarrow> 'k \<Rightarrow> nat" where
  "lru_shard Bytes c key = unat (fnv1aBytes (Bytes key) AND lru_mask c)"

text \<open>\<open>container/list\<close>: an element that is not in the list is not moved.\<close>

definition MoveToFront :: "nat \<Rightarrow> nat list \<Rightarrow> nat list" where
  "MoveToFront e l = (if e \<in> set l then e # remove1 e l else l)"

definition deref :: "('k, 'v) lruShardNode \<Rightarrow> nat \<Rightarrow> ('k, 'v) lruEntry" where
  "deref s e = the (ls_elems s e)"

text \<open>The bodies of the operations, on the shard of the key; the list result is the calls of \<open>onInvalidate\<close>.\<close>

definition shard_Get :: "'k \<Rightarrow> ('k, 'v) lruShardNode \<Rightarrow> 'v option \<times> ('k, 'v) lruShardNode" where
  "shard_Get key s =
     (case ls_items s key of
        Some elem \<Rightarrow> (Some (entry_value (deref s elem)), s\<lparr>ls_list := MoveToFront elem (ls_list s)\<rparr>)
      | None \<Rightarrow> (None, s))"

definition shard_Set ::
    "options \<Rightarrow> 'k \<Rightarrow> 'v \<Rightarrow> ('k, 'v) lruShardNode \<Rightarrow> bool \<times> ('k, 'v) lruShardNode \<times> ('k \<times> 'v) list" where
  "shard_Set opts key val s =
     (case ls_items s key of
        Some elem \<Rightarrow>
          if opt_skipExisting opts then (False, s, [])
          else
            let entry = deref s elem in
            (True, s\<lparr>ls_elems := (ls_elems s)(elem \<mapsto> entry\<lparr>entry_value := val\<rparr>),
                     ls_list := MoveToFront elem (ls_list s)\<rparr>,
             [(entry_key entry, entry_value entry)])
      | None \<Rightarrow>
          if opt_updateExistingOnly opts then (False, s, [])
          else
            let elem = ls_next s;
                s1 = s\<lparr>ls_elems := (ls_elems s)(elem \<mapsto> \<lparr>entry_key = key, entry_value = val\<rparr>),
                       ls_next := Suc elem, ls_list := elem # ls_list s,
                       ls_items := (ls_items s)(key \<mapsto> elem)\<rparr> in
            if int (length (ls_list s1)) > ls_capacity s1 then
              let tail = last (ls_list s1); en = deref s1 tail in
              (True, s1\<lparr>ls_list := remove1 tail (ls_list s1),
                        ls_items := (ls_items s1)(entry_key en := None)\<rparr>,
               [(entry_key en, entry_value en)])
            else (True, s1, []))"

definition shard_Delete ::
    "'k \<Rightarrow> ('k, 'v) lruShardNode \<Rightarrow> ('k, 'v) lruShardNode \<times> ('k \<times> 'v) list" where
  "shard_Delete key s =
     (case ls_items s key of
        Some elem \<Rightarrow>
          let en = deref s elem in
          (s\<lparr>ls_list := remove1 elem (ls_list s), ls_items := (ls_items s)(entry_key en := None)\<rparr>,
           [(entry_key en, entry_value en)])
      | None \<Rightarrow> (s, []))"

text \<open>
  The operations of the cache work in place on the shard of the key. The index is within the slice for
  every cache that \<open>NewLRUCache\<close> returns (lemma \<open>lru_shard_less\<close>).
\<close>

definition LRU_Get :: "('k \<Rightarrow> bytes) \<Rightarrow> 'k \<Rightarrow> ('k, 'v) LRUCache \<Rightarrow> 'v option \<times> ('k, 'v) LRUCache" where
  "LRU_Get Bytes key c =
     (let i = lru_shard Bytes c key; (r, s) = shard_Get key (lru_shards c ! i) in
      (r, c\<lparr>lru_shards := (lru_shards c)[i := s]\<rparr>))"

definition LRU_Set ::
    "('k \<Rightarrow> bytes) \<Rightarrow> 'k \<Rightarrow> 'v \<Rightarrow> options option \<Rightarrow> ('k, 'v) LRUCache \<Rightarrow>
     bool \<times> ('k, 'v) LRUCache \<times> ('k \<times> 'v) list" where
  "LRU_Set Bytes key val oo c =
     (let i = lru_shard Bytes c key;
          (ok, s, calls) = shard_Set (optsOrDefault oo) key val (lru_shards c ! i) in
      (ok, c\<lparr>lru_shards := (lru_shards c)[i := s]\<rparr>, if lru_onInvalidate c then calls else []))"

definition LRU_Delete ::
    "('k \<Rightarrow> bytes) \<Rightarrow> 'k \<Rightarrow> ('k, 'v) LRUCache \<Rightarrow> ('k, 'v) LRUCache \<times> ('k \<times> 'v) list" where
  "LRU_Delete Bytes key c =
     (let i = lru_shard Bytes c key; (s, calls) = shard_Delete key (lru_shards c ! i) in
      (c\<lparr>lru_shards := (lru_shards c)[i := s]\<rparr>, if lru_onInvalidate c then calls else []))"

definition LRU_Has :: "('k \<Rightarrow> bytes) \<Rightarrow> 'k \<Rightarrow> ('k, 'v) LRUCache \<Rightarrow> bool" where
  "LRU_Has Bytes key c \<longleftrightarrow> ls_items (lru_shards c ! lru_shard Bytes c key) key \<noteq> None"

text \<open>
  Iteration stops at the first error of the callback, whose own state is passed along; the order in
  which Go ranges over a map is the parameter \<open>rng\<close>.
\<close>

fun each :: "('k \<Rightarrow> 'v \<Rightarrow> 's \<Rightarrow> 'e option \<times> 's) \<Rightarrow> ('k \<times> 'v) list \<Rightarrow> 's \<Rightarrow> 'e option \<times> 's" where
  "each f [] st = (None, st)"
| "each f ((k, v) # kvs) st =
     (case f k v st of (Some e, st) \<Rightarrow> (Some e, st) | (None, st) \<Rightarrow> each f kvs st)"

fun each_shard ::
    "('s \<Rightarrow> ('k \<times> 'v) list) \<Rightarrow> ('k \<Rightarrow> 'v \<Rightarrow> 'st \<Rightarrow> 'e option \<times> 'st) \<Rightarrow> 's list \<Rightarrow> 'st \<Rightarrow> 'e option \<times> 'st" where
  "each_shard entries f [] st = (None, st)"
| "each_shard entries f (s # ss) st =
     (case each f (entries s) st of (Some e, st) \<Rightarrow> (Some e, st) | (None, st) \<Rightarrow> each_shard entries f ss st)"

definition LRU_ForEach ::
    "(('k \<rightharpoonup> nat) \<Rightarrow> nat list) \<Rightarrow> ('k \<Rightarrow> 'v \<Rightarrow> 's \<Rightarrow> 'e option \<times> 's) \<Rightarrow> ('k, 'v) LRUCache \<Rightarrow> 's \<Rightarrow>
     'e option \<times> 's" where
  "LRU_ForEach rng f c st =
     each_shard (\<lambda>s. map (\<lambda>e. (entry_key (deref s e), entry_value (deref s e))) (rng (ls_items s)))
       f (lru_shards c) st"

definition LRU_Size :: "('k, 'v) LRUCache \<Rightarrow> nat" where
  "LRU_Size c = sum_list (map (\<lambda>s. length (ls_list s)) (lru_shards c))"

section \<open>The TTL cache\<close>

record 'v ttlCacheItem =
  item_value :: 'v
  item_expiresAt :: int

definition isExpired :: "int \<Rightarrow> 'v ttlCacheItem \<Rightarrow> bool" where
  "isExpired now i \<longleftrightarrow> item_expiresAt i \<noteq> 0 \<and> now > item_expiresAt i"

record ('k, 'v) TTLCache =
  ttl_shards :: "('k \<rightharpoonup> 'v ttlCacheItem) list"

definition NewTTLCache :: "u8 \<Rightarrow> ('e, ('k, 'v) TTLCache) res" where
  "NewTTLCache numOfShards =
     (if numOfShards = 0 then Inl Panic
      else Inr \<lparr>ttl_shards = replicate (unat numOfShards) Map.empty\<rparr>)"

definition getShard :: "('k \<Rightarrow> bytes) \<Rightarrow> ('k, 'v) TTLCache \<Rightarrow> 'k \<Rightarrow> nat" where
  "getShard Bytes c key = unat (fnv1aBytes (Bytes key)) mod length (ttl_shards c)"

definition TTL_Set ::
    "('k \<Rightarrow> bytes) \<Rightarrow> int \<Rightarrow> 'k \<Rightarrow> 'v \<Rightarrow> options option \<Rightarrow> ('k, 'v) TTLCache \<Rightarrow> bool \<times> ('k, 'v) TTLCache" where
  "TTL_Set Bytes now key val oo c =
     (let i = getShard Bytes c key; shard = ttl_shards c ! i; opts = optsOrDefault oo in
      if opt_ttl opts = 0 then (False, c)
      else
        let ok = shard key \<noteq> None in
        if ok \<and> opt_skipExisting opts then (False, c)
        else if \<not> ok \<and> opt_updateExistingOnly opts then (False, c)
        else (True, c\<lparr>ttl_shards := (ttl_shards c)[i := shard(key \<mapsto>
                \<lparr>item_value = val, item_expiresAt = now + opt_ttl opts\<rparr>)]\<rparr>))"

text \<open>The two critical sections of \<open>Get\<close>: the read, and the removal of an item seen expired.\<close>

definition TTL_read :: "('k \<Rightarrow> bytes) \<Rightarrow> 'k \<Rightarrow> ('k, 'v) TTLCache \<Rightarrow> 'v ttlCacheItem option" where
  "TTL_read Bytes key c = (ttl_shards c ! getShard Bytes c key) key"

definition TTL_purge ::
    "('k \<Rightarrow> bytes) \<Rightarrow> 'k \<Rightarrow> 'v ttlCacheItem \<Rightarrow> ('k, 'v) TTLCache \<Rightarrow> ('k, 'v) TTLCache" where
  "TTL_purge Bytes key i c =
     (let j = getShard Bytes c key; shard = ttl_shards c ! j in
      case shard key of
        Some cur \<Rightarrow>
          if item_expiresAt cur = item_expiresAt i
          then c\<lparr>ttl_shards := (ttl_shards c)[j := shard(key := None)]\<rparr> else c
      | None \<Rightarrow> c)"

definition TTL_Get :: "('k \<Rightarrow> bytes) \<Rightarrow> int \<Rightarrow> 'k \<Rightarrow> ('k, 'v) TTLCache \<Rightarrow> 'v option \<times> ('k, 'v) TTLCache" where
  "TTL_Get Bytes now key c =
     (case TTL_read Bytes key c of
        None \<Rightarrow> (None, c)
      | Some i \<Rightarrow> if isExpired now i then (None, TTL_purge Bytes key i c) else (Some (item_value i), c))"

definition TTL_Delete :: "('k \<Rightarrow> bytes) \<Rightarrow> 'k \<Rightarrow> ('k, 'v) TTLCache \<Rightarrow> ('k, 'v) TTLCache" where
  "TTL_Delete Bytes key c =
     (let i = getShard Bytes c key in
      c\<lparr>ttl_shards := (ttl_shards c)[i := (ttl_shards c ! i)(key := None)]\<rparr>)"

definition TTL_Has :: "('k \<Rightarrow> bytes) \<Rightarrow> int \<Rightarrow> 'k \<Rightarrow> ('k, 'v) TTLCache \<Rightarrow> bool" where
  "TTL_Has Bytes now key c =
     (case TTL_read Bytes key c of None \<Rightarrow> False | Some i \<Rightarrow> \<not> isExpired now i)"

definition ForceCleanup :: "int \<Rightarrow> ('k, 'v) TTLCache \<Rightarrow> ('k, 'v) TTLCache" where
  "ForceCleanup now c =
     c\<lparr>ttl_shards := map (\<lambda>shard k. case shard k of
         None \<Rightarrow> None | Some i \<Rightarrow> if item_expiresAt i \<noteq> 0 \<and> now > item_expiresAt i then None else Some i)
       (ttl_shards c)\<rparr>"

definition TTL_ForEach ::
    "(('k \<rightharpoonup> 'v ttlCacheItem) \<Rightarrow> ('k \<times> 'v ttlCacheItem) list) \<Rightarrow> ('k \<Rightarrow> 'v \<Rightarrow> 's \<Rightarrow> 'e option \<times> 's) \<Rightarrow>
     ('k, 'v) TTLCache \<Rightarrow> 's \<Rightarrow> 'e option \<times> 's" where
  "TTL_ForEach rng f c st =
     each_shard (\<lambda>s. map (\<lambda>(k, i). (k, item_value i)) (rng s)) f (ttl_shards c) st"

definition TTL_Size :: "('k, 'v) TTLCache \<Rightarrow> nat" where
  "TTL_Size c = sum_list (map (\<lambda>s. card (dom s)) (ttl_shards c))"

section \<open>The interface\<close>

text \<open>
  What every implementation of the Go interface \<open>Cache\<close> promises: \<open>lookup\<close> is the finite map a client can
  observe, reads do not change it, a refused \<open>Set\<close> changes nothing, an accepted one may evict entries but
  never changes another key's value, and \<open>other\<close> covers what happens beside the client's calls.
\<close>

datatype ('k, 'v, 'o, 'x) cache_op = OpGet 'k | OpSet 'k 'v 'o | OpDelete 'k | OpOther 'x

text \<open>
  A run of operations beside an ideal, unbounded map that records what was successfully set and not
  deleted since.
\<close>

fun cache_run ::
    "('k \<Rightarrow> 'c \<Rightarrow> 'v option \<times> 'c) \<Rightarrow> ('k \<Rightarrow> 'v \<Rightarrow> 'o \<Rightarrow> 'c \<Rightarrow> bool \<times> 'c) \<Rightarrow> ('k \<Rightarrow> 'c \<Rightarrow> 'c) \<Rightarrow> ('x \<Rightarrow> 'c \<Rightarrow> 'c) \<Rightarrow>
     ('k, 'v, 'o, 'x) cache_op list \<Rightarrow> 'c \<times> ('k \<rightharpoonup> 'v) \<Rightarrow> 'c \<times> ('k \<rightharpoonup> 'v)" where
  "cache_run get put del other [] st = st"
| "cache_run get put del other (OpGet k # ops) (c, m) =
     cache_run get put del other ops (snd (get k c), m)"
| "cache_run get put del other (OpSet k v o' # ops) (c, m) =
     (let (b, c') = put k v o' c in
      cache_run get put del other ops (c', if b then m(k \<mapsto> v) else m))"
| "cache_run get put del other (OpDelete k # ops) (c, m) =
     cache_run get put del other ops (del k c, m(k := None))"
| "cache_run get put del other (OpOther x # ops) (c, m) =
     cache_run get put del other ops (other x c, m)"

locale cache =
  fixes ok :: "'c \<Rightarrow> bool"
    and lookup :: "'c \<Rightarrow> 'k \<rightharpoonup> 'v"
    and get :: "'k \<Rightarrow> 'c \<Rightarrow> 'v option \<times> 'c"
    and put :: "'k \<Rightarrow> 'v \<Rightarrow> 'o \<Rightarrow> 'c \<Rightarrow> bool \<times> 'c"
    and del :: "'k \<Rightarrow> 'c \<Rightarrow> 'c"
    and has :: "'k \<Rightarrow> 'c \<Rightarrow> bool"
    and other :: "'x \<Rightarrow> 'c \<Rightarrow> 'c"
  assumes get_ok: "ok c \<Longrightarrow> ok (snd (get k c))"
    and get_lookup: "ok c \<Longrightarrow> fst (get k c) = lookup c k"
    and get_keeps: "ok c \<Longrightarrow> lookup (snd (get k c)) = lookup c"
    and put_ok: "ok c \<Longrightarrow> ok (snd (put k v o' c))"
    and put_refused: "ok c \<Longrightarrow> \<not> fst (put k v o' c) \<Longrightarrow> snd (put k v o' c) = c"
    and put_lookup: "ok c \<Longrightarrow> fst (put k v o' c) \<Longrightarrow> lookup (snd (put k v o' c)) \<subseteq>\<^sub>m (lookup c)(k \<mapsto> v)"
    and del_ok: "ok c \<Longrightarrow> ok (del k c)"
    and del_lookup: "ok c \<Longrightarrow> lookup (del k c) = (lookup c)(k := None)"
    and has_lookup: "ok c \<Longrightarrow> has k c \<longleftrightarrow> lookup c k \<noteq> None"
    and other_ok: "ok c \<Longrightarrow> ok (other x c)"
    and other_lookup: "ok c \<Longrightarrow> lookup (other x c) \<subseteq>\<^sub>m lookup c"
begin

lemma put_le:
  assumes "ok c" and "lookup c \<subseteq>\<^sub>m m"
  shows "lookup (snd (put k v o' c)) \<subseteq>\<^sub>m (if fst (put k v o' c) then m(k \<mapsto> v) else m)"
proof (cases "fst (put k v o' c)")
  case True
  have "(lookup c)(k \<mapsto> v) \<subseteq>\<^sub>m m(k \<mapsto> v)"
    using assms(2) by (auto simp: map_le_def)
  with put_lookup [OF assms(1) True] True show ?thesis
    by (auto intro: map_le_trans)
next
  case False
  with put_refused [OF assms(1)] assms(2) show ?thesis by simp
qed

lemma run_le:
  assumes "ok c" and "lookup c \<subseteq>\<^sub>m m"
  shows "ok (fst (cache_run get put del other ops (c, m))) \<and>
    lookup (fst (cache_run get put del other ops (c, m))) \<subseteq>\<^sub>m snd (cache_run get put del other ops (c, m))"
  using assms
proof (induction ops arbitrary: c m)
  case (Cons a ops)
  show ?case
  proof (cases a)
    case (OpGet k)
    with Cons show ?thesis by (simp add: get_ok get_keeps)
  next
    case (OpSet k v o')
    with Cons put_ok [OF Cons.prems(1)] put_le [OF Cons.prems] show ?thesis
      by (simp add: case_prod_beta Let_def)
  next
    case (OpDelete k)
    have "lookup (del k c) \<subseteq>\<^sub>m m(k := None)"
      using Cons.prems by (auto simp: del_lookup map_le_def)
    from Cons.IH [OF del_ok [OF Cons.prems(1)] this] show ?thesis
      unfolding OpDelete by (simp only: cache_run.simps)
  next
    case (OpOther x)
    have "lookup (other x c) \<subseteq>\<^sub>m m"
      using other_lookup [OF Cons.prems(1)] Cons.prems(2) by (rule map_le_trans)
    from Cons.IH [OF other_ok [OF Cons.prems(1)] this] OpOther show ?thesis by simp
  qed
qed simp

lemma run_ok:
  "ok c \<Longrightarrow> ok (fst (cache_run get put del other ops (c, m)))"
proof (induction ops arbitrary: c m)
  case (Cons a ops)
  then show ?case
    by (cases a) (simp_all add: get_ok put_ok del_ok other_ok case_prod_beta Let_def)
qed simp

lemma get_not_stale:
  assumes "ok c" and "lookup c \<subseteq>\<^sub>m m" and "cache_run get put del other ops (c, m) = (c', m')"
    and "fst (get k c') = Some v"
  shows "m' k = Some v"
proof -
  have c': "ok c'" "lookup c' \<subseteq>\<^sub>m m'"
    using run_le [OF assms(1,2), of ops] assms(3) by simp_all
  then have "lookup c' k = Some v"
    using assms(4) by (simp add: get_lookup)
  with c'(2) show ?thesis by (rule map_leD)
qed

lemma has_iff_get:
  "ok c \<Longrightarrow> has k c \<longleftrightarrow> fst (get k c) \<noteq> None"
  by (simp add: has_lookup get_lookup)

end

section \<open>The LRU cache refines a bounded association list\<close>

definition rem :: "'k \<Rightarrow> ('k \<times> 'v) list \<Rightarrow> ('k \<times> 'v) list" where
  "rem k l = filter (\<lambda>p. fst p \<noteq> k) l"

definition spec_get :: "'k \<Rightarrow> ('k \<times> 'v) list \<Rightarrow> 'v option \<times> ('k \<times> 'v) list" where
  "spec_get k l = (map_of l k, case map_of l k of None \<Rightarrow> l | Some v \<Rightarrow> (k, v) # rem k l)"

definition spec_set ::
    "int \<Rightarrow> options \<Rightarrow> 'k \<Rightarrow> 'v \<Rightarrow> ('k \<times> 'v) list \<Rightarrow> bool \<times> ('k \<times> 'v) list \<times> ('k \<times> 'v) list" where
  "spec_set cap opts k v l =
     (case map_of l k of
        Some v0 \<Rightarrow> if opt_skipExisting opts then (False, l, []) else (True, (k, v) # rem k l, [(k, v0)])
      | None \<Rightarrow>
          if opt_updateExistingOnly opts then (False, l, [])
          else if int (length l) + 1 > cap then (True, butlast ((k, v) # l), [last ((k, v) # l)])
          else (True, (k, v) # l, []))"

definition spec_delete :: "'k \<Rightarrow> ('k \<times> 'v) list \<Rightarrow> ('k \<times> 'v) list \<times> ('k \<times> 'v) list" where
  "spec_delete k l = (rem k l, case map_of l k of None \<Rightarrow> [] | Some v \<Rightarrow> [(k, v)])"

definition kv :: "('k, 'v) lruShardNode \<Rightarrow> nat \<Rightarrow> 'k \<times> 'v" where
  "kv s e = (entry_key (deref s e), entry_value (deref s e))"

definition lru_abs :: "('k, 'v) lruShardNode \<Rightarrow> ('k \<times> 'v) list" where
  "lru_abs s = map (kv s) (ls_list s)"

definition lru_inv :: "('k, 'v) lruShardNode \<Rightarrow> bool" where
  "lru_inv s \<longleftrightarrow> distinct (ls_list s) \<and> list_all (\<lambda>e. e < ls_next s) (ls_list s) \<and>
     (\<forall>k e. ls_items s k = Some e \<longleftrightarrow> e \<in> set (ls_list s) \<and> fst (kv s e) = k) \<and>
     1 \<le> ls_capacity s \<and> int (length (ls_list s)) \<le> ls_capacity s"

lemma lru_inv_items:
  "lru_inv s \<Longrightarrow> ls_items s k = Some e \<longleftrightarrow> e \<in> set (ls_list s) \<and> fst (kv s e) = k"
  by (simp add: lru_inv_def)

lemma lru_inv_key_inj:
  assumes "lru_inv s" and "a \<in> set (ls_list s)" and "b \<in> set (ls_list s)" and "fst (kv s a) = fst (kv s b)"
  shows "a = b"
  using assms lru_inv_items [OF assms(1)] by (metis option.inject)

lemma distinct_keys_abs:
  assumes "lru_inv s"
  shows "distinct (map fst (lru_abs s))"
proof -
  have "inj_on (\<lambda>e. fst (kv s e)) (set (ls_list s))"
    using lru_inv_key_inj [OF assms] by (auto intro!: inj_onI)
  with assms show ?thesis
    by (simp add: lru_abs_def lru_inv_def distinct_map comp_def)
qed

lemma map_of_abs:
  assumes "lru_inv s"
  shows "map_of (lru_abs s) k = map_option (\<lambda>e. snd (kv s e)) (ls_items s k)"
proof (cases "ls_items s k")
  case None
  then have "list_all (\<lambda>e. fst (kv s e) \<noteq> k) (ls_list s)"
    using lru_inv_items [OF assms, of k] by (auto simp: list_all_iff)
  then have "k \<notin> fst ` set (lru_abs s)"
    by (simp add: lru_abs_def image_image) (auto simp: list_all_iff)
  with None show ?thesis by (simp add: map_of_eq_None_iff)
next
  case (Some e)
  then have "(k, snd (kv s e)) \<in> set (lru_abs s)"
    using lru_inv_items [OF assms, of k e] by (auto simp: lru_abs_def image_iff prod_eq_iff)
  then show ?thesis
    using Some distinct_keys_abs [OF assms] by simp
qed

lemma map_remove1_rem:
  assumes "distinct l" and "e \<in> set l" and "\<And>d. d \<in> set l \<Longrightarrow> fst (g d) = fst (g e) \<Longrightarrow> d = e"
  shows "map g (remove1 e l) = rem (fst (g e)) (map g l)"
proof -
  have "remove1 e l = filter (\<lambda>d. d \<noteq> e) l"
    using assms(1) by (simp add: distinct_remove1_removeAll removeAll_filter_not_eq eq_commute [of e])
  also have "map g \<dots> = rem (fst (g e)) (map g l)"
    using assms(3) by (auto simp: rem_def filter_map comp_def intro!: arg_cong [of _ _ "map g"] filter_cong)
  finally show ?thesis .
qed

lemma kv_cong [simp]:
  "kv (s\<lparr>ls_list := l\<rparr>) = kv s" "kv (s\<lparr>ls_items := it\<rparr>) = kv s" "kv (s\<lparr>ls_next := n\<rparr>) = kv s"
  by (simp_all add: kv_def deref_def fun_eq_iff)

lemma abs_remove1:
  assumes "lru_inv s" and "ls_items s k = Some e"
  shows "map (kv s) (remove1 e (ls_list s)) = rem k (lru_abs s)"
proof -
  have e: "e \<in> set (ls_list s)" "fst (kv s e) = k"
    using lru_inv_items [OF assms(1)] assms(2) by auto
  have "map (kv s) (remove1 e (ls_list s)) = rem (fst (kv s e)) (map (kv s) (ls_list s))"
    using lru_inv_key_inj [OF assms(1)] e(1) assms(1) by (intro map_remove1_rem) (auto simp: lru_inv_def)
  with e show ?thesis by (simp add: lru_abs_def)
qed


lemma MoveToFront_simps [simp]:
  "set (MoveToFront e l) = set l" "length (MoveToFront e l) = length l"
  "distinct l \<Longrightarrow> distinct (MoveToFront e l)"
proof -
  show "set (MoveToFront e l) = set l"
  proof (cases "e \<in> set l")
    case True
    then have "mset (MoveToFront e l) = mset l"
      by (simp add: MoveToFront_def)
    then show ?thesis by (rule mset_eq_setD)
  qed (simp add: MoveToFront_def)
  show "length (MoveToFront e l) = length l"
    by (auto simp: MoveToFront_def length_remove1 dest: length_pos_if_in_set)
  show "distinct l \<Longrightarrow> distinct (MoveToFront e l)"
    by (simp add: MoveToFront_def)
qed

lemma shard_Get_inv:
  assumes "lru_inv s"
  shows "lru_inv (snd (shard_Get k s))" and "ls_capacity (snd (shard_Get k s)) = ls_capacity s"
  using assms by (auto simp: shard_Get_def lru_inv_def list_all_iff split: option.splits)

lemma shard_Get_refines:
  assumes "lru_inv s"
  shows "(fst (shard_Get k s), lru_abs (snd (shard_Get k s))) = spec_get k (lru_abs s)"
proof (cases "ls_items s k")
  case None
  then show ?thesis
    by (simp add: shard_Get_def spec_get_def map_of_abs [OF assms])
next
  case (Some e)
  then have e: "e \<in> set (ls_list s)" "fst (kv s e) = k"
    using lru_inv_items [OF assms] by auto
  have "lru_abs (snd (shard_Get k s)) = kv s e # map (kv s) (remove1 e (ls_list s))"
    using Some e by (simp add: shard_Get_def lru_abs_def MoveToFront_def)
  moreover have "kv s e = (k, entry_value (deref s e))"
    using e(2) by (simp add: kv_def)
  ultimately show ?thesis
    using Some abs_remove1 [OF assms Some]
    by (simp add: shard_Get_def spec_get_def map_of_abs [OF assms])
qed

lemma kv_update:
  "kv (s\<lparr>ls_elems := (ls_elems s)(e \<mapsto> en)\<rparr>) d = (if d = e then (entry_key en, entry_value en) else kv s d)"
  by (simp add: kv_def deref_def)

lemma kv_fresh:
  assumes "lru_inv s" and "d \<in> set (ls_list s)"
  shows "kv (s\<lparr>ls_elems := (ls_elems s)(ls_next s \<mapsto> en)\<rparr>) d = kv s d"
  using assms by (auto simp: kv_update lru_inv_def list_all_iff)

text \<open>The three ways a \<open>Set\<close> changes a shard: update in place, push, and evict.\<close>

definition shard_update :: "nat \<Rightarrow> 'v \<Rightarrow> ('k, 'v) lruShardNode \<Rightarrow> ('k, 'v) lruShardNode" where
  "shard_update elem val s =
     s\<lparr>ls_elems := (ls_elems s)(elem \<mapsto> (deref s elem)\<lparr>entry_value := val\<rparr>),
       ls_list := MoveToFront elem (ls_list s)\<rparr>"

definition shard_push :: "'k \<Rightarrow> 'v \<Rightarrow> ('k, 'v) lruShardNode \<Rightarrow> ('k, 'v) lruShardNode" where
  "shard_push key val s =
     s\<lparr>ls_elems := (ls_elems s)(ls_next s \<mapsto> \<lparr>entry_key = key, entry_value = val\<rparr>),
       ls_next := Suc (ls_next s), ls_list := ls_next s # ls_list s,
       ls_items := (ls_items s)(key \<mapsto> ls_next s)\<rparr>"

definition shard_remove :: "nat \<Rightarrow> ('k, 'v) lruShardNode \<Rightarrow> ('k, 'v) lruShardNode" where
  "shard_remove e s =
     s\<lparr>ls_list := remove1 e (ls_list s), ls_items := (ls_items s)(entry_key (deref s e) := None)\<rparr>"

text \<open>The invariant without the bound, which a push may exceed by one until the eviction.\<close>

definition lru_inv0 :: "('k, 'v) lruShardNode \<Rightarrow> bool" where
  "lru_inv0 s \<longleftrightarrow> distinct (ls_list s) \<and> list_all (\<lambda>e. e < ls_next s) (ls_list s) \<and>
     (\<forall>k e. ls_items s k = Some e \<longleftrightarrow> e \<in> set (ls_list s) \<and> fst (kv s e) = k)"

lemma lru_inv_iff:
  "lru_inv s \<longleftrightarrow> lru_inv0 s \<and> 1 \<le> ls_capacity s \<and> int (length (ls_list s)) \<le> ls_capacity s"
  by (simp add: lru_inv_def lru_inv0_def)

lemma inv0_key_inj:
  assumes "lru_inv0 s" and "a \<in> set (ls_list s)" and "b \<in> set (ls_list s)" and "fst (kv s a) = fst (kv s b)"
  shows "a = b"
  using assms unfolding lru_inv0_def by (metis option.inject)

lemma shard_remove_inv0:
  assumes "lru_inv0 s" and "e \<in> set (ls_list s)"
  shows "lru_inv0 (shard_remove e s)"
proof -
  have d: "distinct (ls_list s)"
    using assms(1) by (simp add: lru_inv0_def)
  have "ls_items (shard_remove e s) k = Some x \<longleftrightarrow>
      x \<in> set (ls_list (shard_remove e s)) \<and> fst (kv (shard_remove e s) x) = k" for k x
    using assms inv0_key_inj [OF assms(1), of x e] d
    by (auto simp: shard_remove_def lru_inv0_def set_remove1_eq) (auto simp: kv_def)
  then show ?thesis
    using assms(1) d notin_set_remove1 [of _ "ls_list s" e]
    by (auto simp: lru_inv0_def shard_remove_def list_all_iff)
qed

lemma shard_push_inv0:
  assumes "lru_inv0 s" and "ls_items s k = None"
  shows "lru_inv0 (shard_push k v s)"
proof -
  have fresh: "ls_next s \<notin> set (ls_list s)"
    using assms(1) by (auto simp: lru_inv0_def list_all_iff)
  have kv: "kv (shard_push k v s) x = (if x = ls_next s then (k, v) else kv s x)" for x
    by (simp add: shard_push_def kv_def deref_def)
  have "ls_items (shard_push k v s) j = Some x \<longleftrightarrow>
      x \<in> set (ls_list (shard_push k v s)) \<and> fst (kv (shard_push k v s) x) = j" for j x
    unfolding kv using assms fresh by (auto simp: shard_push_def lru_inv0_def) (metis option.distinct(1))
  then show ?thesis
    using assms(1) fresh by (auto simp: lru_inv0_def shard_push_def list_all_iff)
qed

lemma shard_update_inv0:
  assumes "lru_inv0 s" and "e \<in> set (ls_list s)"
  shows "lru_inv0 (shard_update e v s)"
proof -
  have "fst (kv (shard_update e v s) x) = fst (kv s x)" for x
    by (simp add: shard_update_def kv_def deref_def)
  then show ?thesis
    using assms(1) by (auto simp: lru_inv0_def shard_update_def list_all_iff)
qed


lemma shard_Set_eq:
  "shard_Set opts k v s =
     (case ls_items s k of
        Some e \<Rightarrow> if opt_skipExisting opts then (False, s, []) else (True, shard_update e v s, [kv s e])
      | None \<Rightarrow>
          if opt_updateExistingOnly opts then (False, s, [])
          else
            let s1 = shard_push k v s; t = last (ls_list s1) in
            if int (length (ls_list s1)) > ls_capacity s then (True, shard_remove t s1, [kv s1 t])
            else (True, s1, []))"
  by (simp add: shard_Set_def shard_update_def shard_push_def shard_remove_def kv_def Let_def deref_def
      split: option.split)

lemma shard_Delete_eq:
  "shard_Delete k s = (case ls_items s k of Some e \<Rightarrow> (shard_remove e s, [kv s e]) | None \<Rightarrow> (s, []))"
  by (simp add: shard_Delete_def shard_remove_def kv_def Let_def split: option.split)

lemma shard_remove_length:
  "e \<in> set (ls_list s) \<Longrightarrow> length (ls_list (shard_remove e s)) = length (ls_list s) - 1"
  by (simp add: shard_remove_def length_remove1)

lemma shard_capacity [simp]:
  "ls_capacity (shard_push k v s) = ls_capacity s" "ls_capacity (shard_update e v s) = ls_capacity s"
  "ls_capacity (shard_remove e s) = ls_capacity s"
  by (simp_all add: shard_push_def shard_update_def shard_remove_def)

lemma shard_push_list [simp]: "ls_list (shard_push k v s) = ls_next s # ls_list s"
  by (simp add: shard_push_def)

lemma shard_update_list [simp]: "ls_list (shard_update e v s) = MoveToFront e (ls_list s)"
  by (simp add: shard_update_def)

lemma shard_Set_inv:
  assumes "lru_inv s"
  shows "lru_inv (fst (snd (shard_Set opts k v s)))"
    and "ls_capacity (fst (snd (shard_Set opts k v s))) = ls_capacity s"
proof -
  have s: "lru_inv0 s" "1 \<le> ls_capacity s" "int (length (ls_list s)) \<le> ls_capacity s"
    using assms by (simp_all add: lru_inv_iff)
  have mem: "ls_items s k = Some e \<Longrightarrow> e \<in> set (ls_list s)" for e
    using lru_inv_items [OF assms] by blast
  have "lru_inv (shard_update e v s)" if "ls_items s k = Some e" for e
    using shard_update_inv0 [OF s(1) mem [OF that]] s by (simp add: lru_inv_iff)
  moreover have "lru_inv0 (shard_push k v s)" if "ls_items s k = None"
    by (rule shard_push_inv0 [OF s(1) that])
  moreover have "lru_inv (shard_remove (last (ls_list (shard_push k v s))) (shard_push k v s))"
    if "ls_items s k = None"
  proof -
    have t: "last (ls_list (shard_push k v s)) \<in> set (ls_list (shard_push k v s))"
      by (rule last_in_set) simp
    show ?thesis
      using shard_remove_inv0 [OF shard_push_inv0 [OF s(1) that] t] shard_remove_length [OF t] s
      by (simp add: lru_inv_iff)
  qed
  ultimately show "lru_inv (fst (snd (shard_Set opts k v s)))"
    using assms s by (auto simp: shard_Set_eq lru_inv_iff Let_def split: option.splits)
  show "ls_capacity (fst (snd (shard_Set opts k v s))) = ls_capacity s"
    by (simp add: shard_Set_eq Let_def split: option.splits)
qed

lemma shard_Delete_inv:
  assumes "lru_inv s"
  shows "lru_inv (fst (shard_Delete k s))" and "ls_capacity (fst (shard_Delete k s)) = ls_capacity s"
proof -
  have "lru_inv (shard_remove e s)" if "ls_items s k = Some e" for e
  proof -
    have e: "e \<in> set (ls_list s)"
      using lru_inv_items [OF assms] that by blast
    with shard_remove_inv0 [OF _ e] shard_remove_length [OF e] assms show ?thesis
      by (auto simp: lru_inv_iff)
  qed
  then show "lru_inv (fst (shard_Delete k s))" "ls_capacity (fst (shard_Delete k s)) = ls_capacity s"
    using assms by (auto simp: shard_Delete_eq split: option.splits)
qed

lemma abs_push:
  assumes "lru_inv s"
  shows "lru_abs (shard_push k v s) = (k, v) # lru_abs s"
proof -
  have "kv (shard_push k v s) d = kv s d" if "d \<in> set (ls_list s)" for d
    using that assms by (auto simp: shard_push_def kv_def deref_def lru_inv_def list_all_iff)
  moreover have "kv (shard_push k v s) (ls_next s) = (k, v)"
    by (simp add: shard_push_def kv_def deref_def)
  ultimately show ?thesis by (simp add: lru_abs_def)
qed

lemma abs_update:
  assumes "lru_inv s" and "ls_items s k = Some e"
  shows "lru_abs (shard_update e v s) = (k, v) # rem k (lru_abs s)"
proof -
  have e: "e \<in> set (ls_list s)" "fst (kv s e) = k"
    using lru_inv_items [OF assms(1)] assms(2) by auto
  have kv: "kv (shard_update e v s) d = (if d = e then (k, v) else kv s d)" for d
    using e(2) by (auto simp: shard_update_def kv_def deref_def)
  have "distinct (ls_list s)"
    using assms(1) by (simp add: lru_inv_def)
  then have "lru_abs (shard_update e v s) = (k, v) # map (kv s) (remove1 e (ls_list s))"
    using e(1) by (auto simp: lru_abs_def MoveToFront_def kv)
  with abs_remove1 [OF assms] show ?thesis by simp
qed

lemma remove1_last:
  "distinct l \<Longrightarrow> l \<noteq> [] \<Longrightarrow> remove1 (last l) l = butlast l"
  by (induction l) auto

lemma shard_Set_refines:
  assumes "lru_inv s"
  shows "(case shard_Set opts k v s of (b, s', calls) \<Rightarrow> (b, lru_abs s', calls)) =
    spec_set (ls_capacity s) opts k v (lru_abs s)"
proof (cases "ls_items s k")
  case (Some e)
  then have "kv s e = (k, snd (kv s e))"
    using lru_inv_items [OF assms, of k e] by (simp add: prod_eq_iff)
  with Some abs_update [OF assms Some] show ?thesis
    by (simp add: shard_Set_eq spec_set_def map_of_abs [OF assms])
next
  case None
  define s1 where "s1 = shard_push k v s"
  have "distinct (ls_list s1)"
    using shard_push_inv0 [OF _ None] assms unfolding s1_def lru_inv_iff lru_inv0_def by blast
  then have "lru_abs (shard_remove (last (ls_list s1)) s1) = butlast (lru_abs s1)"
    using remove1_last [of "ls_list s1"]
    by (simp add: lru_abs_def shard_remove_def map_butlast s1_def)
  moreover have "kv s1 (last (ls_list s1)) = last (lru_abs s1)"
    by (simp add: lru_abs_def last_map s1_def)
  moreover have "int (length (ls_list s1)) = int (length (lru_abs s)) + 1"
    by (simp add: s1_def lru_abs_def)
  moreover have "lru_abs s1 = (k, v) # lru_abs s"
    unfolding s1_def by (rule abs_push [OF assms])
  ultimately show ?thesis
    using None by (simp add: shard_Set_eq spec_set_def map_of_abs [OF assms] Let_def s1_def [symmetric])
qed

lemma shard_Delete_refines:
  assumes "lru_inv s"
  shows "(case shard_Delete k s of (s', calls) \<Rightarrow> (lru_abs s', calls)) = spec_delete k (lru_abs s)"
proof (cases "ls_items s k")
  case (Some e)
  then have "kv s e = (k, snd (kv s e))"
    using lru_inv_items [OF assms, of k e] by (simp add: prod_eq_iff)
  moreover have "lru_abs (shard_remove e s) = rem k (lru_abs s)"
    using abs_remove1 [OF assms Some] by (simp add: lru_abs_def shard_remove_def)
  ultimately show ?thesis
    using Some by (simp add: shard_Delete_eq spec_delete_def map_of_abs [OF assms])
next
  case None
  then have "map_of (lru_abs s) k = None"
    by (simp add: map_of_abs [OF assms])
  moreover have "rem k (lru_abs s) = lru_abs s"
    using calculation by (auto simp: rem_def map_of_eq_None_iff filter_id_conv)
  ultimately show ?thesis
    using None by (simp add: shard_Delete_eq spec_delete_def)
qed


subsection \<open>The observable map of the specification\<close>

lemma map_of_rem [simp]: "map_of (rem k l) = (map_of l)(k := None)"
  by (induction l) (auto simp: rem_def fun_eq_iff)

lemma map_of_spec_get [simp]: "map_of (snd (spec_get k l)) = map_of l"
  by (auto simp: spec_get_def fun_eq_iff split: option.splits)

lemma map_of_butlast: "map_of (butlast l) k = Some v \<Longrightarrow> map_of l k = Some v"
  by (induction l) (auto split: if_splits)

lemma spec_set_lookup:
  assumes "spec_set cap opts k v l = (b, l', calls)"
  shows "b \<Longrightarrow> map_of l' \<subseteq>\<^sub>m (map_of l)(k \<mapsto> v)" and "\<not> b \<Longrightarrow> l' = l \<and> calls = []"
proof -
  have "map_of (butlast ((k, v) # l)) \<subseteq>\<^sub>m (map_of l)(k \<mapsto> v)"
    using map_of_butlast [of "(k, v) # l"] by (intro map_leI) simp
  then show "b \<Longrightarrow> map_of l' \<subseteq>\<^sub>m (map_of l)(k \<mapsto> v)" "\<not> b \<Longrightarrow> l' = l \<and> calls = []"
    using assms by (auto simp: spec_set_def simp del: butlast.simps split: option.splits if_splits)
qed

lemma spec_set_stores:
  assumes "spec_set cap opts k v l = (True, l', calls)" and "1 \<le> cap"
  shows "\<exists>r. l' = (k, v) # r"
  using assms by (auto simp: spec_set_def split: option.splits if_splits)

section \<open>The LRU cache as a whole\<close>

definition lru_lookup :: "('k \<Rightarrow> bytes) \<Rightarrow> ('k, 'v) LRUCache \<Rightarrow> 'k \<rightharpoonup> 'v" where
  "lru_lookup Bytes c k = map_of (lru_abs (lru_shards c ! lru_shard Bytes c k)) k"

definition lru_ok :: "('k \<Rightarrow> bytes) \<Rightarrow> ('k, 'v) LRUCache \<Rightarrow> bool" where
  "lru_ok Bytes c \<longleftrightarrow> unat (lru_mask c) < length (lru_shards c) \<and> list_all lru_inv (lru_shards c) \<and>
     (\<forall>i < length (lru_shards c). \<forall>k.
        map_of (lru_abs (lru_shards c ! i)) k \<noteq> None \<longrightarrow> lru_shard Bytes c k = i)"

lemma lru_shard_less:
  assumes "lru_ok Bytes c"
  shows "lru_shard Bytes c k < length (lru_shards c)"
proof -
  have "fnv1aBytes (Bytes k) AND lru_mask c \<le> lru_mask c"
    by (simp add: word_and_le1)
  then show ?thesis
    using assms by (simp add: lru_shard_def lru_ok_def word_le_nat_alt)
qed

lemma lru_ok_inv: "lru_ok Bytes c \<Longrightarrow> lru_inv (lru_shards c ! lru_shard Bytes c k)"
  using lru_shard_less [of Bytes c k] unfolding lru_ok_def list_all_length by blast

lemma lru_shard_update [simp]: "lru_shard Bytes (c\<lparr>lru_shards := ss\<rparr>) k = lru_shard Bytes c k"
  by (simp add: lru_shard_def)

lemma lru_update_lookup:
  assumes "lru_ok Bytes c" and "i = lru_shard Bytes c k"
  shows "lru_lookup Bytes (c\<lparr>lru_shards := (lru_shards c)[i := s]\<rparr>) j =
    (if lru_shard Bytes c j = i then map_of (lru_abs s) j else lru_lookup Bytes c j)"
  using lru_shard_less [OF assms(1), of k] assms(2) by (simp add: lru_lookup_def)

lemma lru_lookup_at:
  "lru_shard Bytes c j = i \<Longrightarrow> lru_lookup Bytes c j = map_of (lru_abs (lru_shards c ! i)) j"
  by (simp add: lru_lookup_def)

lemma lru_update_ok:
  assumes "lru_ok Bytes c" and "i = lru_shard Bytes c k" and "lru_inv s"
    and "dom (map_of (lru_abs s)) \<subseteq> insert k (dom (map_of (lru_abs (lru_shards c ! i))))"
  shows "lru_ok Bytes (c\<lparr>lru_shards := (lru_shards c)[i := s]\<rparr>)"
proof -
  have i: "i < length (lru_shards c)"
    using lru_shard_less [OF assms(1), of k] assms(2) by simp
  have "lru_shard Bytes c j = i" if w: "map_of (lru_abs s) j = Some w" for j w
  proof (cases "j = k")
    case False
    have "j \<in> dom (map_of (lru_abs s))"
      using w by (rule domI)
    with False obtain w' where "map_of (lru_abs (lru_shards c ! i)) j = Some w'"
      using assms(4) by blast
    with assms(1) i show ?thesis by (auto simp: lru_ok_def)
  qed (use assms(2) in simp)
  then show ?thesis
    using assms(1,3) i by (auto simp: lru_ok_def list_all_length nth_list_update)
qed

lemma shard_Get_lookup:
  assumes "lru_inv s"
  shows "fst (shard_Get k s) = map_of (lru_abs s) k"
    and "map_of (lru_abs (snd (shard_Get k s))) = map_of (lru_abs s)"
proof -
  note e = shard_Get_refines [OF assms, of k, symmetric]
  show "fst (shard_Get k s) = map_of (lru_abs s) k"
    using arg_cong [OF e, of fst] by (simp add: spec_get_def)
  show "map_of (lru_abs (snd (shard_Get k s))) = map_of (lru_abs s)"
    using map_of_spec_get [of k "lru_abs s"] unfolding e by simp
qed

lemma shard_Set_lookup:
  assumes "lru_inv s"
  shows "fst (shard_Set opts k v s) \<Longrightarrow>
      map_of (lru_abs (fst (snd (shard_Set opts k v s)))) \<subseteq>\<^sub>m (map_of (lru_abs s))(k \<mapsto> v)"
    and "\<not> fst (shard_Set opts k v s) \<Longrightarrow> fst (snd (shard_Set opts k v s)) = s"
    and "fst (shard_Set opts k v s) \<Longrightarrow> map_of (lru_abs (fst (snd (shard_Set opts k v s)))) k = Some v"
proof -
  obtain b s' calls where e: "shard_Set opts k v s = (b, s', calls)"
    by (metis prod.exhaust)
  have sp: "spec_set (ls_capacity s) opts k v (lru_abs s) = (b, lru_abs s', calls)"
    using shard_Set_refines [OF assms, of opts k v] e by simp
  show "fst (shard_Set opts k v s) \<Longrightarrow>
      map_of (lru_abs (fst (snd (shard_Set opts k v s)))) \<subseteq>\<^sub>m (map_of (lru_abs s))(k \<mapsto> v)"
    using spec_set_lookup(1) [OF sp] e by simp
  show "fst (shard_Set opts k v s) \<Longrightarrow> map_of (lru_abs (fst (snd (shard_Set opts k v s)))) k = Some v"
    using spec_set_stores [of "ls_capacity s" opts k v "lru_abs s" "lru_abs s'" calls] sp e assms
    by (auto simp: lru_inv_def)
  show "\<not> fst (shard_Set opts k v s) \<Longrightarrow> fst (snd (shard_Set opts k v s)) = s"
    by (auto simp: shard_Set_eq Let_def split: option.splits if_splits)
qed

lemma shard_Delete_lookup:
  assumes "lru_inv s"
  shows "map_of (lru_abs (fst (shard_Delete k s))) = (map_of (lru_abs s))(k := None)"
  using shard_Delete_refines [OF assms, of k] by (simp add: spec_delete_def case_prod_beta)


lemma LRU_Get_eqs:
  assumes "lru_ok Bytes c"
  shows "fst (LRU_Get Bytes k c) = lru_lookup Bytes c k"
    and "lru_lookup Bytes (snd (LRU_Get Bytes k c)) = lru_lookup Bytes c"
    and "lru_ok Bytes (snd (LRU_Get Bytes k c))"
proof -
  define i where "i = lru_shard Bytes c k"
  note inv = lru_ok_inv [OF assms, of k]
  have e: "LRU_Get Bytes k c = (fst (shard_Get k (lru_shards c ! i)),
      c\<lparr>lru_shards := (lru_shards c)[i := snd (shard_Get k (lru_shards c ! i))]\<rparr>)"
    by (simp add: LRU_Get_def i_def case_prod_beta Let_def)
  show "fst (LRU_Get Bytes k c) = lru_lookup Bytes c k"
    using shard_Get_lookup(1) [OF inv, of k] by (simp add: e lru_lookup_def i_def)
  show "lru_lookup Bytes (snd (LRU_Get Bytes k c)) = lru_lookup Bytes c"
    using shard_Get_lookup(2) [OF inv, of k, folded i_def]
    by (auto simp: e fun_eq_iff lru_update_lookup [OF assms i_def] lru_lookup_at)
  show "lru_ok Bytes (snd (LRU_Get Bytes k c))"
    unfolding e snd_conv
    by (rule lru_update_ok [OF assms i_def shard_Get_inv(1) [OF inv [folded i_def]]])
      (auto simp: shard_Get_lookup(2) [OF inv, of k, folded i_def])
qed

lemma LRU_Set_eqs:
  assumes "lru_ok Bytes c"
  shows "lru_ok Bytes (fst (snd (LRU_Set Bytes k v o' c)))"
    and "\<not> fst (LRU_Set Bytes k v o' c) \<Longrightarrow> fst (snd (LRU_Set Bytes k v o' c)) = c"
    and "fst (LRU_Set Bytes k v o' c) \<Longrightarrow>
      lru_lookup Bytes (fst (snd (LRU_Set Bytes k v o' c))) \<subseteq>\<^sub>m (lru_lookup Bytes c)(k \<mapsto> v)"
    and "fst (LRU_Set Bytes k v o' c) \<Longrightarrow> lru_lookup Bytes (fst (snd (LRU_Set Bytes k v o' c))) k = Some v"
proof -
  define i where "i = lru_shard Bytes c k"
  define r where "r = shard_Set (optsOrDefault o') k v (lru_shards c ! i)"
  note inv = lru_ok_inv [OF assms, of k, folded i_def]
  have e: "fst (LRU_Set Bytes k v o' c) = fst r"
      "fst (snd (LRU_Set Bytes k v o' c)) = c\<lparr>lru_shards := (lru_shards c)[i := fst (snd r)]\<rparr>"
    by (simp_all add: LRU_Set_def i_def r_def case_prod_beta Let_def)
  note lk = shard_Set_lookup [OF inv, of "optsOrDefault o'" k v, folded r_def]
  show refused: "\<not> fst (LRU_Set Bytes k v o' c) \<Longrightarrow> fst (snd (LRU_Set Bytes k v o' c)) = c"
    using lk(2) by (simp add: e)
  show "fst (LRU_Set Bytes k v o' c) \<Longrightarrow>
      lru_lookup Bytes (fst (snd (LRU_Set Bytes k v o' c))) \<subseteq>\<^sub>m (lru_lookup Bytes c)(k \<mapsto> v)"
  proof (intro map_leI)
    fix j w
    assume "fst (LRU_Set Bytes k v o' c)" and "lru_lookup Bytes (fst (snd (LRU_Set Bytes k v o' c))) j = Some w"
    then show "((lru_lookup Bytes c)(k \<mapsto> v)) j = Some w"
      using map_leD [OF lk(1), of j w]
      by (auto simp: e lru_update_lookup [OF assms i_def] lru_lookup_at i_def [symmetric] split: if_splits)
  qed
  show "fst (LRU_Set Bytes k v o' c) \<Longrightarrow> lru_lookup Bytes (fst (snd (LRU_Set Bytes k v o' c))) k = Some v"
    using lk(3) by (simp add: e lru_update_lookup [OF assms i_def]) (simp add: i_def)
  show "lru_ok Bytes (fst (snd (LRU_Set Bytes k v o' c)))"
  proof (cases "fst r")
    case True
    show ?thesis
      unfolding e using lru_update_ok [OF assms i_def, of "fst (snd r)"] map_le_implies_dom_le [OF lk(1) [OF True]]
        shard_Set_inv(1) [OF inv, of "optsOrDefault o'" k v, folded r_def] by simp
  qed (use refused e assms in simp)
qed

lemma LRU_Delete_eqs:
  assumes "lru_ok Bytes c"
  shows "lru_lookup Bytes (fst (LRU_Delete Bytes k c)) = (lru_lookup Bytes c)(k := None)"
    and "lru_ok Bytes (fst (LRU_Delete Bytes k c))"
proof -
  define i where "i = lru_shard Bytes c k"
  note inv = lru_ok_inv [OF assms, of k, folded i_def]
  have e: "fst (LRU_Delete Bytes k c) =
      c\<lparr>lru_shards := (lru_shards c)[i := fst (shard_Delete k (lru_shards c ! i))]\<rparr>"
    by (simp add: LRU_Delete_def i_def case_prod_beta Let_def)
  note lk = shard_Delete_lookup [OF inv, of k]
  show "lru_lookup Bytes (fst (LRU_Delete Bytes k c)) = (lru_lookup Bytes c)(k := None)"
    by (auto simp: e fun_eq_iff lru_update_lookup [OF assms i_def] lk lru_lookup_at) (simp add: i_def)
  show "lru_ok Bytes (fst (LRU_Delete Bytes k c))"
    unfolding e by (rule lru_update_ok [OF assms i_def shard_Delete_inv(1) [OF inv]]) (auto simp: lk)
qed

lemma LRU_Has_lookup:
  "lru_ok Bytes c \<Longrightarrow> LRU_Has Bytes k c \<longleftrightarrow> lru_lookup Bytes c k \<noteq> None"
  using map_of_abs [OF lru_ok_inv, of Bytes c k] by (simp add: LRU_Has_def lru_lookup_def)

definition LRU_put :: "('k \<Rightarrow> bytes) \<Rightarrow> 'k \<Rightarrow> 'v \<Rightarrow> options option \<Rightarrow> ('k, 'v) LRUCache \<Rightarrow> bool \<times> ('k, 'v) LRUCache" where
  "LRU_put Bytes k v o' c = (fst (LRU_Set Bytes k v o' c), fst (snd (LRU_Set Bytes k v o' c)))"

definition LRU_del :: "('k \<Rightarrow> bytes) \<Rightarrow> 'k \<Rightarrow> ('k, 'v) LRUCache \<Rightarrow> ('k, 'v) LRUCache" where
  "LRU_del Bytes k c = fst (LRU_Delete Bytes k c)"

interpretation lru: cache "lru_ok Bytes" "lru_lookup Bytes" "LRU_Get Bytes" "LRU_put Bytes" "LRU_del Bytes"
    "LRU_Has Bytes" "\<lambda>(_ :: unit) c. c"
  for Bytes :: "'k \<Rightarrow> bytes"
  by unfold_locales
    (simp_all add: LRU_Get_eqs LRU_Set_eqs LRU_Delete_eqs LRU_Has_lookup LRU_put_def LRU_del_def)

lemma NewLRUCache_ok:
  fixes c :: "('k, 'v) LRUCache"
  assumes "NewLRUCache n total' b = Inr c" and "n < 2 ^ 63"
  shows "lru_ok Bytes c \<and> lru_lookup Bytes c = Map.empty"
proof -
  define cap where "cap = (if total' div n \<le> 0 then 1 else total' div n)"
  have n: "0 < n" and c: "c = \<lparr>lru_shards = replicate (nat n) (newShard cap), lru_mask = of_int (n - 1),
      lru_onInvalidate = b\<rparr>"
    using assms(1) by (auto simp: NewLRUCache_def cap_def Let_def split: if_splits)
  have m: "unat (lru_mask c) < nat n"
    using n assms(2) by (simp add: c unat_eq_nat_uint uint_word_of_int_eq take_bit_int_eq_self del: of_int_diff)
  have s: "lru_inv (newShard cap :: ('k, 'v) lruShardNode)" "lru_abs (newShard cap :: ('k, 'v) lruShardNode) = []"
    by (auto simp: lru_inv_def newShard_def lru_abs_def cap_def)
  have "lru_ok Bytes c"
    using m s by (simp add: lru_ok_def c list_all_length)
  moreover have "lru_lookup Bytes c k = None" for k
    using lru_shard_less [OF calculation, of k] s by (simp add: lru_lookup_def c)
  ultimately show ?thesis by auto
qed


subsection \<open>Recency\<close>

definition recency :: "'k \<Rightarrow> ('k \<times> 'v) list \<Rightarrow> nat" where
  "recency k l = length (takeWhile (\<lambda>p. fst p \<noteq> k) l)"

lemma recency_rem: "recency k (rem j l) \<le> recency k l" if "j \<noteq> k"
  using that by (induction l) (auto simp: recency_def rem_def)

lemma recency_Cons: "j \<noteq> k \<Longrightarrow> recency k ((j, w) # l) = Suc (recency k l)"
  by (simp add: recency_def)

lemma recency_butlast:
  "recency k l < length l - 1 \<Longrightarrow> recency k (butlast l) = recency k l \<and> map_of (butlast l) k = map_of l k"
  by (induction l) (auto simp: recency_def)

lemma spec_get_recency:
  "j \<noteq> k \<Longrightarrow> recency k (snd (spec_get j l)) \<le> Suc (recency k l)"
  using recency_rem [of j k l] by (auto simp: spec_get_def recency_Cons split: option.split)

lemma spec_set_recency:
  assumes "spec_set cap opts j w l = (b, l', calls)" and "j \<noteq> k" and "int (Suc (recency k l)) < cap"
    and "int (length l) \<le> cap"
  shows "recency k l' \<le> Suc (recency k l) \<and> map_of l' k = map_of l k"
proof -
  have "recency k (butlast ((j, w) # l)) = Suc (recency k l) \<and>
      map_of (butlast ((j, w) # l)) k = map_of ((j, w) # l) k" if "\<not> int (length l) + 1 \<le> cap"
    using recency_butlast [of k "(j, w) # l"] that assms(2-4) by (simp add: recency_Cons)
  then show ?thesis
    using assms(1,2) recency_rem [of j k l]
    by (auto simp: spec_set_def recency_Cons simp del: butlast.simps split: option.splits if_splits)
qed

fun op_key :: "('k, 'v, 'o, 'x) cache_op \<Rightarrow> 'k option" where
  "op_key (OpGet k) = Some k"
| "op_key (OpSet k v o') = Some k"
| "op_key (OpDelete k) = Some k"
| "op_key (OpOther x) = None"

definition home :: "('k \<Rightarrow> bytes) \<Rightarrow> ('k, 'v) LRUCache \<Rightarrow> 'k \<Rightarrow> ('k, 'v) lruShardNode" where
  "home Bytes c k = lru_shards c ! lru_shard Bytes c k"

lemma home_update:
  assumes "lru_ok Bytes c" and "i = lru_shard Bytes c j"
  shows "home Bytes (c\<lparr>lru_shards := (lru_shards c)[i := s]\<rparr>) k =
    (if lru_shard Bytes c k = i then s else home Bytes c k)"
  using lru_shard_less [OF assms(1), of j] assms(2) by (simp add: home_def)

lemma home_ops:
  assumes "lru_ok Bytes c"
  shows "home Bytes (snd (LRU_Get Bytes j c)) k =
      (if lru_shard Bytes c k = lru_shard Bytes c j then snd (shard_Get j (home Bytes c k)) else home Bytes c k)"
    and "home Bytes (snd (LRU_put Bytes j v o' c)) k =
      (if lru_shard Bytes c k = lru_shard Bytes c j
       then fst (snd (shard_Set (optsOrDefault o') j v (home Bytes c k))) else home Bytes c k)"
    and "home Bytes (LRU_del Bytes j c) k =
      (if lru_shard Bytes c k = lru_shard Bytes c j then fst (shard_Delete j (home Bytes c k)) else home Bytes c k)"
  using home_update [OF assms refl, of j]
  by (simp_all add: LRU_Get_def LRU_put_def LRU_Set_def LRU_del_def LRU_Delete_def Let_def case_prod_beta)
    (simp_all add: home_def)

text \<open>One operation on another key ages \<open>k\<close> by at most one place.\<close>

definition aged :: "'k \<Rightarrow> ('k, 'v) lruShardNode \<Rightarrow> ('k, 'v) lruShardNode \<Rightarrow> bool" where
  "aged k s s' \<longleftrightarrow> recency k (lru_abs s') \<le> Suc (recency k (lru_abs s)) \<and>
     map_of (lru_abs s') k = map_of (lru_abs s) k \<and> ls_capacity s' = ls_capacity s"

lemma aged_refl [simp]: "aged k s s"
  by (simp add: aged_def)

lemma aged_Get:
  assumes "lru_inv s" and "j \<noteq> k"
  shows "aged k s (snd (shard_Get j s))"
  using shard_Get_refines [OF assms(1), of j] spec_get_recency [OF assms(2), of "lru_abs s"]
    shard_Get_lookup(2) [OF assms(1), of j] shard_Get_inv(2) [OF assms(1), of j]
  by (auto simp: aged_def dest: arg_cong [of _ _ snd])

lemma aged_Set:
  assumes "lru_inv s" and "j \<noteq> k" and "int (Suc (recency k (lru_abs s))) < ls_capacity s"
  shows "aged k s (fst (snd (shard_Set opts j w s)))"
proof -
  obtain b s' calls where e: "shard_Set opts j w s = (b, s', calls)"
    by (metis prod.exhaust)
  have "spec_set (ls_capacity s) opts j w (lru_abs s) = (b, lru_abs s', calls)"
    using shard_Set_refines [OF assms(1), of opts j w] e by simp
  from spec_set_recency [OF this assms(2,3)] show ?thesis
    using assms(1) shard_Set_inv(2) [OF assms(1), of opts j w] e
    by (simp add: aged_def lru_inv_def lru_abs_def)
qed

lemma aged_Delete:
  assumes "lru_inv s" and "j \<noteq> k"
  shows "aged k s (fst (shard_Delete j s))"
  using shard_Delete_refines [OF assms(1), of j] recency_rem [OF assms(2), of "lru_abs s"] assms(2)
    shard_Delete_lookup [OF assms(1), of j] shard_Delete_inv(2) [OF assms(1), of j]
  by (auto simp: aged_def spec_delete_def case_prod_beta)

abbreviation "lru_run Bytes \<equiv> cache_run (LRU_Get Bytes) (LRU_put Bytes) (LRU_del Bytes) (\<lambda>(_ :: unit) c. c)"

lemma step_aged:
  assumes "lru_ok Bytes c" and "op_key op \<noteq> Some k"
    and "int (Suc (recency k (lru_abs (home Bytes c k)))) < ls_capacity (home Bytes c k)"
  shows "aged k (home Bytes c k) (home Bytes (fst (lru_run Bytes [op] (c, m))) k)"
proof -
  have inv: "lru_inv (home Bytes c k)"
    using lru_ok_inv [OF assms(1), of k] by (simp add: home_def)
  show ?thesis
    using assms(2) aged_Get [OF inv] aged_Set [OF inv _ assms(3)] aged_Delete [OF inv]
    by (cases op) (simp_all add: home_ops [OF assms(1)] case_prod_beta Let_def)
qed

lemma cache_run_Cons:
  "cache_run get put del other (op # ops) cm =
     cache_run get put del other ops (cache_run get put del other [op] cm)"
  by (cases cm; cases op) (simp_all add: Let_def case_prod_beta)

lemma run_keeps_recent:
  assumes "lru_ok Bytes c" and "list_all (\<lambda>op. op_key op \<noteq> Some k) ops"
    and "int (recency k (lru_abs (home Bytes c k)) + length ops) < ls_capacity (home Bytes c k)"
  shows "lru_lookup Bytes (fst (lru_run Bytes ops (c, m))) k = lru_lookup Bytes c k"
  using assms
proof (induction ops arbitrary: c m)
  case (Cons op ops)
  obtain c1 m1 where s: "lru_run Bytes [op] (c, m) = (c1, m1)"
    by (metis prod.exhaust)
  have ag: "aged k (home Bytes c k) (home Bytes c1 k)"
    using step_aged [of Bytes c op k m] Cons.prems s by simp
  have ok: "lru_ok Bytes c1"
    using lru.run_ok [OF Cons.prems(1), of "[op]" m] s by simp
  have "lru_lookup Bytes (fst (lru_run Bytes ops (c1, m1))) k = lru_lookup Bytes c1 k"
    using Cons.IH [OF ok] Cons.prems ag by (simp add: aged_def)
  also have "\<dots> = lru_lookup Bytes c k"
    using ag by (simp add: aged_def lru_lookup_def home_def)
  finally show ?case
    by (subst cache_run_Cons) (simp add: s)
qed simp


subsection \<open>Size\<close>

definition capacities :: "('k, 'v) LRUCache \<Rightarrow> int list" where
  "capacities c = map ls_capacity (lru_shards c)"

lemma capacities_update:
  assumes "lru_ok Bytes c" and "ls_capacity s = ls_capacity (lru_shards c ! lru_shard Bytes c k)"
  shows "capacities (c\<lparr>lru_shards := (lru_shards c)[lru_shard Bytes c k := s]\<rparr>) = capacities c"
  using lru_shard_less [OF assms(1), of k] assms(2)
  by (auto simp: capacities_def map_update intro!: list_update_same_conv [THEN iffD2])

lemma capacities_run:
  "lru_ok Bytes c \<Longrightarrow> capacities (fst (lru_run Bytes ops (c, m))) = capacities c"
proof (induction ops arbitrary: c m)
  case (Cons op ops)
  note inv = lru_ok_inv [OF Cons.prems]
  have g: "capacities (snd (LRU_Get Bytes k c)) = capacities c" for k
    by (simp add: LRU_Get_def case_prod_beta Let_def capacities_update [OF Cons.prems] shard_Get_inv(2) [OF inv])
  have p: "capacities (snd (LRU_put Bytes k v o' c)) = capacities c" for k v o'
    by (simp add: LRU_put_def LRU_Set_def case_prod_beta Let_def capacities_update [OF Cons.prems]
        shard_Set_inv(2) [OF inv])
  have d: "capacities (LRU_del Bytes k c) = capacities c" for k
    by (simp add: LRU_del_def LRU_Delete_def case_prod_beta Let_def capacities_update [OF Cons.prems]
        shard_Delete_inv(2) [OF inv])
  from Cons g p d show ?case
    by (cases op) (simp_all add: lru.get_ok lru.put_ok lru.del_ok case_prod_beta Let_def)
qed simp

lemma LRU_Size_le:
  assumes "lru_ok Bytes c"
  shows "int (LRU_Size c) \<le> sum_list (capacities c)"
proof -
  have "list_all lru_inv ss \<Longrightarrow> int (sum_list (map (\<lambda>s. length (ls_list s)) ss)) \<le> sum_list (map ls_capacity ss)"
    for ss :: "('a, 'b) lruShardNode list"
    by (induction ss) (auto simp: lru_inv_def)
  then show ?thesis
    using assms by (simp add: LRU_Size_def capacities_def lru_ok_def)
qed

subsection \<open>Properties of the LRU cache\<close>

text \<open>
  C7: each operation on a shard, which works on a hash map of pointers into a linked list, refines the
  same operation on a plain recency-ordered association list bounded by the capacity: the result, the
  entries reported to \<open>onInvalidate\<close> and the new contents agree (in particular the entry evicted is the
  least recently used one), and the pointer invariant is kept.
\<close>

theorem LRU_shard_refines:
  assumes "lru_inv s"
  shows "(case shard_Get k s of (r, s') \<Rightarrow> lru_inv s' \<and> spec_get k (lru_abs s) = (r, lru_abs s')) \<and>
    (case shard_Set opts k v s of (b, s', calls) \<Rightarrow>
      lru_inv s' \<and> spec_set (ls_capacity s) opts k v (lru_abs s) = (b, lru_abs s', calls)) \<and>
    (case shard_Delete k s of (s', calls) \<Rightarrow> lru_inv s' \<and> spec_delete k (lru_abs s) = (lru_abs s', calls))"
  using shard_Get_inv(1) [OF assms] shard_Get_refines [OF assms, of k] shard_Set_inv(1) [OF assms]
    shard_Set_refines [OF assms, of opts k v] shard_Delete_inv(1) [OF assms] shard_Delete_refines [OF assms, of k]
  by (simp add: case_prod_beta)

theorem LRU_shard_refines_witness:
  "case shard_Set Options (1 :: nat) True (newShard 1) of (b, s', calls) \<Rightarrow>
     lru_inv s' \<and> spec_set 1 Options 1 True [] = (b, lru_abs s', calls)"
proof -
  have "lru_inv (newShard 1 :: (nat, bool) lruShardNode)"
    by (simp add: lru_inv_def newShard_def)
  from LRU_shard_refines [OF this, of 1 Options True] show ?thesis
    by (simp add: newShard_def lru_abs_def)
qed

text \<open>
  Whatever operations are run on a new LRU cache, a value that \<open>Get\<close> returns for a key is the one
  that was last successfully set for it and not deleted since: eviction may lose entries, never mix
  them up, for every hash behaviour of the keys.
\<close>

lemma LRU_not_stale:
  assumes "NewLRUCache n total' b = Inr c" and "n < 2 ^ 63" and "lru_run Bytes ops (c, Map.empty) = (c', m)"
    and "fst (LRU_Get Bytes k c') = Some v"
  shows "m k = Some v"
  using lru.get_not_stale [OF _ _ assms(3,4)] NewLRUCache_ok [OF assms(1,2)] by simp

lemma LRU_not_stale_sample:
  "snd (lru_run (\<lambda>k. [k]) [OpSet 1 True None, OpSet 2 False None]
      (\<lparr>lru_shards = [newShard 1], lru_mask = 0, lru_onInvalidate = True\<rparr>, Map.empty)) (2 :: byte) = Some False"
proof -
  define c :: "(byte, bool) LRUCache" where
    "c = \<lparr>lru_shards = [newShard 1], lru_mask = 0, lru_onInvalidate = True\<rparr>"
  have new: "(NewLRUCache 1 1 True :: (unit, _) res) = Inr c"
    by (simp add: NewLRUCache_def c_def)
  have get: "fst (LRU_Get (\<lambda>k. [k]) 2 (fst (lru_run (\<lambda>k. [k]) [OpSet 1 True None, OpSet 2 False None]
      (c, Map.empty)))) = Some False"
    by (simp add: c_def LRU_put_def LRU_Set_def LRU_Get_def lru_shard_def newShard_def shard_Set_def shard_Get_def
        deref_def optsOrDefault_def Options_def)
  show ?thesis
    using LRU_not_stale [OF new _ prod.collapse [symmetric] get] unfolding c_def by simp
qed

text \<open>
  C8: an entry that was just set survives any sequence of operations on other keys that is shorter
  than the capacity of a shard.
\<close>

theorem LRU_recent_survives:
  assumes "lru_ok Bytes c" and "LRU_put Bytes k v o' c = (True, c1)"
    and "list_all (\<lambda>op. op_key op \<noteq> Some k) ops"
    and "int (length ops) < ls_capacity (lru_shards c1 ! lru_shard Bytes c1 k)"
  shows "fst (LRU_Get Bytes k (fst (lru_run Bytes ops (c1, m)))) = Some v"
proof -
  have ok: "lru_ok Bytes c1" and lk: "lru_lookup Bytes c1 k = Some v"
    using LRU_Set_eqs(1,4) [OF assms(1), of k v o'] assms(2) by (auto simp: LRU_put_def)
  obtain b s' calls where e: "shard_Set (optsOrDefault o') k v (home Bytes c k) = (b, s', calls)"
    by (metis prod.exhaust)
  have inv: "lru_inv (home Bytes c k)"
    using lru_ok_inv [OF assms(1)] by (simp add: home_def)
  have b: "b" and s': "home Bytes c1 k = s'"
    using home_ops(2) [OF assms(1), of k v o' k] assms(2) e
    by (auto simp: LRU_put_def LRU_Set_def Let_def home_def [symmetric])
  have "\<exists>r. lru_abs s' = (k, v) # r"
    using spec_set_stores [of "ls_capacity (home Bytes c k)" "optsOrDefault o'" k v "lru_abs (home Bytes c k)" "lru_abs s'" calls]
      shard_Set_refines [OF inv, of "optsOrDefault o'" k v] e b inv by (simp add: lru_inv_def)
  then have "recency k (lru_abs (home Bytes c1 k)) = 0"
    using s' by (auto simp: recency_def)
  then have "lru_lookup Bytes (fst (lru_run Bytes ops (c1, m))) k = Some v"
    using run_keeps_recent [OF ok assms(3), of m] assms(4) lk by (simp add: home_def)
  then show ?thesis
    using lru.get_lookup [OF lru.run_ok [OF ok]] by simp
qed

theorem LRU_recent_survives_witness:
  "fst (LRU_Get (\<lambda>k. [k]) (1 :: byte) (fst (lru_run (\<lambda>k. [k]) [OpSet 2 False None]
      (snd (LRU_put (\<lambda>k. [k]) 1 True None \<lparr>lru_shards = [newShard 2], lru_mask = 0, lru_onInvalidate = False\<rparr>),
       Map.empty)))) = Some True"
proof -
  define c :: "(byte, bool) LRUCache" where
    "c = \<lparr>lru_shards = [newShard 2], lru_mask = 0, lru_onInvalidate = False\<rparr>"
  have ok: "lru_ok (\<lambda>k. [k]) c"
    by (simp add: c_def lru_ok_def lru_inv_def newShard_def lru_abs_def)
  have put: "LRU_put (\<lambda>k. [k]) 1 True None c = (True, snd (LRU_put (\<lambda>k. [k]) 1 True None c))"
    and cap: "ls_capacity (lru_shards (snd (LRU_put (\<lambda>k. [k]) 1 True None c)) !
      lru_shard (\<lambda>k. [k]) (snd (LRU_put (\<lambda>k. [k]) 1 True None c)) 1) = 2"
    by (simp_all add: c_def LRU_put_def LRU_Set_def lru_shard_def newShard_def shard_Set_def optsOrDefault_def
        Options_def)
  show ?thesis
    using LRU_recent_survives [OF ok put, of "[OpSet 2 False None]" Map.empty] cap unfolding c_def by simp
qed

text \<open>
  C9: the cache never holds more than its shards allow: whatever is run on a cache made for \<open>total\<close>
  entries in \<open>n\<close> shards, the size is at most \<open>n * max 1 (total / n)\<close>, hence at most \<open>max n total\<close>.
\<close>

theorem LRU_size_bounded:
  assumes "NewLRUCache n total' b = Inr c" and "n < 2 ^ 63"
  shows "int (LRU_Size (fst (lru_run Bytes ops (c, m)))) \<le> n * max 1 (total' div n) \<and>
    n * max 1 (total' div n) \<le> max n total'"
proof -
  have n: "0 < n" and caps: "capacities c = replicate (nat n) (max 1 (total' div n))"
    using assms(1) by (auto simp: NewLRUCache_def capacities_def newShard_def Let_def max_def split: if_splits)
  have ok: "lru_ok Bytes c"
    using NewLRUCache_ok [OF assms] by blast
  have "sum_list (capacities c) = n * max 1 (total' div n)"
    using n by (simp add: caps sum_list_replicate)
  then have *: "int (LRU_Size (fst (lru_run Bytes ops (c, m)))) \<le> n * max 1 (total' div n)"
    using LRU_Size_le [OF lru.run_ok [OF ok]] capacities_run [OF ok] by metis
  have "n * (total' div n) \<le> total'"
    using n pos_mod_sign [of n total'] mult_div_mod_eq [of n total'] by linarith
  then show ?thesis
    using * by (auto simp: max_def)
qed

theorem LRU_size_bounded_witness:
  "int (LRU_Size (fst (lru_run (\<lambda>k. [k]) [OpSet (1 :: byte) True None]
      (\<lparr>lru_shards = [newShard 1], lru_mask = 0, lru_onInvalidate = True\<rparr>, Map.empty)))) \<le> 1"
proof -
  have "NewLRUCache 1 0 True = Inr \<lparr>lru_shards = [newShard 1], lru_mask = 0, lru_onInvalidate = True\<rparr>"
    by (simp add: NewLRUCache_def)
  from LRU_size_bounded [OF this, of "\<lambda>k. [k]" "[OpSet (1 :: byte) True None]" Map.empty] show ?thesis
    by simp
qed

section \<open>The TTL cache implements the interface over a clock\<close>

text \<open>The state a client sees is the clock with the cache; besides the calls, time passes and the janitor runs.\<close>

datatype ttl_ev = Tick nat | Cleanup

type_synonym ('k, 'v) ttl_state = "int \<times> ('k, 'v) TTLCache"

definition ttl_ok :: "('k, 'v) ttl_state \<Rightarrow> bool" where
  "ttl_ok st \<longleftrightarrow> ttl_shards (snd st) \<noteq> []"

definition live :: "int \<Rightarrow> 'v ttlCacheItem option \<Rightarrow> 'v option" where
  "live now oi = (case oi of None \<Rightarrow> None | Some i \<Rightarrow> if isExpired now i then None else Some (item_value i))"

definition ttl_lookup :: "('k \<Rightarrow> bytes) \<Rightarrow> ('k, 'v) ttl_state \<Rightarrow> 'k \<rightharpoonup> 'v" where
  "ttl_lookup Bytes st k = live (fst st) (TTL_read Bytes k (snd st))"

definition ttl_get :: "('k \<Rightarrow> bytes) \<Rightarrow> 'k \<Rightarrow> ('k, 'v) ttl_state \<Rightarrow> 'v option \<times> ('k, 'v) ttl_state" where
  "ttl_get Bytes k st = (let (r, c) = TTL_Get Bytes (fst st) k (snd st) in (r, fst st, c))"

definition ttl_put ::
    "('k \<Rightarrow> bytes) \<Rightarrow> 'k \<Rightarrow> 'v \<Rightarrow> options option \<Rightarrow> ('k, 'v) ttl_state \<Rightarrow> bool \<times> ('k, 'v) ttl_state" where
  "ttl_put Bytes k v o' st = (let (b, c) = TTL_Set Bytes (fst st) k v o' (snd st) in (b, fst st, c))"

definition ttl_del :: "('k \<Rightarrow> bytes) \<Rightarrow> 'k \<Rightarrow> ('k, 'v) ttl_state \<Rightarrow> ('k, 'v) ttl_state" where
  "ttl_del Bytes k st = (fst st, TTL_Delete Bytes k (snd st))"

definition ttl_has :: "('k \<Rightarrow> bytes) \<Rightarrow> 'k \<Rightarrow> ('k, 'v) ttl_state \<Rightarrow> bool" where
  "ttl_has Bytes k st = TTL_Has Bytes (fst st) k (snd st)"

fun ttl_event :: "ttl_ev \<Rightarrow> ('k, 'v) ttl_state \<Rightarrow> ('k, 'v) ttl_state" where
  "ttl_event (Tick d) (now, c) = (now + int d, c)"
| "ttl_event Cleanup (now, c) = (now, ForceCleanup now c)"

lemma getShard_less: "ttl_shards c \<noteq> [] \<Longrightarrow> getShard Bytes c k < length (ttl_shards c)"
  by (simp add: getShard_def)

lemma getShard_update [simp]:
  "getShard Bytes (c\<lparr>ttl_shards := (ttl_shards c)[i := s]\<rparr>) k = getShard Bytes c k"
  "getShard Bytes (ForceCleanup now c) k = getShard Bytes c k"
  by (simp_all add: getShard_def ForceCleanup_def)

lemma TTL_read_update:
  assumes "ttl_shards c \<noteq> []"
  shows "TTL_read Bytes j (c\<lparr>ttl_shards := (ttl_shards c)[getShard Bytes c k :=
      (ttl_shards c ! getShard Bytes c k)(k := x)]\<rparr>) = (if j = k then x else TTL_read Bytes j c)"
  using getShard_less [OF assms] by (auto simp: TTL_read_def nth_list_update)

lemma TTL_purge_read:
  assumes "ttl_shards c \<noteq> []"
  shows "TTL_read Bytes j (TTL_purge Bytes k i c) =
    (if j = k \<and> map_option item_expiresAt (TTL_read Bytes k c) = Some (item_expiresAt i) then None
     else TTL_read Bytes j c)"
proof -
  have "TTL_purge Bytes k i c = (if map_option item_expiresAt (TTL_read Bytes k c) = Some (item_expiresAt i)
      then c\<lparr>ttl_shards := (ttl_shards c)[getShard Bytes c k := (ttl_shards c ! getShard Bytes c k)(k := None)]\<rparr>
      else c)"
    by (simp add: TTL_purge_def TTL_read_def Let_def split: option.split)
  then show ?thesis
    using TTL_read_update [OF assms, of Bytes j k None] by (simp only: split: if_split) blast
qed

lemma TTL_Set_read:
  assumes "ttl_shards c \<noteq> []" and "TTL_Set Bytes now k v o' c = (True, c')"
  shows "TTL_read Bytes j c' =
    (if j = k then Some \<lparr>item_value = v, item_expiresAt = now + opt_ttl (optsOrDefault o')\<rparr> else TTL_read Bytes j c)"
  using assms TTL_read_update [OF assms(1)]
  by (auto simp: TTL_Set_def Let_def simp del: fun_upd_apply split: if_splits)

lemma TTL_Delete_read:
  "ttl_shards c \<noteq> [] \<Longrightarrow> TTL_read Bytes j (TTL_Delete Bytes k c) = (if j = k then None else TTL_read Bytes j c)"
  unfolding TTL_Delete_def Let_def by (rule TTL_read_update)

lemma ForceCleanup_read:
  assumes "ttl_shards c \<noteq> []"
  shows "TTL_read Bytes k (ForceCleanup now c) =
    (case TTL_read Bytes k c of None \<Rightarrow> None | Some i \<Rightarrow> if isExpired now i then None else Some i)"
  using getShard_less [OF assms, of Bytes k]
  by (auto simp: TTL_read_def ForceCleanup_def isExpired_def getShard_def split: option.splits)

lemma TTL_shards_nonempty:
  "ttl_shards c \<noteq> [] \<Longrightarrow> ttl_shards (snd (TTL_Set Bytes now k v o' c)) \<noteq> []"
  "ttl_shards c \<noteq> [] \<Longrightarrow> ttl_shards (snd (TTL_Get Bytes now k c)) \<noteq> []"
  "ttl_shards c \<noteq> [] \<Longrightarrow> ttl_shards (TTL_Delete Bytes k c) \<noteq> []"
  "ttl_shards c \<noteq> [] \<Longrightarrow> ttl_shards (ForceCleanup now c) \<noteq> []"
  by (auto simp: TTL_Set_def TTL_Get_def TTL_purge_def TTL_Delete_def ForceCleanup_def Let_def
      split: option.splits)

lemma isExpired_mono: "isExpired now i \<Longrightarrow> now \<le> now' \<Longrightarrow> isExpired now' i"
  by (simp add: isExpired_def)

lemma TTL_Set_refused: "\<not> fst (TTL_Set Bytes now k v o' c) \<Longrightarrow> snd (TTL_Set Bytes now k v o' c) = c"
  by (auto simp: TTL_Set_def Let_def split: if_splits)

lemma TTL_Get_lookup:
  assumes "ttl_shards c \<noteq> []"
  shows "fst (TTL_Get Bytes now k c) = live now (TTL_read Bytes k c)"
    and "live now (TTL_read Bytes j (snd (TTL_Get Bytes now k c))) = live now (TTL_read Bytes j c)"
  using TTL_purge_read [OF assms]
  by (auto simp: TTL_Get_def live_def split: option.splits if_splits)

interpretation ttl: cache ttl_ok "ttl_lookup Bytes" "ttl_get Bytes" "ttl_put Bytes" "ttl_del Bytes"
    "ttl_has Bytes" ttl_event
  for Bytes :: "'k \<Rightarrow> bytes"
proof
  fix st :: "('k, 'v) ttl_state" and k v o' x
  assume ok: "ttl_ok st"
  then have ne: "ttl_shards (snd st) \<noteq> []"
    by (simp add: ttl_ok_def)
  show "ttl_ok (snd (ttl_get Bytes k st))" "ttl_ok (snd (ttl_put Bytes k v o' st))" "ttl_ok (ttl_del Bytes k st)"
    using TTL_shards_nonempty [OF ne]
    by (simp_all add: ttl_ok_def ttl_get_def ttl_put_def ttl_del_def case_prod_beta Let_def)
  show "fst (ttl_get Bytes k st) = ttl_lookup Bytes st k"
    using TTL_Get_lookup(1) [OF ne] by (simp add: ttl_get_def ttl_lookup_def case_prod_beta Let_def)
  show "ttl_lookup Bytes (snd (ttl_get Bytes k st)) = ttl_lookup Bytes st"
    using TTL_Get_lookup(2) [OF ne] by (simp add: ttl_get_def ttl_lookup_def fun_eq_iff case_prod_beta Let_def)
  show "snd (ttl_put Bytes k v o' st) = st" if "\<not> fst (ttl_put Bytes k v o' st)"
    using TTL_Set_refused [of Bytes "fst st" k v o' "snd st"] that
    by (simp add: ttl_put_def case_prod_beta Let_def)
  show "ttl_lookup Bytes (snd (ttl_put Bytes k v o' st)) \<subseteq>\<^sub>m (ttl_lookup Bytes st)(k \<mapsto> v)"
    if t: "fst (ttl_put Bytes k v o' st)"
  proof -
    obtain c' where s: "TTL_Set Bytes (fst st) k v o' (snd st) = (True, c')"
      using t by (auto simp: ttl_put_def Let_def split: prod.splits)
    show ?thesis
      by (intro map_leI)
        (auto simp: ttl_put_def s ttl_lookup_def TTL_Set_read [OF ne s] live_def split: if_splits option.splits)
  qed
  show "ttl_lookup Bytes (ttl_del Bytes k st) = (ttl_lookup Bytes st)(k := None)"
    by (simp add: ttl_del_def ttl_lookup_def TTL_Delete_read [OF ne] fun_eq_iff live_def)
  show "ttl_has Bytes k st \<longleftrightarrow> ttl_lookup Bytes st k \<noteq> None"
    by (simp add: ttl_has_def TTL_Has_def ttl_lookup_def live_def split: option.splits)
  show "ttl_ok (ttl_event x st)"
    using TTL_shards_nonempty(4) [OF ne] ne by (cases st; cases x) (simp_all add: ttl_ok_def)
  show "ttl_lookup Bytes (ttl_event x st) \<subseteq>\<^sub>m ttl_lookup Bytes st"
  proof (cases x)
    case (Tick d)
    then show ?thesis
      by (cases st) (auto simp: ttl_lookup_def live_def isExpired_def intro!: map_leI split: option.splits if_splits)
  next
    case Cleanup
    then show ?thesis
      using ForceCleanup_read [OF ne]
      by (cases st) (auto simp: ttl_lookup_def live_def intro!: map_leI split: option.splits if_splits)
  qed
qed

abbreviation "ttl_run Bytes \<equiv> cache_run (ttl_get Bytes) (ttl_put Bytes) (ttl_del Bytes) ttl_event"


subsection \<open>Properties of the TTL cache\<close>

text \<open>
  A value that the TTL cache returns is the one last successfully set for its key and not deleted
  since, whatever calls were made, however much time passed and whenever the janitor ran.
\<close>

lemma TTL_not_stale:
  assumes "NewTTLCache n = Inr c" and "ttl_run Bytes ops ((now, c), Map.empty) = (st, m)"
    and "fst (ttl_get Bytes k st) = Some v"
  shows "m k = Some v"
proof (rule ttl.get_not_stale [OF _ _ assms(2,3)])
  have c: "ttl_shards c = replicate (unat n) Map.empty" "n \<noteq> 0"
    using assms(1) by (auto simp: NewTTLCache_def split: if_splits)
  then show "ttl_ok (now, c)"
    by (simp add: ttl_ok_def unat_gt_0)
  then have "getShard Bytes c k < unat n" for k
    using getShard_less [of c Bytes k] c by (simp add: ttl_ok_def)
  then show "ttl_lookup Bytes (now, c) \<subseteq>\<^sub>m Map.empty"
    by (auto simp: ttl_lookup_def TTL_read_def c live_def intro!: map_leI)
qed

lemma TTL_not_stale_sample:
  "snd (ttl_run (\<lambda>k. [k]) [OpSet 1 True (Some (WithTTL 10 Options)), OpOther (Tick 3), OpOther Cleanup]
      ((5, \<lparr>ttl_shards = [Map.empty]\<rparr>), Map.empty)) (1 :: byte) = Some True"
proof -
  have new: "(NewTTLCache 1 :: (unit, _) res) = Inr \<lparr>ttl_shards = [Map.empty]\<rparr>"
    by (simp add: NewTTLCache_def)
  have get: "fst (ttl_get (\<lambda>k. [k]) 1 (fst (ttl_run (\<lambda>k. [k])
      [OpSet 1 True (Some (WithTTL 10 Options)), OpOther (Tick 3), OpOther Cleanup]
      ((5, \<lparr>ttl_shards = [Map.empty]\<rparr>), Map.empty)))) = Some True"
    by (simp add: ttl_put_def TTL_Set_def ttl_get_def TTL_Get_def TTL_read_def getShard_def optsOrDefault_def
        WithTTL_def Options_def ForceCleanup_def isExpired_def)
  show ?thesis
    by (rule TTL_not_stale [OF new prod.collapse [symmetric] get])
qed

text \<open>
  C10: the lifetime of an entry. An item set at time \<open>t\<close> with a nonzero TTL \<open>d\<close> is returned by \<open>Get\<close> and
  reported by \<open>Has\<close> at a later time \<open>now\<close> exactly when \<open>now \<le> t + d\<close> (or \<open>t + d\<close> is the reserved value 0);
  a TTL of zero stores nothing.
\<close>

theorem TTL_lifetime:
  assumes "ttl_shards c \<noteq> []" and "o' = WithTTL d Options"
  shows "case TTL_Set Bytes t k v (Some o') c of (b, c') \<Rightarrow>
    (b \<longleftrightarrow> d \<noteq> 0) \<and> (d = 0 \<longrightarrow> c' = c) \<and>
    (d \<noteq> 0 \<longrightarrow> fst (TTL_Get Bytes now k c') = (if now \<le> t + d \<or> t + d = 0 then Some v else None) \<and>
       (TTL_Has Bytes now k c' \<longleftrightarrow> now \<le> t + d \<or> t + d = 0))"
proof (cases "d = 0")
  case True
  with assms(2) show ?thesis
    by (simp add: TTL_Set_def optsOrDefault_def WithTTL_def Options_def Let_def)
next
  case False
  define c' where "c' = snd (TTL_Set Bytes t k v (Some o') c)"
  have s: "TTL_Set Bytes t k v (Some o') c = (True, c')"
    using False assms(2) by (simp add: c'_def TTL_Set_def optsOrDefault_def WithTTL_def Options_def Let_def)
  have r: "TTL_read Bytes k c' = Some \<lparr>item_value = v, item_expiresAt = t + d\<rparr>"
    using TTL_Set_read [OF assms(1) s, of k] assms(2) by (simp add: optsOrDefault_def WithTTL_def Options_def)
  with False s show ?thesis
    by (auto simp: TTL_Get_def TTL_Has_def isExpired_def)
qed

theorem TTL_lifetime_witness:
  "case TTL_Set (\<lambda>k. [k]) 100 (1 :: byte) True (Some (WithTTL 50 Options)) \<lparr>ttl_shards = [Map.empty]\<rparr> of (b, c') \<Rightarrow>
    (b \<longleftrightarrow> (50 :: int) \<noteq> 0) \<and> ((50 :: int) = 0 \<longrightarrow> c' = \<lparr>ttl_shards = [Map.empty]\<rparr>) \<and>
    ((50 :: int) \<noteq> 0 \<longrightarrow>
       fst (TTL_Get (\<lambda>k. [k]) 150 1 c') = (if (150 :: int) \<le> 100 + 50 \<or> (100 :: int) + 50 = 0 then Some True else None) \<and>
       (TTL_Has (\<lambda>k. [k]) 150 1 c' \<longleftrightarrow> (150 :: int) \<le> 100 + 50 \<or> (100 :: int) + 50 = 0))"
  by (rule TTL_lifetime) simp_all

text \<open>
  C11: the race inside \<open>Get\<close> is harmless. Its second critical section, entered with an item \<open>i\<close> that was
  seen expired at time \<open>now\<close> in some earlier state, runs in any state the other goroutines have produced
  meanwhile, and removes no entry that is still alive at its own, later time.
\<close>

theorem TTL_purge_race:
  assumes "ttl_shards c' \<noteq> []" and "isExpired now i" and "now \<le> now'"
  shows "ttl_lookup Bytes (now', TTL_purge Bytes k i c') = ttl_lookup Bytes (now', c')"
proof
  fix j
  have "isExpired now' x" if "item_expiresAt x = item_expiresAt i" for x
    using that assms(2,3) by (simp add: isExpired_def)
  then show "ttl_lookup Bytes (now', TTL_purge Bytes k i c') j = ttl_lookup Bytes (now', c') j"
    by (auto simp: ttl_lookup_def TTL_purge_read [OF assms(1)] live_def)
qed

theorem TTL_purge_race_witness:
  "ttl_lookup (\<lambda>k. [k]) (20, TTL_purge (\<lambda>k. [k]) (1 :: byte) \<lparr>item_value = True, item_expiresAt = 5\<rparr>
      \<lparr>ttl_shards = [[1 \<mapsto> \<lparr>item_value = False, item_expiresAt = 30\<rparr>]]\<rparr>) =
    ttl_lookup (\<lambda>k. [k]) (20, \<lparr>ttl_shards = [[1 \<mapsto> \<lparr>item_value = False, item_expiresAt = 30\<rparr>]]\<rparr>)"
  by (rule TTL_purge_race [where now = 10]) (simp_all add: isExpired_def)


end
