(* ===== verification/Trie.thy ===== *)
theory Trie
  imports GoStd "HOL-Library.AList"
begin

text \<open>
  The two tries of \<open>src/internal/trie\<close>. The interface \<open>Trie\<close> is a locale: a trie holds a map from
  patterns to values, \<open>Add\<close> overwrites one pattern, and \<open>Search\<close> returns the value of the best pattern
  that matches a key. \<open>DomainTrie\<close> (\<open>domain.go\<close>) interprets it; \<open>CIDRTrie\<close> (\<open>cidr.go\<close>) satisfies it for every
  patricia tree that behaves as documented, which is a parameter.
\<close>

section \<open>The domain trie\<close>

text \<open>
  A node has its children by literal label (a Go map, here an association list), the two wildcard
  children and \<open>value\<close> with \<open>hasValue\<close> as an option. Nodes are reached by one path only, so the pointer
  structure is a tree and in-place updates are functional ones.
\<close>

datatype 'v domainNode =
  Node (children: "(string \<times> 'v domainNode) list") (wildcardChild: "'v domainNode option")
    (globstarChild: "'v domainNode option") (node_value: "'v option")

definition newDomainNode :: "'v domainNode" where
  "newDomainNode = Node [] None None None"

definition orNew :: "'v domainNode option \<Rightarrow> 'v domainNode" where
  "orNew n = (case n of None \<Rightarrow> newDomainNode | Some n \<Rightarrow> n)"

definition splitDomain :: "string \<Rightarrow> string list" where
  "splitDomain domain =
     (let d = TrimSuffix domain ''.'' in if d = [] then [] else rev (strSplit CHR ''.'' d))"

datatype trie_error = EmptyPattern | InvalidCIDR string

definition splitPattern :: "string \<Rightarrow> (trie_error, string list) res" where
  "splitPattern pattern = (if pattern = [] then Inl (Err EmptyPattern) else Inr (splitDomain pattern))"

fun add_segments :: "string list \<Rightarrow> 'v \<Rightarrow> 'v domainNode \<Rightarrow> 'v domainNode" where
  "add_segments [] v (Node cs w g x) = Node cs w g (Some v)"
| "add_segments (seg # segs) v (Node cs w g x) =
     (if seg = ''*'' then Node cs (Some (add_segments segs v (orNew w))) g x
      else if seg = ''**'' then Node cs w (Some (add_segments segs v (orNew g))) x
      else Node (AList.update seg (add_segments segs v (orNew (map_of cs seg))) cs) w g x)"

definition DomainTrie_Add :: "string \<Rightarrow> 'v \<Rightarrow> 'v domainNode \<Rightarrow> (trie_error, 'v domainNode) res" where
  "DomainTrie_Add pattern v root =
     bindR (splitPattern pattern) (\<lambda>segments. Inr (add_segments segments v root))"

lemma size_map_of: "map_of cs s = Some n \<Longrightarrow> size n < Suc (size_list (size_prod (\<lambda>_. 0) size) cs)"
  by (induction cs) (auto split: if_splits)

text \<open>The \<open>found\<close> results of a value and its zero form are an option; the globstar loop is \<open>search_from\<close>.\<close>

function (sequential) search_node :: "'v domainNode \<Rightarrow> string list \<Rightarrow> 'v option"
  and search_from :: "'v domainNode \<Rightarrow> string list \<Rightarrow> 'v option" where
  "search_node (Node cs w g x) [] =
     (case x of
        Some v \<Rightarrow> Some v
      | None \<Rightarrow>
          (case Option.bind w node_value of
             Some v \<Rightarrow> Some v
           | None \<Rightarrow> Option.bind g node_value))"
| "search_node (Node cs w g x) (seg # rest) =
     (case (case map_of cs seg of None \<Rightarrow> None | Some child \<Rightarrow> search_node child rest) of
        Some v \<Rightarrow> Some v
      | None \<Rightarrow>
          (case (case w of None \<Rightarrow> None | Some wc \<Rightarrow> search_node wc rest) of
             Some v \<Rightarrow> Some v
           | None \<Rightarrow>
               (case g of
                  None \<Rightarrow> None
                | Some ng \<Rightarrow>
                    (case node_value ng of
                       Some v \<Rightarrow> Some v
                     | None \<Rightarrow> search_from ng (seg # rest)))))"
| "search_from ng segs =
     (case search_node ng segs of
        Some v \<Rightarrow> Some v
      | None \<Rightarrow> (case segs of [] \<Rightarrow> None | s # rest \<Rightarrow> search_from ng rest))"
  by pat_completeness auto
termination
  by (relation "inv_image (less_than <*lex*> less_than <*lex*> less_than)
      (\<lambda>x. case x of Inl (n, d) \<Rightarrow> (size n, length d, 0 :: nat) | Inr (n, d) \<Rightarrow> (size n, length d, 1))")
    (auto dest: size_map_of)

declare search_from.simps [simp del]

definition DomainTrie_Search :: "string \<Rightarrow> 'v domainNode \<Rightarrow> 'v option" where
  "DomainTrie_Search domain root = search_node root (splitDomain domain)"

section \<open>The interface\<close>

text \<open>
  \<open>norm\<close> turns a key of \<open>Add\<close> into a pattern or refuses it, \<open>contents\<close> is what a trie holds, \<open>covers k p\<close>
  says that pattern \<open>p\<close> matches the search key \<open>k\<close>, and \<open>better p q\<close> that \<open>p\<close> is at least as specific as \<open>q\<close>.
\<close>

text \<open>A sequence of \<open>Add\<close> calls that stops at the first error, and the patterns it leaves behind.\<close>

fun add_all :: "('k \<Rightarrow> 'v \<Rightarrow> 't \<Rightarrow> ('e, 't) res) \<Rightarrow> ('k \<times> 'v) list \<Rightarrow> 't \<Rightarrow> ('e, 't) res" where
  "add_all add [] t = Inr t"
| "add_all add ((k, v) # kvs) t = bindR (add k v t) (add_all add kvs)"

fun latest :: "('k \<Rightarrow> ('e, 'p) res) \<Rightarrow> ('k \<times> 'v) list \<Rightarrow> ('p \<rightharpoonup> 'v) \<Rightarrow> 'p \<rightharpoonup> 'v" where
  "latest norm [] m = m"
| "latest norm ((k, v) # kvs) m =
     latest norm kvs (case norm k of Inr p \<Rightarrow> m(p \<mapsto> v) | Inl e \<Rightarrow> m)"

text \<open>The result \<open>r\<close> of a search is right for the patterns \<open>m\<close>.\<close>

definition best_match :: "('p \<Rightarrow> bool) \<Rightarrow> ('p \<Rightarrow> 'p \<Rightarrow> bool) \<Rightarrow> ('p \<rightharpoonup> 'v) \<Rightarrow> 'v option \<Rightarrow> bool" where
  "best_match cov better m r \<longleftrightarrow>
     (case r of
        None \<Rightarrow> \<forall>q \<in> dom m. \<not> cov q
      | Some v \<Rightarrow> \<exists>p. m p = Some v \<and> cov p \<and> (\<forall>q \<in> dom m. cov q \<longrightarrow> better p q))"

locale trie =
  fixes ok :: "'t \<Rightarrow> bool"
    and contents :: "'t \<Rightarrow> 'p \<rightharpoonup> 'v"
    and empty :: 't
    and norm :: "string \<Rightarrow> (trie_error, 'p) res"
    and covers :: "string \<Rightarrow> 'p \<Rightarrow> bool"
    and better :: "'p \<Rightarrow> 'p \<Rightarrow> bool"
    and add :: "string \<Rightarrow> 'v \<Rightarrow> 't \<Rightarrow> (trie_error, 't) res"
    and search :: "string \<Rightarrow> 't \<Rightarrow> 'v option"
  assumes empty_ok: "ok empty" and empty_contents: "contents empty = Map.empty"
    and add_refused: "norm k = Inl e \<Longrightarrow> add k v t = Inl e"
    and add_stores: "ok t \<Longrightarrow> norm k = Inr p \<Longrightarrow>
      \<exists>t'. add k v t = Inr t' \<and> ok t' \<and> contents t' = (contents t)(p \<mapsto> v)"
    and search_best: "ok t \<Longrightarrow> search k t = Some v \<Longrightarrow>
      \<exists>p. contents t p = Some v \<and> covers k p \<and> (\<forall>q. q \<in> dom (contents t) \<and> covers k q \<longrightarrow> better p q)"
    and search_none: "ok t \<Longrightarrow> search k t = None \<Longrightarrow> contents t q = Some w \<Longrightarrow> \<not> covers k q"
begin

text \<open>What a client relies on: a search succeeds exactly when some stored pattern covers the key.\<close>

lemma search_iff:
  assumes "ok t"
  shows "search k t \<noteq> None \<longleftrightarrow> (\<exists>p \<in> dom (contents t). covers k p)"
proof
  assume "search k t \<noteq> None"
  then show "\<exists>p \<in> dom (contents t). covers k p"
    using search_best [OF assms] by blast
next
  assume "\<exists>p \<in> dom (contents t). covers k p"
  then show "search k t \<noteq> None"
    using search_none [OF assms] by blast
qed

lemma add_all_contents:
  "ok t \<Longrightarrow> add_all add kvs t = Inr t' \<Longrightarrow> ok t' \<and> contents t' = latest norm kvs (contents t)"
proof (induction kvs arbitrary: t)
  case (Cons kv kvs)
  obtain k v where kv: "kv = (k, v)"
    by (cases kv)
  show ?case
  proof (cases "norm k")
    case (Inl e)
    with Cons.prems kv add_refused show ?thesis by simp
  next
    case (Inr p)
    obtain t1 where t1: "add k v t = Inr t1" "ok t1" "contents t1 = (contents t)(p \<mapsto> v)"
      using add_stores [OF Cons.prems(1) Inr] by blast
    have "add_all add kvs t1 = Inr t'"
      using Cons.prems(2) t1(1) kv by simp
    moreover have "latest norm (kv # kvs) (contents t) = latest norm kvs (contents t1)"
      by (simp add: kv Inr t1(3))
    ultimately show ?thesis
      using Cons.IH [OF t1(2)] by metis
  qed
qed simp

lemma add_all_search:
  assumes "add_all add kvs empty = Inr t"
  shows "best_match (covers k) better (latest norm kvs Map.empty) (search k t)"
proof -
  have t: "ok t" "contents t = latest norm kvs Map.empty"
    using add_all_contents [OF empty_ok assms] by (simp_all add: empty_contents)
  show ?thesis
    unfolding best_match_def t(2) [symmetric]
    using search_best [OF t(1), of k] search_none [OF t(1), of k] by (cases "search k t") auto
qed

lemma add_then_search:
  assumes "ok t" and "norm k = Inr p" and "covers q p"
  shows "\<exists>t' v'. add k v t = Inr t' \<and> search q t' = Some v'"
proof -
  obtain t' where t': "add k v t = Inr t'" "ok t'" "contents t' = (contents t)(p \<mapsto> v)"
    using add_stores [OF assms(1,2)] by blast
  then have "search q t' \<noteq> None"
    using search_iff [OF t'(2)] assms(3) by auto
  with t'(1) show ?thesis by auto
qed

end

section \<open>What the domain trie holds\<close>

fun at_path :: "'v domainNode \<Rightarrow> string list \<rightharpoonup> 'v" where
  "at_path (Node cs w g x) [] = x"
| "at_path (Node cs w g x) (s # p) =
     (if s = ''*'' then (case w of None \<Rightarrow> None | Some n \<Rightarrow> at_path n p)
      else if s = ''**'' then (case g of None \<Rightarrow> None | Some n \<Rightarrow> at_path n p)
      else (case map_of cs s of None \<Rightarrow> None | Some n \<Rightarrow> at_path n p))"

lemma at_path_new [simp]: "at_path newDomainNode p = None"
  by (cases p) (simp_all add: newDomainNode_def)

lemma at_path_orNew: "at_path (orNew n) p = (case n of None \<Rightarrow> None | Some n \<Rightarrow> at_path n p)"
  by (simp add: orNew_def split: option.split)

lemma at_path_add: "at_path (add_segments p v n) q = ((at_path n)(p \<mapsto> v)) q"
proof (induction p v n arbitrary: q rule: add_segments.induct)
  case (1 v cs w g x)
  then show ?case by (cases q) auto
next
  case (2 seg segs v cs w g x)
  then show ?case
    by (cases q) (auto simp: at_path_orNew update_conv' split: option.splits)
qed

lemma at_path_Nil: "at_path n [] = node_value n"
  by (cases n) simp

section \<open>Matching and specificity\<close>

text \<open>
  Which pattern matches which domain, both from the last label on: a literal label matches itself, \<open>*\<close>
  matches one label and \<open>**\<close> any number of them; at the end of the domain a last \<open>*\<close> or \<open>**\<close> also matches
  nothing.
\<close>

function matches :: "string list \<Rightarrow> string list \<Rightarrow> bool" and matches_from :: "string list \<Rightarrow> string list \<Rightarrow> bool" where
  "matches [] d = (d = [])"
| "matches (s # p) [] = ((s = ''*'' \<or> s = ''**'') \<and> p = [])"
| "matches (s # p) (x # d) =
     (if s = ''*'' then matches p d
      else if s = ''**'' then p = [] \<or> matches_from p (x # d)
      else s = x \<and> matches p d)"
| "matches_from p d = (matches p d \<or> (case d of [] \<Rightarrow> False | y # d' \<Rightarrow> matches_from p d'))"
  by pat_completeness auto
termination
  by (relation "inv_image (less_than <*lex*> less_than <*lex*> less_than)
      (\<lambda>x. case x of Inl (p, d) \<Rightarrow> (length p, length d, 0 :: nat) | Inr (p, d) \<Rightarrow> (length p, length d, 1))")
    auto

declare matches_from.simps [simp del]

lemma matches_from_iff: "matches_from p d \<longleftrightarrow> (\<exists>i \<le> length d. matches p (drop i d))"
proof (induction d)
  case Nil
  then show ?case by (simp add: matches_from.simps)
next
  case (Cons x d)
  have "(\<exists>i \<le> length (x # d). matches p (drop i (x # d))) \<longleftrightarrow>
      matches p (x # d) \<or> (\<exists>i \<le> length d. matches p (drop i d))"
    by (metis Suc_le_mono drop0 drop_Suc_Cons le0 length_Cons not0_implies_Suc)
  with Cons show ?case
    by (simp add: matches_from.simps [of p "x # d"])
qed

definition rank :: "string \<Rightarrow> nat" where
  "rank s = (if s = ''*'' then 1 else if s = ''**'' then 2 else 0)"

text \<open>
  The order of specificity, label by label from the top-level domain: literal before \<open>*\<close> before \<open>**\<close>; after a
  common \<open>**\<close> a pattern that ends there comes first.
\<close>

fun specific :: "string list \<Rightarrow> string list \<Rightarrow> bool" where
  "specific [] q = True"
| "specific (s # p) [] = False"
| "specific (s # p) (t # q) =
     (rank s < rank t \<or> rank s = rank t \<and> (if s = ''**'' then p = [] \<or> q \<noteq> [] else specific p q))"

definition best_at :: "'v domainNode \<Rightarrow> string list \<Rightarrow> 'v option \<Rightarrow> bool" where
  "best_at n d r \<longleftrightarrow>
     (case r of
        None \<Rightarrow> (\<forall>q. at_path n q \<noteq> None \<longrightarrow> \<not> matches q d)
      | Some v \<Rightarrow> \<exists>p. at_path n p = Some v \<and> matches p d \<and>
          (\<forall>q. at_path n q \<noteq> None \<and> matches q d \<longrightarrow> specific p q))"

definition best_from :: "'v domainNode \<Rightarrow> string list \<Rightarrow> 'v option \<Rightarrow> bool" where
  "best_from n d r \<longleftrightarrow>
     (case r of
        None \<Rightarrow> (\<forall>q. at_path n q \<noteq> None \<longrightarrow> \<not> matches_from q d)
      | Some v \<Rightarrow> \<exists>p. at_path n p = Some v \<and> matches_from p d)"


lemma rank_zero: "rank s = 0 \<longleftrightarrow> s \<noteq> ''*'' \<and> s \<noteq> ''**''"
  by (simp add: rank_def)

text \<open>No child is filed under a wildcard label; \<open>Add\<close> keeps this.\<close>

fun wf_node :: "'v domainNode \<Rightarrow> bool" where
  "wf_node (Node cs w g x) \<longleftrightarrow>
     list_all (\<lambda>(s, n). rank s = 0 \<and> wf_node n) cs \<and>
     (case w of None \<Rightarrow> True | Some n \<Rightarrow> wf_node n) \<and> (case g of None \<Rightarrow> True | Some n \<Rightarrow> wf_node n)"

lemma wf_new [simp]: "wf_node newDomainNode"
  by (simp add: newDomainNode_def)

lemma wf_child: "list_all (\<lambda>(s, n). rank s = 0 \<and> wf_node n) cs \<Longrightarrow> map_of cs s = Some n \<Longrightarrow> rank s = 0 \<and> wf_node n"
  by (induction cs) (auto split: if_splits)

lemma wf_update:
  "list_all (\<lambda>(s, n). rank s = 0 \<and> wf_node n) cs \<Longrightarrow> rank s = 0 \<Longrightarrow> wf_node n \<Longrightarrow>
     list_all (\<lambda>(s, n). rank s = 0 \<and> wf_node n) (AList.update s n cs)"
  by (induction cs) auto

lemma wf_add: "wf_node n \<Longrightarrow> wf_node (add_segments p v n)"
proof (induction p v n rule: add_segments.induct)
  case (2 seg segs v cs w g x)
  then have "wf_node (orNew (map_of cs seg))" "wf_node (orNew w)" "wf_node (orNew g)"
    using wf_child [of cs seg] by (auto simp: orNew_def split: option.splits)
  moreover have "seg \<noteq> ''*'' \<Longrightarrow> seg \<noteq> ''**'' \<Longrightarrow> rank seg = 0"
    by (simp add: rank_zero)
  ultimately show ?case
    using 2 by (auto intro: wf_update)
qed simp

text \<open>The three ways a stored pattern can match a nonempty domain.\<close>

lemma match_cases:
  assumes "wf_node (Node cs w g x)" and "at_path (Node cs w g x) q \<noteq> None" and "matches q (seg # rest)"
  obtains (lit) c p where "q = seg # p" "rank seg = 0" "map_of cs seg = Some c" "at_path c p \<noteq> None" "matches p rest"
  | (star) c p where "q = ''*'' # p" "w = Some c" "at_path c p \<noteq> None" "matches p rest"
  | (glob) c p where "q = ''**'' # p" "g = Some c" "at_path c p \<noteq> None" "p = [] \<or> matches_from p (seg # rest)"
proof (cases q)
  case Nil
  with assms(3) show ?thesis by simp
next
  case q: (Cons s p)
  consider "s = ''*''" | "s = ''**''" | "rank s = 0" "s \<noteq> ''*''" "s \<noteq> ''**''"
    by (auto simp: rank_zero)
  then show ?thesis
  proof cases
    case 1
    with q assms(2,3) star show ?thesis by (auto split: option.splits)
  next
    case 2
    with q assms(2,3) glob show ?thesis by (auto split: option.splits)
  next
    case 3
    then have "s = seg" "matches p rest"
      using assms(3) q by simp_all
    with 3 q assms(2) lit show ?thesis by (auto split: option.splits)
  qed
qed

lemma match_intros:
  "map_of cs seg = Some c \<Longrightarrow> rank seg = 0 \<Longrightarrow> at_path (Node cs w g x) (seg # p) = at_path c p"
  "rank seg = 0 \<Longrightarrow> matches p rest \<Longrightarrow> matches (seg # p) (seg # rest)"
  by (simp_all add: rank_zero)

lemma best_at_end:
  "best_at (Node cs w g x) [] (search_node (Node cs w g x) [])"
proof -
  have m: "matches q [] \<longleftrightarrow> q = [] \<or> q = [''*''] \<or> q = [''**'']" for q
    by (cases q) auto
  have v: "at_path (Node cs w g x) [''*''] = Option.bind w node_value"
    "at_path (Node cs w g x) [''**''] = Option.bind g node_value"
    by (auto simp: at_path_Nil split: option.split)
  show ?thesis
  proof (cases x)
    case (Some v)
    then show ?thesis by (auto simp: best_at_def m intro!: exI [of _ "[]"])
  next
    case x: None
    show ?thesis
    proof (cases "Option.bind w node_value")
      case (Some v)
      with x v show ?thesis
        by (auto simp: best_at_def m rank_def intro!: exI [of _ "[''*'']"])
    next
      case w: None
      then show ?thesis
        using x v by (cases "Option.bind g node_value")
          (auto simp: best_at_def m rank_def intro!: exI [of _ "[''**'']"])
    qed
  qed
qed

lemma best_at_literal:
  assumes "wf_node (Node cs w g x)" and "map_of cs seg = Some c" and "best_at c rest (Some v)"
  shows "best_at (Node cs w g x) (seg # rest) (Some v)"
proof -
  have r: "rank seg = 0"
    using assms wf_child by fastforce
  obtain p where p: "at_path c p = Some v" "matches p rest"
    "\<And>q. at_path c q \<noteq> None \<Longrightarrow> matches q rest \<Longrightarrow> specific p q"
    using assms(3) by (auto simp: best_at_def)
  have "specific (seg # p) q" if "at_path (Node cs w g x) q \<noteq> None" "matches q (seg # rest)" for q
    using that by (rule match_cases [OF assms(1)]) (use r p(3) assms(2) in \<open>auto simp: rank_def\<close>)
  moreover have "at_path (Node cs w g x) (seg # p) = Some v" "matches (seg # p) (seg # rest)"
    using match_intros r p assms(2) by metis+
  ultimately show ?thesis
    unfolding best_at_def option.case by blast
qed

lemma best_at_star:
  assumes "wf_node (Node cs w g x)" and "w = Some c" and "best_at c rest (Some v)"
    and "\<And>d. map_of cs seg = Some d \<Longrightarrow> best_at d rest None"
  shows "best_at (Node cs w g x) (seg # rest) (Some v)"
proof -
  obtain p where p: "at_path c p = Some v" "matches p rest"
    "\<And>q. at_path c q \<noteq> None \<Longrightarrow> matches q rest \<Longrightarrow> specific p q"
    using assms(3) by (auto simp: best_at_def)
  have "specific (''*'' # p) q" if "at_path (Node cs w g x) q \<noteq> None" "matches q (seg # rest)" for q
    using that
  proof (rule match_cases [OF assms(1)])
    fix d q'
    assume "map_of cs seg = Some d" "at_path d q' \<noteq> None" "matches q' rest"
    then show ?thesis
      using assms(4) by (auto simp: best_at_def)
  qed (use p(3) assms(2) in \<open>auto simp: rank_def\<close>)
  with p assms(2) show ?thesis
    unfolding best_at_def by (auto intro!: exI [of _ "''*'' # p"])
qed

lemma best_at_glob:
  assumes "wf_node (Node cs w g x)"
    and "\<And>d. map_of cs seg = Some d \<Longrightarrow> best_at d rest None"
    and "\<And>d. w = Some d \<Longrightarrow> best_at d rest None"
    and "g = Some c" and "if node_value c = None then best_from c (seg # rest) r else r = node_value c"
  shows "best_at (Node cs w g x) (seg # rest) r"
proof -
  have only: "\<exists>p. q = ''**'' # p \<and> at_path c p \<noteq> None \<and> (p = [] \<or> matches_from p (seg # rest))"
    if "at_path (Node cs w g x) q \<noteq> None" "matches q (seg # rest)" for q
    using that by (rule match_cases [OF assms(1)]) (use assms(2-4) in \<open>auto simp: best_at_def\<close>)
  show ?thesis
  proof (cases r)
    case None
    have "\<not> matches q (seg # rest)" if "at_path (Node cs w g x) q \<noteq> None" for q
      using only [OF that] None assms(5) by (auto simp: best_from_def at_path_Nil split: if_splits)
    with None show ?thesis by (simp add: best_at_def)
  next
    case (Some v)
    then obtain p where p: "at_path c p = Some v" "p = [] \<or> matches_from p (seg # rest)"
      "node_value c \<noteq> None \<longrightarrow> p = []"
      using assms(5) by (auto simp: best_from_def at_path_Nil split: if_splits)
    have "specific (''**'' # p) q" if "at_path (Node cs w g x) q \<noteq> None" "matches q (seg # rest)" for q
      using only [OF that] p(3) by (auto simp: at_path_Nil)
    with p assms(4) Some show ?thesis
      unfolding best_at_def by (auto intro!: exI [of _ "''**'' # p"])
  qed
qed


lemma best_at_nothing:
  assumes "wf_node (Node cs w g x)"
    and "\<And>d. map_of cs seg = Some d \<Longrightarrow> best_at d rest None"
    and "\<And>d. w = Some d \<Longrightarrow> best_at d rest None" and "g = None"
  shows "best_at (Node cs w g x) (seg # rest) None"
proof -
  have "\<not> matches q (seg # rest)" if a: "at_path (Node cs w g x) q \<noteq> None" for q
  proof
    assume "matches q (seg # rest)"
    with a show False
      by (rule match_cases [OF assms(1)]) (use assms(2-4) in \<open>auto simp: best_at_def\<close>)
  qed
  then show ?thesis by (simp add: best_at_def)
qed

lemma best_from_step:
  assumes "best_at n d (search_node n d)"
    and "search_node n d = None \<Longrightarrow> d \<noteq> [] \<Longrightarrow> best_from n (tl d) (search_from n (tl d))"
  shows "best_from n d (search_from n d)"
proof (cases d)
  case Nil
  with assms(1) show ?thesis
    by (auto simp: best_at_def best_from_def search_from.simps [of n "[]"] matches_from.simps [of _ "[]"]
        split: option.splits)
next
  case (Cons x r)
  show ?thesis
  proof (cases "search_node n d")
    case (Some v)
    with assms(1) show ?thesis
      by (auto simp: best_at_def best_from_def search_from.simps [of n d] matches_from.simps [of _ d])
  next
    case None
    then have "search_from n d = search_from n r" "best_from n r (search_from n r)"
      using Cons assms(2) by (simp_all add: search_from.simps [of n "x # r"])
    with None Cons assms(1) show ?thesis
      by (auto simp: best_at_def best_from_def matches_from.simps [of _ "x # r"] split: option.splits)
  qed
qed

lemma search_node_best:
  "wf_node n \<Longrightarrow> best_at n d (search_node n d)"
  "wf_node n \<Longrightarrow> best_from n d (search_from n d)"
proof (induction n d and n d rule: search_node_search_from.induct)
  case (1 cs w g x)
  show ?case by (rule best_at_end)
next
  case (2 cs w g x seg rest)
  note wf = "2.prems"
  have c: "best_at d rest (search_node d rest)" if "map_of cs seg = Some d" for d
    using "2.IH"(1) [OF that] wf_child [of cs seg d] wf that by simp
  show ?case
  proof (cases "case map_of cs seg of None \<Rightarrow> None | Some child \<Rightarrow> search_node child rest")
    case (Some v)
    then show ?thesis
      using c best_at_literal [OF wf] by (auto split: option.splits)
  next
    case lit: None
    then have c0: "best_at d rest None" if "map_of cs seg = Some d" for d
      using c [OF that] that by simp
    have s: "best_at d rest (search_node d rest)" if "w = Some d" for d
      using "2.IH"(2) [OF lit that] wf that by simp
    show ?thesis
    proof (cases "case w of None \<Rightarrow> None | Some wc \<Rightarrow> search_node wc rest")
      case (Some v)
      then obtain wc where "w = Some wc" "search_node wc rest = Some v"
        by (auto split: option.splits)
      with best_at_star [OF wf _ _ c0, of wc v] s [of wc] lit show ?thesis by simp
    next
      case star: None
      then have s0: "best_at d rest None" if "w = Some d" for d
        using s [OF that] that by simp
      show ?thesis
      proof (cases g)
        case None
        with best_at_nothing [OF wf c0 s0] lit star show ?thesis by simp
      next
        case (Some ng)
        then have "best_from ng (seg # rest) (search_from ng (seg # rest))" if "node_value ng = None"
          using "2.IH"(3) [OF lit star Some that] wf by simp
        with best_at_glob [OF wf c0 s0 Some] lit star Some show ?thesis
          by (cases "node_value ng") simp_all
      qed
    qed
  qed
next
  case (3 ng segs)
  show ?case
  proof (rule best_from_step [OF "3.IH"(1) [OF "3.prems"]])
    assume none: "search_node ng segs = None" and "segs \<noteq> []"
    then obtain s rest where segs: "segs = s # rest"
      by (cases segs) auto
    show "best_from ng (tl segs) (search_from ng (tl segs))"
      using "3.IH"(2) [OF none segs "3.prems"] segs by simp
  qed
qed


lemma DomainTrie_Add_res:
  "splitPattern k = Inl e \<Longrightarrow> DomainTrie_Add k v t = Inl e"
  "splitPattern k = Inr p \<Longrightarrow> DomainTrie_Add k v t = Inr (add_segments p v t)"
  by (simp_all add: DomainTrie_Add_def)

interpretation dt: trie wf_node at_path newDomainNode splitPattern "\<lambda>k p. matches p (splitDomain k)" specific
    DomainTrie_Add DomainTrie_Search
proof
  fix t :: "'v domainNode" and k p v w q
  show "wf_node newDomainNode" "at_path newDomainNode = Map.empty"
    by auto
  show "DomainTrie_Add k v t = Inl e" if "splitPattern k = Inl e" for e
    using that by (rule DomainTrie_Add_res)
  assume wf: "wf_node t"
  show "\<exists>t'. DomainTrie_Add k v t = Inr t' \<and> wf_node t' \<and> at_path t' = (at_path t)(p \<mapsto> v)"
    if "splitPattern k = Inr p"
    using DomainTrie_Add_res(2) [OF that, of v t] wf_add [OF wf, of p v] at_path_add [of p v t]
    by (intro exI [of _ "add_segments p v t"] conjI ext)
  have b: "best_at t (splitDomain k) (DomainTrie_Search k t)"
    unfolding DomainTrie_Search_def by (rule search_node_best(1) [OF wf])
  show "\<exists>p. at_path t p = Some v \<and> matches p (splitDomain k) \<and>
      (\<forall>q. q \<in> dom (at_path t) \<and> matches q (splitDomain k) \<longrightarrow> specific p q)"
    if "DomainTrie_Search k t = Some v"
    using b that by (auto simp: best_at_def)
  show "\<not> matches q (splitDomain k)" if "DomainTrie_Search k t = None" "at_path t q = Some w"
    using b that by (auto simp: best_at_def)
qed

section \<open>Properties of the domain trie\<close>

text \<open>
  C24: whatever patterns are added to a new domain trie, \<open>Search\<close> finds a value exactly when some stored
  pattern matches the domain, and then the value last added for a most specific matching pattern:
  label by label from the top-level domain a literal label beats \<open>*\<close>, which beats \<open>**\<close>. The backtracking
  search therefore never misses a match and never prefers a less specific one.
\<close>

theorem DomainTrie_Search_best:
  assumes "add_all DomainTrie_Add kvs newDomainNode = Inr t"
  shows "best_match (\<lambda>p. matches p (splitDomain d)) specific (latest splitPattern kvs Map.empty)
    (DomainTrie_Search d t)"
  by (rule dt.add_all_search [OF assms])

theorem DomainTrie_Search_best_witness:
  "best_match (\<lambda>p. matches p (splitDomain ''a.b'')) specific
     (latest splitPattern [(''**.b'', 1), (''*.b'', 2)] Map.empty)
     (DomainTrie_Search ''a.b'' (Node [(''b'', Node [] (Some (Node [] None None (Some 2)))
        (Some (Node [] None None (Some 1))) None)] None None (None :: nat option)))"
  by (rule DomainTrie_Search_best)
    (simp add: DomainTrie_Add_def splitPattern_def splitDomain_def TrimSuffix_def newDomainNode_def orNew_def)


section \<open>The CIDR trie\<close>

text \<open>
  \<open>github.com/kentik/patricia\<close> is a parameter: its tree type, the empty tree, \<open>Set\<close> and \<open>FindDeepestTag\<close> for
  an address with a prefix length.
\<close>

record ('a, 't) patricia =
  pt_new :: 't
  pt_Set :: "'a \<Rightarrow> nat \<Rightarrow> u32 \<Rightarrow> 't \<Rightarrow> 't"
  pt_FindDeepestTag :: "'a \<Rightarrow> nat \<Rightarrow> 't \<Rightarrow> u32 option"

record ('v, 't4, 't6) CIDRTrie =
  ct_values :: "'v list"
  ct_trie4 :: 't4
  ct_trie6 :: 't6

definition be32 :: "bytes \<Rightarrow> u32" where
  "be32 b = ucast (b ! 3) OR push_bit 8 (ucast (b ! 2)) OR push_bit 16 (ucast (b ! 1)) OR push_bit 24 (ucast (b ! 0))"

definition NewCIDRTrie :: "(u32, 't4) patricia \<Rightarrow> (bytes, 't6) patricia \<Rightarrow> ('v, 't4, 't6) CIDRTrie" where
  "NewCIDRTrie P4 P6 = \<lparr>ct_values = [], ct_trie4 = pt_new P4, ct_trie6 = pt_new P6\<rparr>"

definition CIDRTrie_Add ::
    "(u32, 't4) patricia \<Rightarrow> (bytes, 't6) patricia \<Rightarrow> string \<Rightarrow> 'v \<Rightarrow> ('v, 't4, 't6) CIDRTrie \<Rightarrow>
     (trie_error, ('v, 't4, 't6) CIDRTrie) res" where
  "CIDRTrie_Add P4 P6 cidr v t =
     (case ParseCIDR cidr of
        None \<Rightarrow> Inl (Err (InvalidCIDR cidr))
      | Some (_, ipNet) \<Rightarrow>
          let ones = net_Ones ipNet;
              i = of_nat (length (ct_values t));
              t = t\<lparr>ct_values := ct_values t @ [v]\<rparr> in
          Inr (case To4 (net_IP ipNet) of
                 Some ip4 \<Rightarrow> t\<lparr>ct_trie4 := pt_Set P4 (be32 ip4) ones i (ct_trie4 t)\<rparr>
               | None \<Rightarrow> t\<lparr>ct_trie6 := pt_Set P6 (net_IP ipNet) ones i (ct_trie6 t)\<rparr>))"

text \<open>The read \<open>t.values[idx]\<close> panics out of range. The nil IP of a failed parse is the empty list.\<close>

definition CIDRTrie_Search ::
    "(u32, 't4) patricia \<Rightarrow> (bytes, 't6) patricia \<Rightarrow> string \<Rightarrow> ('v, 't4, 't6) CIDRTrie \<Rightarrow>
     (trie_error, 'v option) res" where
  "CIDRTrie_Search P4 P6 key t =
     (let ip = ParseIP key in
      if ip = [] then Inr None
      else case To4 ip of
        Some ip4 \<Rightarrow>
          (case pt_FindDeepestTag P4 (be32 ip4) 32 (ct_trie4 t) of
             Some i \<Rightarrow> if unat i < length (ct_values t) then Inr (Some (ct_values t ! unat i)) else Inl Panic
           | None \<Rightarrow> Inr None)
      | None \<Rightarrow>
          (case To16 ip of
             Some ip16 \<Rightarrow>
               (case pt_FindDeepestTag P6 ip16 128 (ct_trie6 t) of
                  Some i \<Rightarrow> if unat i < length (ct_values t) then Inr (Some (ct_values t ! unat i)) else Inl Panic
                | None \<Rightarrow> Inr None)
           | None \<Rightarrow> Inr None))"

subsection \<open>The documented behaviour of the patricia tree\<close>

definition bits32 :: "u32 \<Rightarrow> bool list" where
  "bits32 w = map (bit w) (rev [0..<32])"

definition bits128 :: "bytes \<Rightarrow> bool list" where
  "bits128 b = concat (map (\<lambda>x. map (bit x) (rev [0..<8])) (take 16 b))"

text \<open>The tag of the longest stored prefix of an address.\<close>

fun longest_upto :: "(bool list \<rightharpoonup> 'g) \<Rightarrow> bool list \<Rightarrow> nat \<Rightarrow> 'g option" where
  "longest_upto m bs 0 = m []"
| "longest_upto m bs (Suc n) =
     (case m (take (Suc n) bs) of Some g \<Rightarrow> Some g | None \<Rightarrow> longest_upto m bs n)"

definition longest :: "(bool list \<rightharpoonup> 'g) \<Rightarrow> bool list \<Rightarrow> 'g option" where
  "longest m bs = longest_upto m bs (length bs)"

text \<open>
  \<open>cont\<close> is what a tree holds: \<open>Set\<close> stores one tag at a prefix, overwriting, and \<open>FindDeepestTag\<close> on a full
  address returns the tag at its longest stored prefix.
\<close>

definition patricia_ok ::
    "('a \<Rightarrow> bool) \<Rightarrow> ('a \<Rightarrow> bool list) \<Rightarrow> nat \<Rightarrow> ('a, 't) patricia \<Rightarrow> ('t \<Rightarrow> bool list \<rightharpoonup> u32) \<Rightarrow> bool" where
  "patricia_ok addr bits w P cont \<longleftrightarrow>
     cont (pt_new P) = Map.empty \<and>
     (\<forall>a n i t. addr a \<longrightarrow> n \<le> w \<longrightarrow> cont (pt_Set P a n i t) = (cont t)(take n (bits a) \<mapsto> i)) \<and>
     (\<forall>a t. addr a \<longrightarrow> pt_FindDeepestTag P a w t = longest (cont t) (bits a))"

text \<open>The pattern of a CIDR (is it IPv4, and its prefix bits), and the address a key stands for.\<close>

definition cidr_norm :: "string \<Rightarrow> (trie_error, bool \<times> bool list) res" where
  "cidr_norm cidr =
     (case ParseCIDR cidr of
        None \<Rightarrow> Inl (Err (InvalidCIDR cidr))
      | Some (_, n) \<Rightarrow>
          Inr (case To4 (net_IP n) of
                 Some ip4 \<Rightarrow> (True, take (net_Ones n) (bits32 (be32 ip4)))
               | None \<Rightarrow> (False, take (net_Ones n) (bits128 (net_IP n)))))"

text \<open>A CIDR whose prefix length fits its address family (false only for IPv4-mapped IPv6 notation).\<close>

definition cidr_fits :: "string \<Rightarrow> bool" where
  "cidr_fits cidr \<longleftrightarrow>
     (case ParseCIDR cidr of None \<Rightarrow> True | Some (_, n) \<Rightarrow> To4 (net_IP n) = None \<or> net_Ones n \<le> 32)"

definition key_bits :: "string \<Rightarrow> (bool \<times> bool list) option" where
  "key_bits key =
     (let ip = ParseIP key in
      case To4 ip of
        Some ip4 \<Rightarrow> Some (True, bits32 (be32 ip4))
      | None \<Rightarrow> map_option (\<lambda>ip16. (False, bits128 ip16)) (To16 ip))"

definition in_prefix :: "string \<Rightarrow> bool \<times> bool list \<Rightarrow> bool" where
  "in_prefix key p \<longleftrightarrow>
     (case key_bits key of None \<Rightarrow> False | Some (f, bs) \<Rightarrow> f = fst p \<and> take (length (snd p)) bs = snd p)"

definition longer :: "bool \<times> bool list \<Rightarrow> bool \<times> bool list \<Rightarrow> bool" where
  "longer p q \<longleftrightarrow> length (snd q) \<le> length (snd p)"

lemma longest_upto_None: "longest_upto m bs n = None \<longleftrightarrow> (\<forall>k \<le> n. m (take k bs) = None)"
  by (induction n) (auto simp: le_Suc_eq split: option.splits)

lemma longest_upto_Some:
  "longest_upto m bs n = Some g \<Longrightarrow>
     \<exists>j \<le> n. m (take j bs) = Some g \<and> (\<forall>k \<le> n. m (take k bs) \<noteq> None \<longrightarrow> k \<le> j)"
proof (induction n)
  case (Suc n)
  show ?case
  proof (cases "m (take (Suc n) bs)")
    case None
    with Suc show ?thesis by (auto simp: le_Suc_eq)
  next
    case (Some h)
    with Suc.prems show ?thesis by (intro exI [of _ "Suc n"]) simp
  qed
qed simp

subsection \<open>The CIDR trie finds the longest prefix\<close>

definition cidr_contents ::
    "('t4 \<Rightarrow> bool list \<rightharpoonup> u32) \<Rightarrow> ('t6 \<Rightarrow> bool list \<rightharpoonup> u32) \<Rightarrow> ('v, 't4, 't6) CIDRTrie \<Rightarrow> bool \<times> bool list \<rightharpoonup> 'v" where
  "cidr_contents c4 c6 t p =
     map_option (\<lambda>i. ct_values t ! unat i) (if fst p then c4 (ct_trie4 t) (snd p) else c6 (ct_trie6 t) (snd p))"

definition cidr_ok :: "('t4 \<Rightarrow> bool list \<rightharpoonup> u32) \<Rightarrow> ('t6 \<Rightarrow> bool list \<rightharpoonup> u32) \<Rightarrow> ('v, 't4, 't6) CIDRTrie \<Rightarrow> bool" where
  "cidr_ok c4 c6 t \<longleftrightarrow>
     (\<forall>p i. c4 (ct_trie4 t) p = Some i \<or> c6 (ct_trie6 t) p = Some i \<longrightarrow> unat i < length (ct_values t))"

lemma length_bits32 [simp]: "length (bits32 w) = 32"
  by (simp add: bits32_def)

lemma length_bits128 [simp]: "length b = 16 \<Longrightarrow> length (bits128 b) = 128"
  by (simp add: bits128_def length_concat comp_def sum_list_replicate map_replicate_const)

lemma cidr_contents_push:
  assumes "cidr_ok c4 c6 t"
  shows "map_option (\<lambda>i. (ct_values t @ [v]) ! unat i) (c4 (ct_trie4 t) p) =
      map_option (\<lambda>i. ct_values t ! unat i) (c4 (ct_trie4 t) p)"
    and "map_option (\<lambda>i. (ct_values t @ [v]) ! unat i) (c6 (ct_trie6 t) p) =
      map_option (\<lambda>i. ct_values t ! unat i) (c6 (ct_trie6 t) p)"
  using assms
  by (cases "c4 (ct_trie4 t) p"; auto simp: cidr_ok_def nth_append)
    (use assms in \<open>cases "c6 (ct_trie6 t) p"; auto simp: cidr_ok_def nth_append\<close>)

lemma CIDRTrie_Add_stores:
  assumes "patricia_ok (\<lambda>_. True) bits32 32 P4 c4" and "patricia_ok (\<lambda>b. length b = 16) bits128 128 P6 c6"
    and "cidr_ok c4 c6 t" and "length (ct_values t) < 2 ^ 32" and "cidr_fits k" and "cidr_norm k = Inr p"
  shows "\<exists>t'. CIDRTrie_Add P4 P6 k v t = Inr t' \<and> cidr_ok c4 c6 t' \<and>
    length (ct_values t') = Suc (length (ct_values t)) \<and>
    cidr_contents c4 c6 t' = (cidr_contents c4 c6 t)(p \<mapsto> v)"
proof -
  obtain a n where pc: "ParseCIDR k = Some (a, n)"
    using assms(6) by (auto simp: cidr_norm_def split: option.splits)
  define i where "i = (of_nat (length (ct_values t)) :: u32)"
  have i: "unat i = length (ct_values t)"
    using assms(4) by (simp add: i_def unat_of_nat)
  have old: "unat j < Suc (length (ct_values t))" "unat j < length (ct_values t)"
    if "c4 (ct_trie4 t) q = Some j \<or> c6 (ct_trie6 t) q = Some j" for q j
    using assms(3) that by (auto simp: cidr_ok_def less_Suc_eq)
  show ?thesis
  proof (cases "To4 (net_IP n)")
    case (Some ip4)
    define t' where "t' = t\<lparr>ct_values := ct_values t @ [v], ct_trie4 := pt_Set P4 (be32 ip4) (net_Ones n) i (ct_trie4 t)\<rparr>"
    have ct: "c4 (ct_trie4 t') = (c4 (ct_trie4 t))(take (net_Ones n) (bits32 (be32 ip4)) \<mapsto> i)"
      using assms(1,5) Some pc by (simp add: t'_def patricia_ok_def cidr_fits_def)
    have "CIDRTrie_Add P4 P6 k v t = Inr t'"
      by (simp add: CIDRTrie_Add_def pc Some t'_def i_def Let_def)
    moreover have "cidr_ok c4 c6 t'"
      unfolding cidr_ok_def ct using old(1) i by (auto simp: t'_def split: if_splits)
    moreover have "cidr_contents c4 c6 t' q = ((cidr_contents c4 c6 t)(p \<mapsto> v)) q" for q
      unfolding cidr_contents_def ct using assms(6) i cidr_contents_push [OF assms(3)]
      by (cases q) (auto simp: cidr_norm_def pc Some t'_def)
    ultimately show ?thesis
      by (intro exI [of _ t']) (auto simp: t'_def)
  next
    case None
    define t' where "t' = t\<lparr>ct_values := ct_values t @ [v], ct_trie6 := pt_Set P6 (net_IP n) (net_Ones n) i (ct_trie6 t)\<rparr>"
    have "length (net_IP n) = 16" "net_Ones n \<le> 128"
      using ParseCIDR_net [OF pc] None by (auto simp: To4_def)
    then have ct: "c6 (ct_trie6 t') = (c6 (ct_trie6 t))(take (net_Ones n) (bits128 (net_IP n)) \<mapsto> i)"
      using assms(2) by (simp add: t'_def patricia_ok_def)
    have "CIDRTrie_Add P4 P6 k v t = Inr t'"
      by (simp add: CIDRTrie_Add_def pc None t'_def i_def Let_def)
    moreover have "cidr_ok c4 c6 t'"
      unfolding cidr_ok_def ct using old(1) i by (auto simp: t'_def split: if_splits)
    moreover have "cidr_contents c4 c6 t' q = ((cidr_contents c4 c6 t)(p \<mapsto> v)) q" for q
      unfolding cidr_contents_def ct using assms(6) i cidr_contents_push [OF assms(3)]
      by (cases q) (auto simp: cidr_norm_def pc None t'_def)
    ultimately show ?thesis
      by (intro exI [of _ t']) (auto simp: t'_def)
  qed
qed


lemma longest_best:
  shows "longest m bs = None \<Longrightarrow> m q = Some h \<Longrightarrow> take (length q) bs \<noteq> q"
    and "longest m bs = Some g \<Longrightarrow>
      \<exists>p. m p = Some g \<and> take (length p) bs = p \<and> (\<forall>q. m q \<noteq> None \<and> take (length q) bs = q \<longrightarrow> length q \<le> length p)"
proof -
  have len: "length q \<le> length bs" if "take (length q) bs = q" for q
    using that by (metis length_take min.cobounded1)
  show "longest m bs = None \<Longrightarrow> m q = Some h \<Longrightarrow> take (length q) bs \<noteq> q"
    using len [of q] by (auto simp: longest_def longest_upto_None)
  assume "longest m bs = Some g"
  then obtain j where j: "j \<le> length bs" "m (take j bs) = Some g"
    "\<And>k. k \<le> length bs \<Longrightarrow> m (take k bs) \<noteq> None \<Longrightarrow> k \<le> j"
    using longest_upto_Some [of m bs "length bs" g] unfolding longest_def by auto
  then show "\<exists>p. m p = Some g \<and> take (length p) bs = p \<and>
      (\<forall>q. m q \<noteq> None \<and> take (length q) bs = q \<longrightarrow> length q \<le> length p)"
    using len by (intro exI [of _ "take j bs"]) (auto simp: min_def)
qed

lemma best_match_longest:
  assumes "key_bits k = Some (f, bs)" and "longest (\<lambda>b. m (f, b)) bs = r"
  shows "best_match (in_prefix k) longer m r"
proof (cases r)
  case None
  then show ?thesis
    using assms longest_best(1) [of "\<lambda>b. m (f, b)" bs]
    by (cases f) (auto simp: best_match_def in_prefix_def)
next
  case (Some g)
  then obtain p where p: "m (f, p) = Some g" "take (length p) bs = p"
    "\<And>q. m (f, q) \<noteq> None \<Longrightarrow> take (length q) bs = q \<Longrightarrow> length q \<le> length p"
    using longest_best(2) [of "\<lambda>b. m (f, b)" bs g] assms(2) by auto
  with Some assms(1) show ?thesis
    by (auto simp: best_match_def in_prefix_def longer_def intro!: exI [of _ f] exI [of _ p])
qed

lemma longest_map_option: "longest (\<lambda>b. map_option h (m b)) bs = map_option h (longest m bs)"
proof -
  have "longest_upto (\<lambda>b. map_option h (m b)) bs n = map_option h (longest_upto m bs n)" for n
    by (induction n) (auto split: option.splits)
  then show ?thesis by (simp add: longest_def)
qed

lemma longest_in_range: "longest m bs = Some g \<Longrightarrow> \<exists>p. m p = Some g"
  by (drule longest_best(2)) (elim exE conjE, rule exI, assumption)

lemma CIDRTrie_Search_best:
  assumes P: "patricia_ok (\<lambda>_. True) bits32 32 P4 c4" "patricia_ok (\<lambda>b. length b = 16) bits128 128 P6 c6"
    and ok: "cidr_ok c4 c6 t"
  shows "\<exists>r. CIDRTrie_Search P4 P6 k t = Inr r \<and> best_match (in_prefix k) longer (cidr_contents c4 c6 t) r"
proof (cases "ParseIP k = []")
  case True
  then have "key_bits k = None"
    by (simp add: key_bits_def To4_def To16_def)
  with True show ?thesis
    by (simp add: CIDRTrie_Search_def best_match_def in_prefix_def)
next
  case False
  then have len: "length (ParseIP k) = 16"
    by (rule ParseIP_length)
  have inr: "unat i < length (ct_values t)"
    if "longest (c4 (ct_trie4 t)) bs = Some i \<or> longest (c6 (ct_trie6 t)) bs = Some i" for bs i
    using ok that longest_in_range unfolding cidr_ok_def by metis
  show ?thesis
  proof (cases "To4 (ParseIP k)")
    case (Some ip4)
    then have k: "key_bits k = Some (True, bits32 (be32 ip4))"
      by (simp add: key_bits_def)
    have f: "pt_FindDeepestTag P4 (be32 ip4) 32 (ct_trie4 t) = longest (c4 (ct_trie4 t)) (bits32 (be32 ip4))"
      using P(1) by (simp add: patricia_ok_def)
    have "CIDRTrie_Search P4 P6 k t = Inr (map_option (\<lambda>i. ct_values t ! unat i) (longest (c4 (ct_trie4 t)) (bits32 (be32 ip4))))"
      using False Some f inr by (auto simp: CIDRTrie_Search_def Let_def split: option.split)
    moreover have "longest (\<lambda>b. cidr_contents c4 c6 t (True, b)) (bits32 (be32 ip4)) =
        map_option (\<lambda>i. ct_values t ! unat i) (longest (c4 (ct_trie4 t)) (bits32 (be32 ip4)))"
      by (simp add: cidr_contents_def longest_map_option)
    ultimately show ?thesis
      using best_match_longest [OF k] by blast
  next
    case None
    have ip16: "To16 (ParseIP k) = Some (ParseIP k)"
      using len by (simp add: To16_def)
    with None have k: "key_bits k = Some (False, bits128 (ParseIP k))"
      by (simp add: key_bits_def)
    have f: "pt_FindDeepestTag P6 (ParseIP k) 128 (ct_trie6 t) = longest (c6 (ct_trie6 t)) (bits128 (ParseIP k))"
      using P(2) len by (simp add: patricia_ok_def)
    have "CIDRTrie_Search P4 P6 k t = Inr (map_option (\<lambda>i. ct_values t ! unat i) (longest (c6 (ct_trie6 t)) (bits128 (ParseIP k))))"
      using False None ip16 f inr by (auto simp: CIDRTrie_Search_def Let_def split: option.split)
    moreover have "longest (\<lambda>b. cidr_contents c4 c6 t (False, b)) (bits128 (ParseIP k)) =
        map_option (\<lambda>i. ct_values t ! unat i) (longest (c6 (ct_trie6 t)) (bits128 (ParseIP k)))"
      by (simp add: cidr_contents_def longest_map_option)
    ultimately show ?thesis
      using best_match_longest [OF k] by blast
  qed
qed

lemma CIDRTrie_add_all:
  assumes P: "patricia_ok (\<lambda>_. True) bits32 32 P4 c4" "patricia_ok (\<lambda>b. length b = 16) bits128 128 P6 c6"
    and "cidr_ok c4 c6 t" and "length (ct_values t) + length kvs \<le> 2 ^ 32" and "list_all (\<lambda>kv. cidr_fits (fst kv)) kvs"
    and "add_all (CIDRTrie_Add P4 P6) kvs t = Inr t'"
  shows "cidr_ok c4 c6 t' \<and> cidr_contents c4 c6 t' = latest cidr_norm kvs (cidr_contents c4 c6 t)"
  using assms(3-6)
proof (induction kvs arbitrary: t)
  case (Cons kv kvs)
  obtain k v where kv: "kv = (k, v)"
    by (cases kv)
  show ?case
  proof (cases "cidr_norm k")
    case (Inl e)
    then have "CIDRTrie_Add P4 P6 k v t = Inl e"
      by (auto simp: cidr_norm_def CIDRTrie_Add_def split: option.splits)
    with Cons.prems(4) kv show ?thesis by simp
  next
    case (Inr p)
    obtain t1 where t1: "CIDRTrie_Add P4 P6 k v t = Inr t1" "cidr_ok c4 c6 t1"
      "length (ct_values t1) = Suc (length (ct_values t))" "cidr_contents c4 c6 t1 = (cidr_contents c4 c6 t)(p \<mapsto> v)"
      using CIDRTrie_Add_stores [OF P Cons.prems(1) _ _ Inr, of v] Cons.prems(2,3) kv by auto
    have "add_all (CIDRTrie_Add P4 P6) kvs t1 = Inr t'"
      using Cons.prems(4) t1(1) kv by simp
    moreover have "latest cidr_norm (kv # kvs) (cidr_contents c4 c6 t) = latest cidr_norm kvs (cidr_contents c4 c6 t1)"
      by (simp add: kv Inr t1(4))
    ultimately show ?thesis
      using Cons.IH [OF t1(2)] Cons.prems(2,3) t1(3) by simp
  qed
qed simp

text \<open>
  C25: for every patricia tree that behaves as documented, the CIDR trie built from any list of CIDRs
  (at most \<open>2 ^ 32\<close>, none in IPv4-mapped IPv6 notation) never indexes its value slice out of range, and
  \<open>Search\<close> returns the value last added for the longest prefix that contains the address, of its own
  address family, or nothing when there is none.
\<close>

theorem CIDRTrie_longest_prefix:
  assumes "patricia_ok (\<lambda>_. True) bits32 32 P4 c4" and "patricia_ok (\<lambda>b. length b = 16) bits128 128 P6 c6"
    and "add_all (CIDRTrie_Add P4 P6) kvs (NewCIDRTrie P4 P6) = Inr t"
    and "length kvs \<le> 2 ^ 32" and "list_all (\<lambda>kv. cidr_fits (fst kv)) kvs"
  shows "\<exists>r. CIDRTrie_Search P4 P6 k t = Inr r \<and>
    best_match (in_prefix k) longer (latest cidr_norm kvs Map.empty) r"
proof -
  have "c4 (pt_new P4) = Map.empty" "c6 (pt_new P6) = Map.empty"
    using assms(1,2) by (simp_all add: patricia_ok_def)
  then have new: "cidr_ok c4 c6 (NewCIDRTrie P4 P6)" "cidr_contents c4 c6 (NewCIDRTrie P4 P6) = Map.empty"
    by (simp_all add: cidr_ok_def NewCIDRTrie_def cidr_contents_def fun_eq_iff)
  have t: "cidr_ok c4 c6 t" "cidr_contents c4 c6 t = latest cidr_norm kvs Map.empty"
    using CIDRTrie_add_all [OF assms(1,2) new(1) _ assms(5,3)] assms(4) unfolding new(2)
    by (simp_all add: NewCIDRTrie_def)
  show ?thesis
    using CIDRTrie_Search_best [OF assms(1,2) t(1), of k] t(2) by simp
qed


text \<open>A reference tree, the prefix map itself, meets the documented behaviour.\<close>

definition map_tree :: "('a \<Rightarrow> bool list) \<Rightarrow> ('a, bool list \<rightharpoonup> u32) patricia" where
  "map_tree bits = \<lparr>pt_new = Map.empty, pt_Set = (\<lambda>a n i t. t(take n (bits a) \<mapsto> i)),
     pt_FindDeepestTag = (\<lambda>a n t. longest t (take n (bits a)))\<rparr>"

lemma map_tree_ok:
  "patricia_ok (\<lambda>_. True) bits32 32 (map_tree bits32) (\<lambda>t. t)"
  "patricia_ok (\<lambda>b. length b = 16) bits128 128 (map_tree bits128) (\<lambda>t. t)"
  by (simp_all add: patricia_ok_def map_tree_def)

lemma ParseCIDR_10: "ParseCIDR ''10.0.0.0/8'' = Some (v4InV6Prefix @ [10, 0, 0, 0], \<lparr>net_IP = [10, 0, 0, 0], net_Ones = 8\<rparr>)"
  by (simp add: ParseCIDR_def ParseAddr_def parseIPv4Fields_def parseOctet_def isDigit_def digitVal_def decVal_def
      CIDRMask_def maskByte_def Let_def upt_rec)

theorem CIDRTrie_longest_prefix_witness:
  "\<exists>t r. add_all (CIDRTrie_Add (map_tree bits32) (map_tree bits128)) [(''10.0.0.0/8'', True)]
      (NewCIDRTrie (map_tree bits32) (map_tree bits128)) = Inr t \<and>
    CIDRTrie_Search (map_tree bits32) (map_tree bits128) ''10.1.2.3'' t = Inr r \<and>
    best_match (in_prefix ''10.1.2.3'') longer (latest cidr_norm [(''10.0.0.0/8'', True)] Map.empty) r"
proof -
  have fits: "list_all (\<lambda>kv. cidr_fits (fst kv)) [(''10.0.0.0/8'', True)]"
    by (simp add: cidr_fits_def ParseCIDR_10)
  obtain t where t: "add_all (CIDRTrie_Add (map_tree bits32) (map_tree bits128)) [(''10.0.0.0/8'', True)]
      (NewCIDRTrie (map_tree bits32) (map_tree bits128)) = Inr t"
    by (simp add: CIDRTrie_Add_def ParseCIDR_10 Let_def To4_def)
  show ?thesis
    using CIDRTrie_longest_prefix [OF map_tree_ok t _ fits, of "''10.1.2.3''"] t by auto
qed


end
