(* ===== verification/Rules.thy ===== *)
theory Rules
  imports ConfigTypes Trie
begin

text \<open>
  The rule set of \<open>src/internal/rule\<close>: rules are filed by domain pattern and by CIDR in the two tries,
  with the raw strings remembered in two maps for the priority check. \<open>Add\<close> is not atomic: an error leaves
  the patterns filed so far in place, so it returns the error beside the state. The mutex makes every
  call one step.
\<close>

datatype MatchType = MatchTypeDomain | MatchTypeAddr

record Query =
  q_Type :: MatchType
  q_Value :: string

datatype rule_error =
  NilMatch | NoDomainOrCIDR
  | Conflict (existing_name: string) (rule_name: string) (conflict_key: string) (conflict_priority: u16)
  | TrieError trie_error

record ('t4, 't6) RuleSet =
  rs_domain :: "Rule domainNode"
  rs_cidr :: "(Rule, 't4, 't6) CIDRTrie"
  rs_domainKeys :: "string \<rightharpoonup> Rule"
  rs_cidrKeys :: "string \<rightharpoonup> Rule"

definition NewRuleSet :: "(u32, 't4) patricia \<Rightarrow> (bytes, 't6) patricia \<Rightarrow> ('t4, 't6) RuleSet" where
  "NewRuleSet P4 P6 = \<lparr>rs_domain = newDomainNode, rs_cidr = NewCIDRTrie P4 P6,
     rs_domainKeys = Map.empty, rs_cidrKeys = Map.empty\<rparr>"

text \<open>The test both loops make on the rule already filed under a key: error, skip or store.\<close>

datatype add_action = AddConflict Rule | AddSkip | AddStore

definition add_action :: "Rule option \<Rightarrow> Rule \<Rightarrow> add_action" where
  "add_action existing r =
     (case existing of
        None \<Rightarrow> AddStore
      | Some x \<Rightarrow>
          if rule_Priority x = rule_Priority r then AddConflict x
          else if rule_Priority r \<le> rule_Priority x then AddSkip
          else AddStore)"

fun add_domains ::
    "Rule \<Rightarrow> string list \<Rightarrow> ('t4, 't6) RuleSet \<Rightarrow> rule_error fault option \<times> ('t4, 't6) RuleSet" where
  "add_domains r [] rs = (None, rs)"
| "add_domains r (pattern # ps) rs =
     (case add_action (rs_domainKeys rs pattern) r of
        AddConflict x \<Rightarrow> (Some (Err (Conflict (rule_Name x) (rule_Name r) pattern (rule_Priority r))), rs)
      | AddSkip \<Rightarrow> add_domains r ps rs
      | AddStore \<Rightarrow>
          (case mapErr TrieError (DomainTrie_Add pattern r (rs_domain rs)) of
             Inl e \<Rightarrow> (Some e, rs)
           | Inr d \<Rightarrow>
               add_domains r ps
                 (rs\<lparr>rs_domain := d, rs_domainKeys := (rs_domainKeys rs)(pattern \<mapsto> r)\<rparr>)))"

fun add_cidrs ::
    "(u32, 't4) patricia \<Rightarrow> (bytes, 't6) patricia \<Rightarrow> Rule \<Rightarrow> string list \<Rightarrow> ('t4, 't6) RuleSet \<Rightarrow>
     rule_error fault option \<times> ('t4, 't6) RuleSet" where
  "add_cidrs P4 P6 r [] rs = (None, rs)"
| "add_cidrs P4 P6 r (cidr # cs) rs =
     (case add_action (rs_cidrKeys rs cidr) r of
        AddConflict x \<Rightarrow> (Some (Err (Conflict (rule_Name x) (rule_Name r) cidr (rule_Priority r))), rs)
      | AddSkip \<Rightarrow> add_cidrs P4 P6 r cs rs
      | AddStore \<Rightarrow>
          (case mapErr TrieError (CIDRTrie_Add P4 P6 cidr r (rs_cidr rs)) of
             Inl e \<Rightarrow> (Some e, rs)
           | Inr t \<Rightarrow>
               add_cidrs P4 P6 r cs (rs\<lparr>rs_cidr := t, rs_cidrKeys := (rs_cidrKeys rs)(cidr \<mapsto> r)\<rparr>)))"

definition RuleSet_Add ::
    "(u32, 't4) patricia \<Rightarrow> (bytes, 't6) patricia \<Rightarrow> Rule \<Rightarrow> ('t4, 't6) RuleSet \<Rightarrow>
     rule_error fault option \<times> ('t4, 't6) RuleSet" where
  "RuleSet_Add P4 P6 r rs =
     (case rule_Match r of
        None \<Rightarrow> (Some (Err NilMatch), rs)
      | Some m \<Rightarrow>
          if match_Domains m = [] \<and> match_CIDRs m = [] then (Some (Err NoDomainOrCIDR), rs)
          else
            (case add_domains r (match_Domains m) rs of
               (Some e, rs) \<Rightarrow> (Some e, rs)
             | (None, rs) \<Rightarrow> add_cidrs P4 P6 r (match_CIDRs m) rs))"

definition HigherPriority :: "Rule option \<Rightarrow> Rule option \<Rightarrow> Rule option" where
  "HigherPriority a b =
     (case a of
        None \<Rightarrow> b
      | Some x \<Rightarrow> (case b of None \<Rightarrow> a | Some y \<Rightarrow> if rule_Priority x \<ge> rule_Priority y then a else b))"

definition query_rule ::
    "(u32, 't4) patricia \<Rightarrow> (bytes, 't6) patricia \<Rightarrow> ('t4, 't6) RuleSet \<Rightarrow> Query \<Rightarrow> (rule_error, Rule option) res" where
  "query_rule P4 P6 rs q =
     (case q_Type q of
        MatchTypeDomain \<Rightarrow> Inr (DomainTrie_Search (q_Value q) (rs_domain rs))
      | MatchTypeAddr \<Rightarrow> mapErr TrieError (CIDRTrie_Search P4 P6 (q_Value q) (rs_cidr rs)))"

fun search_loop ::
    "(u32, 't4) patricia \<Rightarrow> (bytes, 't6) patricia \<Rightarrow> ('t4, 't6) RuleSet \<Rightarrow> Query list \<Rightarrow> Rule option \<Rightarrow>
     (rule_error, Rule option) res" where
  "search_loop P4 P6 rs [] best = Inr best"
| "search_loop P4 P6 rs (q # qs) best =
     bindR (query_rule P4 P6 rs q) (\<lambda>r. search_loop P4 P6 rs qs (HigherPriority best r))"

definition RuleSet_Search ::
    "(u32, 't4) patricia \<Rightarrow> (bytes, 't6) patricia \<Rightarrow> ('t4, 't6) RuleSet \<Rightarrow> Query list \<Rightarrow> (rule_error, Rule option) res" where
  "RuleSet_Search P4 P6 rs queries =
     bindR (search_loop P4 P6 rs queries None) (\<lambda>best. case best of None \<Rightarrow> Inr None | Some b \<Rightarrow> Inr (Rule_Clone (Some b)))"

text \<open>The start-up loop that files every configured rule, stopping at the first error.\<close>

fun add_rules ::
    "(u32, 't4) patricia \<Rightarrow> (bytes, 't6) patricia \<Rightarrow> Rule list \<Rightarrow> ('t4, 't6) RuleSet \<Rightarrow>
     rule_error fault option \<times> ('t4, 't6) RuleSet" where
  "add_rules P4 P6 [] rs = (None, rs)"
| "add_rules P4 P6 (r # rules) rs =
     (case RuleSet_Add P4 P6 r rs of
        (Some e, rs) \<Rightarrow> (Some e, rs)
      | (None, rs) \<Rightarrow> add_rules P4 P6 rules rs)"

section \<open>What the rule set holds\<close>

text \<open>The pattern/rule pairs a list of rules offers for filing, and the patterns the trie tells apart.\<close>

definition rule_domains :: "Rule \<Rightarrow> string list" where
  "rule_domains r = (case rule_Match r of None \<Rightarrow> [] | Some m \<Rightarrow> match_Domains m)"

definition offers :: "Rule list \<Rightarrow> (string \<times> Rule) list" where
  "offers rules = concat (map (\<lambda>r. map (\<lambda>p. (p, r)) (rule_domains r)) rules)"

definition clean :: "string \<Rightarrow> bool" where
  "clean p \<longleftrightarrow> p \<noteq> [] \<and> last p \<noteq> CHR ''.''"

lemma clean_TrimSuffix: "clean p \<Longrightarrow> TrimSuffix p ''.'' = p"
  by (cases p rule: rev_cases) (simp_all add: clean_def TrimSuffix_def)

lemma clean_splitDomain: "clean p \<Longrightarrow> splitDomain p = rev (strSplit CHR ''.'' p)"
  by (simp add: splitDomain_def clean_TrimSuffix Let_def) (simp add: clean_def)

lemma splitDomain_inj: "clean p \<Longrightarrow> clean q \<Longrightarrow> splitDomain p = splitDomain q \<longleftrightarrow> p = q"
  by (metis clean_splitDomain rev_rev_ident strJoin_strSplit)

text \<open>
  The invariant for the pairs \<open>H\<close> offered so far: the key map holds, per pattern, a rule of the highest
  priority offered for it, and the trie holds exactly the key map.
\<close>

definition files :: "(string \<times> Rule) list \<Rightarrow> ('t4, 't6) RuleSet \<Rightarrow> bool" where
  "files H rs \<longleftrightarrow> wf_node (rs_domain rs) \<and> list_all (\<lambda>x. clean (fst x)) H \<and>
     (\<forall>p r. rs_domainKeys rs p = Some r \<longrightarrow> (p, r) \<in> set H \<and>
        (\<forall>r'. (p, r') \<in> set H \<longrightarrow> rule_Priority r' \<le> rule_Priority r)) \<and>
     (\<forall>p r. (p, r) \<in> set H \<longrightarrow> rs_domainKeys rs p \<noteq> None) \<and>
     (\<forall>segs r. at_path (rs_domain rs) segs = Some r \<longleftrightarrow> (\<exists>p. rs_domainKeys rs p = Some r \<and> splitDomain p = segs))"

lemma files_key_clean: "files H rs \<Longrightarrow> rs_domainKeys rs p = Some r \<Longrightarrow> clean p"
  unfolding files_def list_all_iff by fastforce

lemma files_skip:
  assumes "files H rs" and "clean p" and "rs_domainKeys rs p = Some x" and "rule_Priority r \<le> rule_Priority x"
  shows "files (H @ [(p, r)]) rs"
  using assms unfolding files_def by auto

lemma files_store:
  assumes f: "files H rs" and p: "clean p"
    and prio: "\<And>x. rs_domainKeys rs p = Some x \<Longrightarrow> rule_Priority x \<le> rule_Priority r"
  shows "files (H @ [(p, r)]) (rs\<lparr>rs_domain := add_segments (splitDomain p) r (rs_domain rs),
      rs_domainKeys := (rs_domainKeys rs)(p \<mapsto> r)\<rparr>)"
proof -
  let ?rs = "rs\<lparr>rs_domain := add_segments (splitDomain p) r (rs_domain rs), rs_domainKeys := (rs_domainKeys rs)(p \<mapsto> r)\<rparr>"
  have le: "rule_Priority r' \<le> rule_Priority r" if "(p, r') \<in> set H" for r'
    using f prio that unfolding files_def by (metis not_None_eq order_trans)
  have t: "at_path (rs_domain ?rs) segs = Some x \<longleftrightarrow> (\<exists>q. rs_domainKeys ?rs q = Some x \<and> splitDomain q = segs)" for segs x
  proof (cases "segs = splitDomain p")
    case True
    have "q = p" if "rs_domainKeys rs q = Some y" "splitDomain q = splitDomain p" for q y
      using that files_key_clean [OF f] p splitDomain_inj by blast
    with True show ?thesis by (auto simp: at_path_add)
  next
    case False
    have "at_path (rs_domain rs) segs = Some x \<longleftrightarrow> (\<exists>q. rs_domainKeys rs q = Some x \<and> splitDomain q = segs)"
      using f by (simp add: files_def)
    with False show ?thesis by (auto simp: at_path_add)
  qed
  show ?thesis
    unfolding files_def using f p le t wf_add [of "rs_domain rs"]
    by (auto simp: files_def)
qed

lemma DomainTrie_Add_clean: "clean p \<Longrightarrow> DomainTrie_Add p r d = Inr (add_segments (splitDomain p) r d)"
  by (simp add: DomainTrie_Add_def splitPattern_def clean_def)

lemma add_domains_files:
  assumes "files H rs" and "list_all clean ps" and "add_domains r ps rs = (None, rs')"
  shows "files (H @ map (\<lambda>p. (p, r)) ps) rs'"
  using assms
proof (induction ps arbitrary: H rs)
  case (Cons p ps)
  note step = Cons.prems(3)
  show ?case
  proof (cases "add_action (rs_domainKeys rs p) r")
    case (AddConflict x)
    with step show ?thesis by simp
  next
    case AddSkip
    then have "files (H @ [(p, r)]) rs"
      using files_skip [OF Cons.prems(1)] Cons.prems(2) by (auto simp: add_action_def split: option.splits if_splits)
    from Cons.IH [OF this] AddSkip Cons.prems show ?thesis by simp
  next
    case AddStore
    have cl: "clean p"
      using Cons.prems(2) by simp
    have "files (H @ [(p, r)]) (rs\<lparr>rs_domain := add_segments (splitDomain p) r (rs_domain rs),
        rs_domainKeys := (rs_domainKeys rs)(p \<mapsto> r)\<rparr>)"
      using AddStore by (intro files_store [OF Cons.prems(1) cl]) (auto simp: add_action_def split: if_splits)
    from Cons.IH [OF this] AddStore Cons.prems(2) step show ?thesis
      by (simp add: DomainTrie_Add_clean [OF cl])
  qed
qed simp

lemma add_cidrs_domain:
  "add_cidrs P4 P6 r cs rs = (e, rs') \<Longrightarrow> rs_domain rs' = rs_domain rs \<and> rs_domainKeys rs' = rs_domainKeys rs"
  by (induction cs arbitrary: rs) (fastforce split: add_action.splits sum.splits)+

lemma RuleSet_Add_files:
  assumes "files H rs" and "list_all clean (rule_domains r)" and "RuleSet_Add P4 P6 r rs = (None, rs')"
  shows "files (H @ map (\<lambda>p. (p, r)) (rule_domains r)) rs'"
proof -
  obtain m rs1 where m: "rule_Match r = Some m" and d: "add_domains r (match_Domains m) rs = (None, rs1)"
    and c: "add_cidrs P4 P6 r (match_CIDRs m) rs1 = (None, rs')"
    using assms(3) by (auto simp: RuleSet_Add_def split: option.splits if_splits prod.splits)
  have "files (H @ map (\<lambda>p. (p, r)) (rule_domains r)) rs1"
    using add_domains_files [OF assms(1) _ d] assms(2) m by (simp add: rule_domains_def)
  with add_cidrs_domain [OF c] show ?thesis
    by (simp add: files_def)
qed

lemma add_rules_files:
  assumes "files H rs" and "list_all (\<lambda>r. list_all clean (rule_domains r)) rules"
    and "add_rules P4 P6 rules rs = (None, rs')"
  shows "files (H @ offers rules) rs'"
  using assms
proof (induction rules arbitrary: H rs)
  case (Cons r rules)
  obtain rs1 where a: "RuleSet_Add P4 P6 r rs = (None, rs1)" "add_rules P4 P6 rules rs1 = (None, rs')"
    using Cons.prems(3) by (auto split: prod.splits option.splits)
  from Cons.IH [OF RuleSet_Add_files [OF Cons.prems(1) _ a(1)] _ a(2)] Cons.prems(2) show ?case
    by (simp add: offers_def)
qed (simp add: offers_def)

lemma files_new: "files [] (NewRuleSet P4 P6)"
  by (simp add: files_def NewRuleSet_def)


text \<open>A rule with the default options, for the examples.\<close>

definition sample_rule :: "string \<Rightarrow> u16 \<Rightarrow> string list \<Rightarrow> string list \<Rightarrow> Rule" where
  "sample_rule name prio ds cs = \<lparr>rule_Name = name, rule_Priority = prio, rule_Block = False,
     rule_Match = Some \<lparr>match_Domains = ds, match_CIDRs = cs\<rparr>, rule_Config = cfg_Runtime (DefaultConfig 0)\<rparr>"

section \<open>Properties of the rule set\<close>

text \<open>The specified answer to a domain query: a best-matching pattern, then the highest priority that offers it.\<close>

definition best_rule :: "Rule list \<Rightarrow> string \<Rightarrow> (rule_error, Rule option) res \<Rightarrow> bool" where
  "best_rule rules d answer =
    (case answer of
      Inr (Some r) \<Rightarrow>
        (\<exists>p. (p, r) \<in> set (offers rules) \<and> matches (splitDomain p) (splitDomain d) \<and>
           (\<forall>r'. (p, r') \<in> set (offers rules) \<longrightarrow> rule_Priority r' \<le> rule_Priority r) \<and>
           (\<forall>q r'. (q, r') \<in> set (offers rules) \<and> matches (splitDomain q) (splitDomain d) \<longrightarrow>
              specific (splitDomain p) (splitDomain q)))
    | Inr None \<Rightarrow> \<forall>q r'. (q, r') \<in> set (offers rules) \<longrightarrow> \<not> matches (splitDomain q) (splitDomain d)
    | Inl e \<Rightarrow> False)"

lemma filed_rules_answer:
  assumes "add_rules P4 P6 rules (NewRuleSet P4 P6) = (None, rs)"
    and "list_all (\<lambda>r. list_all clean (rule_domains r)) rules"
  shows "best_rule rules d (RuleSet_Search P4 P6 rs [\<lparr>q_Type = MatchTypeDomain, q_Value = d\<rparr>])"
proof -
  have f: "files (offers rules) rs"
    using add_rules_files [OF files_new assms(2,1)] by simp
  have wf: "wf_node (rs_domain rs)"
    using f by (simp add: files_def)
  have s: "RuleSet_Search P4 P6 rs [\<lparr>q_Type = MatchTypeDomain, q_Value = d\<rparr>] = Inr (DomainTrie_Search d (rs_domain rs))"
    by (simp add: RuleSet_Search_def query_rule_def HigherPriority_def Rule_Clone_def split: option.split)
  have stored: "\<exists>x. at_path (rs_domain rs) (splitDomain q) = Some x" if "(q, r') \<in> set (offers rules)" for q r'
    using f that unfolding files_def by (metis not_None_eq)
  show ?thesis
  proof (cases "DomainTrie_Search d (rs_domain rs)")
    case None
    have "\<not> matches (splitDomain q) (splitDomain d)" if "(q, r') \<in> set (offers rules)" for q r'
      using stored [OF that] dt.search_none [OF wf None] by blast
    with None s show ?thesis by (simp add: best_rule_def)
  next
    case (Some r)
    obtain segs where segs: "at_path (rs_domain rs) segs = Some r" "matches segs (splitDomain d)"
      "\<And>q. q \<in> dom (at_path (rs_domain rs)) \<Longrightarrow> matches q (splitDomain d) \<Longrightarrow> specific segs q"
      using dt.search_best [OF wf Some] by blast
    obtain p where p: "rs_domainKeys rs p = Some r" "splitDomain p = segs"
      using f segs(1) unfolding files_def by blast
    have "(p, r) \<in> set (offers rules)" "\<And>r'. (p, r') \<in> set (offers rules) \<Longrightarrow> rule_Priority r' \<le> rule_Priority r"
      using f p(1) unfolding files_def by blast+
    moreover have "specific segs (splitDomain q)"
      if "(q, r') \<in> set (offers rules)" "matches (splitDomain q) (splitDomain d)" for q r'
      using stored [OF that(1)] segs(3) that(2) by blast
    ultimately show ?thesis
      using Some s p(2) segs(2) by (simp only: best_rule_def sum.case option.case) blast
  qed
qed

text \<open>
  For rules that file without error (patterns not ending in a dot), in whatever order they come, a
  domain query returns a rule that offered a most specific pattern matching the domain and has the
  highest priority among the rules that offered this pattern; it returns nothing only when no offered
  pattern matches.
\<close>

lemma RuleSet_Search_domain:
  assumes "add_rules P4 P6 rules (NewRuleSet P4 P6) = (None, rs)"
    and "list_all (\<lambda>r. list_all clean (rule_domains r)) rules"
  shows "best_rule rules d (RuleSet_Search P4 P6 rs [\<lparr>q_Type = MatchTypeDomain, q_Value = d\<rparr>])"
  using assms by (rule filed_rules_answer)

lemma RuleSet_Search_domain_sample:
  "let P4 = map_tree bits32; P6 = map_tree bits128;
       rules = [sample_rule ''low'' 1 [''*.b''] [], sample_rule ''high'' 2 [''*.b''] []] in
   best_rule rules ''a.b'' (RuleSet_Search P4 P6 (snd (add_rules P4 P6 rules (NewRuleSet P4 P6)))
          [\<lparr>q_Type = MatchTypeDomain, q_Value = ''a.b''\<rparr>])"
  unfolding Let_def
  by (rule RuleSet_Search_domain)
    (simp_all add: sample_rule_def RuleSet_Add_def add_action_def NewRuleSet_def DomainTrie_Add_def splitPattern_def
      rule_domains_def clean_def prod_eq_iff)

lemma HigherPriority_cases:
  "HigherPriority a b = None \<longleftrightarrow> a = None \<and> b = None"
  "HigherPriority a b = Some r \<Longrightarrow> a = Some r \<or> b = Some r"
  "HigherPriority a b = Some r \<Longrightarrow> a = Some x \<Longrightarrow> rule_Priority x \<le> rule_Priority r"
  "HigherPriority a b = Some r \<Longrightarrow> b = Some x \<Longrightarrow> rule_Priority x \<le> rule_Priority r"
  by (auto simp: HigherPriority_def split: option.splits if_splits)

lemma search_loop_max:
  "search_loop P4 P6 rs qs best = Inr res \<Longrightarrow>
     (case res of
        None \<Rightarrow> best = None \<and> (\<forall>q \<in> set qs. query_rule P4 P6 rs q = Inr None)
      | Some r \<Rightarrow>
          (best = Some r \<or> (\<exists>q \<in> set qs. query_rule P4 P6 rs q = Inr (Some r))) \<and>
          (\<forall>x. best = Some x \<longrightarrow> rule_Priority x \<le> rule_Priority r) \<and>
          (\<forall>q \<in> set qs. \<forall>x. query_rule P4 P6 rs q = Inr (Some x) \<longrightarrow> rule_Priority x \<le> rule_Priority r))"
proof (induction qs arbitrary: best)
  case Nil
  then show ?case by (auto split: option.splits)
next
  case (Cons q qs)
  obtain r where r: "query_rule P4 P6 rs q = Inr r" "search_loop P4 P6 rs qs (HigherPriority best r) = Inr res"
    using Cons.prems by (auto simp: bindR_eq_Inr_iff)
  note IH = Cons.IH [OF r(2)]
  show ?case
  proof (cases res)
    case None
    with IH r(1) show ?thesis by (simp add: HigherPriority_cases(1))
  next
    case (Some b)
    have up: "rule_Priority x \<le> rule_Priority b" if "HigherPriority best r = Some x" for x
      using IH Some that by simp
    have "rule_Priority x \<le> rule_Priority b" if "best = Some x \<or> r = Some x" for x
    proof (cases "HigherPriority best r")
      case None
      then show ?thesis using that HigherPriority_cases(1) by fastforce
    next
      case (Some y)
      then have "rule_Priority x \<le> rule_Priority y"
        using that HigherPriority_cases(3,4) by blast
      from this up [OF Some] show ?thesis by (rule order_trans)
    qed
    with IH Some r(1) HigherPriority_cases(2) [of best r b] show ?thesis by auto
  qed
qed

text \<open>
  A search with several queries (a domain and an address) returns the rule of one of the queries, and
  none of the queries has a rule of higher priority; it returns nothing only when no query has a rule.
\<close>

lemma RuleSet_Search_priority:
  assumes "RuleSet_Search P4 P6 rs qs = Inr res"
  shows "case res of
      None \<Rightarrow> \<forall>q \<in> set qs. query_rule P4 P6 rs q = Inr None
    | Some r \<Rightarrow> (\<exists>q \<in> set qs. query_rule P4 P6 rs q = Inr (Some r)) \<and>
        (\<forall>q \<in> set qs. \<forall>x. query_rule P4 P6 rs q = Inr (Some x) \<longrightarrow> rule_Priority x \<le> rule_Priority r)"
proof -
  have "search_loop P4 P6 rs qs None = Inr res"
    using assms by (auto simp: RuleSet_Search_def bindR_eq_Inr_iff Rule_Clone_def split: option.splits)
  from search_loop_max [OF this] show ?thesis
    by (auto split: option.splits)
qed


lemma RuleSet_Search_priority_witness:
  "\<exists>res. RuleSet_Search (map_tree bits32) (map_tree bits128)
      (NewRuleSet (map_tree bits32) (map_tree bits128)) [\<lparr>q_Type = MatchTypeDomain, q_Value = ''a.b''\<rparr>] = Inr res \<and>
    (case res of
      None \<Rightarrow> \<forall>q \<in> set [\<lparr>q_Type = MatchTypeDomain, q_Value = ''a.b''\<rparr>].
        query_rule (map_tree bits32) (map_tree bits128) (NewRuleSet (map_tree bits32) (map_tree bits128)) q = Inr None
    | Some r \<Rightarrow> True)"
proof -
  obtain res where res: "RuleSet_Search (map_tree bits32) (map_tree bits128)
      (NewRuleSet (map_tree bits32) (map_tree bits128)) [\<lparr>q_Type = MatchTypeDomain, q_Value = ''a.b''\<rparr>] = Inr res"
    by (cases "DomainTrie_Search ''a.b'' (rs_domain (NewRuleSet (map_tree bits32) (map_tree bits128)))")
      (simp_all add: RuleSet_Search_def query_rule_def HigherPriority_def)
  show ?thesis
    using RuleSet_Search_priority [OF res] res by (auto split: option.splits)
qed

text \<open>
  The priority check compares CIDRs as written, the trie by prefix. Two rules whose CIDRs differ only
  in notation (\<open>10.0.0.0/8\<close> and \<open>10.0.0.1/8\<close>) are therefore filed without a conflict, and the one added
  last wins for every address of the network, whatever the priorities.
\<close>

lemma RuleSet_cidr_alias:
  assumes P: "patricia_ok (\<lambda>_. True) bits32 32 P4 c4" "patricia_ok (\<lambda>b. length b = 16) bits128 128 P6 c6"
    and k: "k1 \<noteq> k2" "cidr_norm k1 = Inr p" "cidr_norm k2 = Inr p" "cidr_fits k1" "cidr_fits k2"
    and m: "rule_Match r1 = Some \<lparr>match_Domains = [], match_CIDRs = [k1]\<rparr>"
      "rule_Match r2 = Some \<lparr>match_Domains = [], match_CIDRs = [k2]\<rparr>"
    and addr: "in_prefix a p"
  shows "\<exists>rs. add_rules P4 P6 [r1, r2] (NewRuleSet P4 P6) = (None, rs) \<and>
    RuleSet_Search P4 P6 rs [\<lparr>q_Type = MatchTypeAddr, q_Value = a\<rparr>] = Inr (Some r2)"
proof -
  let ?c = "add_all (CIDRTrie_Add P4 P6)"
  have new: "cidr_ok c4 c6 (NewCIDRTrie P4 P6)"
    using P by (simp add: cidr_ok_def NewCIDRTrie_def patricia_ok_def)
  obtain t1 where t1: "CIDRTrie_Add P4 P6 k1 r1 (NewCIDRTrie P4 P6) = Inr t1" "cidr_ok c4 c6 t1"
    "length (ct_values t1) = 1"
    using CIDRTrie_Add_stores [OF P new _ k(4,2), of r1] by (auto simp: NewCIDRTrie_def)
  obtain t2 where t2: "CIDRTrie_Add P4 P6 k2 r2 t1 = Inr t2"
    using CIDRTrie_Add_stores [OF P t1(2) _ k(5,3), of r2] t1(3) by auto
  define rs where "rs = \<lparr>rs_domain = newDomainNode, rs_cidr = t2, rs_domainKeys = Map.empty,
      rs_cidrKeys = [k1 \<mapsto> r1, k2 \<mapsto> r2]\<rparr>"
  have "?c [(k1, r1), (k2, r2)] (NewCIDRTrie P4 P6) = Inr t2"
    using t1(1) t2 by simp
  from CIDRTrie_add_all [OF P new _ _ this]
  have c: "cidr_ok c4 c6 t2" "cidr_contents c4 c6 t2 = (cidr_contents c4 c6 (NewCIDRTrie P4 P6))(p \<mapsto> r2)"
    using k by (simp_all add: NewCIDRTrie_def)
  have "cidr_contents c4 c6 (NewCIDRTrie P4 P6) = Map.empty"
    using P by (simp add: NewCIDRTrie_def patricia_ok_def cidr_contents_def fun_eq_iff)
  then have "cidr_contents c4 c6 t2 = [p \<mapsto> r2]"
    unfolding c(2) by (rule arg_cong [of _ _ "\<lambda>m. m(p \<mapsto> r2)"])
  then have "CIDRTrie_Search P4 P6 a t2 = Inr (Some r2)"
    using CIDRTrie_Search_best [OF P c(1), of a] addr by (auto simp: best_match_def split: option.splits if_splits)
  moreover have "add_rules P4 P6 [r1, r2] (NewRuleSet P4 P6) = (None, rs)"
    using m k(1) t1(1) t2 by (simp add: RuleSet_Add_def NewRuleSet_def add_action_def rs_def)
  ultimately show ?thesis
    by (simp add: rs_def RuleSet_Search_def query_rule_def HigherPriority_def Rule_Clone_def)
qed

lemma ParseCIDR_10_1: "ParseCIDR ''10.0.0.1/8'' = Some (v4InV6Prefix @ [10, 0, 0, 1], \<lparr>net_IP = [10, 0, 0, 0], net_Ones = 8\<rparr>)"
  by (simp add: ParseCIDR_def ParseAddr_def parseIPv4Fields_def parseOctet_def isDigit_def digitVal_def decVal_def
      CIDRMask_def maskByte_def Let_def upt_rec)

lemma ParseIP_10: "ParseIP ''10.9.9.9'' = v4InV6Prefix @ [10, 9, 9, 9]"
  by (simp add: ParseIP_def ParseAddr_def parseIPv4Fields_def parseOctet_def isDigit_def digitVal_def decVal_def Let_def)

lemma RuleSet_cidr_alias_witness:
  "\<exists>rs. add_rules (map_tree bits32) (map_tree bits128)
      [sample_rule ''high'' 9 [] [''10.0.0.0/8''], sample_rule ''low'' 1 [] [''10.0.0.1/8'']]
      (NewRuleSet (map_tree bits32) (map_tree bits128)) = (None, rs) \<and>
    RuleSet_Search (map_tree bits32) (map_tree bits128) rs [\<lparr>q_Type = MatchTypeAddr, q_Value = ''10.9.9.9''\<rparr>] =
      Inr (Some (sample_rule ''low'' 1 [] [''10.0.0.1/8'']))"
proof (rule RuleSet_cidr_alias [OF map_tree_ok, of "''10.0.0.0/8''" "''10.0.0.1/8''"])
  show "cidr_norm ''10.0.0.0/8'' = Inr (True, take 8 (bits32 (be32 [10, 0, 0, 0])))"
    "cidr_norm ''10.0.0.1/8'' = Inr (True, take 8 (bits32 (be32 [10, 0, 0, 0])))"
    by (simp_all add: cidr_norm_def ParseCIDR_10 ParseCIDR_10_1 To4_def)
  show "in_prefix ''10.9.9.9'' (True, take 8 (bits32 (be32 [10, 0, 0, 0])))"
    by (simp add: in_prefix_def key_bits_def ParseIP_10 To4_def v4InV6Prefix_def bits32_def be32_def upt_rec)
qed (simp_all add: cidr_fits_def ParseCIDR_10 ParseCIDR_10_1 To4_def sample_rule_def)



section \<open>Every search is answered\<close>

text \<open>
  \<open>within R\<close>: the tries are well-formed, hold rules of \<open>R\<close> only, and the CIDR trie has filed at most \<open>n\<close> values.
\<close>

definition rule_cidrs :: "Rule \<Rightarrow> string list" where
  "rule_cidrs r = (case rule_Match r of None \<Rightarrow> [] | Some m \<Rightarrow> match_CIDRs m)"

definition within ::
    "('t4 \<Rightarrow> bool list \<rightharpoonup> u32) \<Rightarrow> ('t6 \<Rightarrow> bool list \<rightharpoonup> u32) \<Rightarrow> Rule set \<Rightarrow> nat \<Rightarrow> ('t4, 't6) RuleSet \<Rightarrow> bool" where
  "within c4 c6 R n rs \<longleftrightarrow> wf_node (rs_domain rs) \<and> ran (at_path (rs_domain rs)) \<subseteq> R \<and> cidr_ok c4 c6 (rs_cidr rs) \<and>
     ran (cidr_contents c4 c6 (rs_cidr rs)) \<subseteq> R \<and> length (ct_values (rs_cidr rs)) \<le> n"

lemma ran_map_upd_subset: "ran m \<subseteq> R \<Longrightarrow> r \<in> R \<Longrightarrow> ran (m(k \<mapsto> r)) \<subseteq> R"
  by (auto simp: ran_def)

lemma add_domains_within:
  assumes "within c4 c6 R n rs" and "r \<in> R" and "add_domains r ps rs = (None, rs')"
  shows "within c4 c6 R n rs'"
  using assms(1,3)
proof (induction ps arbitrary: rs)
  case (Cons p ps)
  show ?case
  proof (cases "add_action (rs_domainKeys rs p) r")
    case AddStore
    then obtain d where d: "DomainTrie_Add p r (rs_domain rs) = Inr d"
      using Cons.prems(2) by (auto split: sum.splits)
    then obtain q where "splitPattern p = Inr q"
      using dt.add_refused [of p _ r "rs_domain rs"] by (cases "splitPattern p") auto
    with dt.add_stores [of "rs_domain rs" p q r] d Cons.prems(1)
    have "wf_node d" "at_path d = (at_path (rs_domain rs))(q \<mapsto> r)"
      by (auto simp: within_def)
    then have "within c4 c6 R n (rs\<lparr>rs_domain := d, rs_domainKeys := (rs_domainKeys rs)(p \<mapsto> r)\<rparr>)"
      using Cons.prems(1) assms(2) ran_map_upd_subset [of "at_path (rs_domain rs)" R r q] by (simp add: within_def)
    with Cons.IH Cons.prems(2) AddStore d show ?thesis by simp
  qed (use Cons in auto)
qed simp

lemma add_cidrs_within:
  assumes P: "patricia_ok (\<lambda>_. True) bits32 32 P4 c4" "patricia_ok (\<lambda>b. length b = 16) bits128 128 P6 c6"
    and "within c4 c6 R n rs" and "r \<in> R" and "list_all cidr_fits cs" and "n + length cs \<le> 2 ^ 32"
    and "add_cidrs P4 P6 r cs rs = (None, rs')"
  shows "within c4 c6 R (n + length cs) rs'"
  using assms(3,5-7)
proof (induction cs arbitrary: rs n)
  case (Cons c cs)
  show ?case
  proof (cases "add_action (rs_cidrKeys rs c) r")
    case AddStore
    then obtain t where t: "CIDRTrie_Add P4 P6 c r (rs_cidr rs) = Inr t"
      using Cons.prems(4) by (auto split: sum.splits)
    then have "ParseCIDR c \<noteq> None"
      by (cases "ParseCIDR c") (auto simp: CIDRTrie_Add_def)
    then obtain p where p: "cidr_norm c = Inr p"
      by (fastforce simp: cidr_norm_def)
    have ok: "cidr_ok c4 c6 (rs_cidr rs)" "length (ct_values (rs_cidr rs)) < 2 ^ 32" "cidr_fits c"
      using Cons.prems(1-3) by (auto simp: within_def)
    have "cidr_ok c4 c6 t" "length (ct_values t) = Suc (length (ct_values (rs_cidr rs)))"
        "cidr_contents c4 c6 t = (cidr_contents c4 c6 (rs_cidr rs))(p \<mapsto> r)"
      using CIDRTrie_Add_stores [OF P ok p, of r] t by auto
    then have "within c4 c6 R (Suc n) (rs\<lparr>rs_cidr := t, rs_cidrKeys := (rs_cidrKeys rs)(c \<mapsto> r)\<rparr>)"
      using Cons.prems(1) assms(4) ran_map_upd_subset [of "cidr_contents c4 c6 (rs_cidr rs)" R r p]
      by (simp add: within_def)
    from Cons.IH [OF this] Cons.prems(2-4) AddStore t show ?thesis by simp
  next
    case AddSkip
    have "within c4 c6 R (Suc n) rs" using Cons.prems(1) by (simp add: within_def)
    from Cons.IH [OF this] Cons.prems(2-4) AddSkip show ?thesis by simp
  qed (use Cons in auto)
qed simp

lemma add_rules_within:
  assumes P: "patricia_ok (\<lambda>_. True) bits32 32 P4 c4" "patricia_ok (\<lambda>b. length b = 16) bits128 128 P6 c6"
    and "within c4 c6 R n rs" and "set rules \<subseteq> R" and "list_all (\<lambda>r. list_all cidr_fits (rule_cidrs r)) rules"
    and "n + length (concat (map rule_cidrs rules)) \<le> 2 ^ 32" and "add_rules P4 P6 rules rs = (None, rs')"
  shows "\<exists>n'. within c4 c6 R n' rs'"
  using assms(3-7)
proof (induction rules arbitrary: rs n)
  case (Cons r rules)
  obtain rs1 where a: "RuleSet_Add P4 P6 r rs = (None, rs1)" "add_rules P4 P6 rules rs1 = (None, rs')"
    using Cons.prems(5) by (auto split: prod.splits option.splits)
  obtain m rs0 where m: "rule_Match r = Some m" and d: "add_domains r (match_Domains m) rs = (None, rs0)"
    and c: "add_cidrs P4 P6 r (match_CIDRs m) rs0 = (None, rs1)"
    using a(1) by (auto simp: RuleSet_Add_def split: option.splits if_splits prod.splits)
  have "within c4 c6 R (n + length (rule_cidrs r)) rs1"
    using add_cidrs_within [OF P add_domains_within [OF Cons.prems(1) _ d] _ _ _ c] Cons.prems(2-4) m
    by (simp add: rule_cidrs_def)
  from Cons.IH [OF this _ _ _ a(2)] Cons.prems(2-4) show ?case by simp
qed auto

lemma within_new:
  assumes "patricia_ok (\<lambda>_. True) bits32 32 P4 c4" and "patricia_ok (\<lambda>b. length b = 16) bits128 128 P6 c6"
  shows "within c4 c6 R 0 (NewRuleSet P4 P6)"
proof -
  have "c4 (pt_new P4) = Map.empty" "c6 (pt_new P6) = Map.empty"
    using assms by (simp_all add: patricia_ok_def)
  then show ?thesis
    by (auto simp: within_def NewRuleSet_def NewCIDRTrie_def cidr_ok_def cidr_contents_def ran_def)
qed

lemma query_rule_within:
  assumes P: "patricia_ok (\<lambda>_. True) bits32 32 P4 c4" "patricia_ok (\<lambda>b. length b = 16) bits128 128 P6 c6"
    and w: "within c4 c6 R n rs"
  shows "\<exists>x. query_rule P4 P6 rs q = Inr x \<and> set_option x \<subseteq> R"
proof (cases "q_Type q")
  case MatchTypeDomain
  have "wf_node (rs_domain rs)" "ran (at_path (rs_domain rs)) \<subseteq> R" using w by (simp_all add: within_def)
  then have "set_option (DomainTrie_Search (q_Value q) (rs_domain rs)) \<subseteq> R"
    using dt.search_best [of "rs_domain rs" "q_Value q"] by (fastforce intro: ranI)
  then show ?thesis using MatchTypeDomain by (simp add: query_rule_def)
next
  case MatchTypeAddr
  have "cidr_ok c4 c6 (rs_cidr rs)" "ran (cidr_contents c4 c6 (rs_cidr rs)) \<subseteq> R" using w by (simp_all add: within_def)
  then obtain x where x: "CIDRTrie_Search P4 P6 (q_Value q) (rs_cidr rs) = Inr x"
      "best_match (in_prefix (q_Value q)) longer (cidr_contents c4 c6 (rs_cidr rs)) x"
    using CIDRTrie_Search_best [OF P, of "rs_cidr rs" "q_Value q"] by blast
  then have "set_option x \<subseteq> ran (cidr_contents c4 c6 (rs_cidr rs))"
    by (cases x) (auto simp: best_match_def intro: ranI)
  then have "set_option x \<subseteq> R"
    using \<open>ran (cidr_contents c4 c6 (rs_cidr rs)) \<subseteq> R\<close> by blast
  then show ?thesis using MatchTypeAddr x(1) by (simp add: query_rule_def)
qed

lemma search_loop_within:
  assumes "\<And>q. \<exists>x. query_rule P4 P6 rs q = Inr x \<and> set_option x \<subseteq> R" and "set_option best \<subseteq> R"
  shows "\<exists>x. search_loop P4 P6 rs qs best = Inr x \<and> set_option x \<subseteq> R"
  using assms(2)
proof (induction qs arbitrary: best)
  case (Cons q qs)
  obtain x where x: "query_rule P4 P6 rs q = Inr x" "set_option x \<subseteq> R" using assms(1) by blast
  have "set_option (HigherPriority best x) \<subseteq> R"
    using Cons.prems x(2) by (auto simp: HigherPriority_def split: option.splits if_splits)
  from Cons.IH [OF this] x(1) show ?case by simp
qed simp

text \<open>A rule set that filed its rules answers every list of queries, with one of the rules or none.\<close>

lemma RuleSet_Search_total:
  assumes "patricia_ok (\<lambda>_. True) bits32 32 P4 c4" and "patricia_ok (\<lambda>b. length b = 16) bits128 128 P6 c6"
    and "add_rules P4 P6 rules (NewRuleSet P4 P6) = (None, rs)"
    and "list_all (\<lambda>r. list_all cidr_fits (rule_cidrs r)) rules" and "length (concat (map rule_cidrs rules)) \<le> 2 ^ 32"
  shows "\<exists>x. RuleSet_Search P4 P6 rs qs = Inr x \<and> set_option x \<subseteq> set rules"
proof -
  obtain n where "within c4 c6 (set rules) n rs"
    using add_rules_within [OF assms(1,2) within_new [OF assms(1,2)] _ assms(4) _ assms(3)] assms(5) by auto
  from search_loop_within [OF query_rule_within [OF assms(1,2) this], of None qs]
  show ?thesis by (auto simp: RuleSet_Search_def Rule_Clone_def split: option.split)
qed

end
