(* ===== verification/Addrselect.thy ===== *)
theory Addrselect
  imports GoStd "HOL-Library.Product_Lexorder" "HOL-Library.Multiset"
begin

text \<open>
  The ordering of resolved addresses by RFC 6724 (\<open>src/internal/dns/addrselect/addrselect.go\<close>). The source
  address the system would use for a destination is the parameter \<open>route\<close>. The comparison \<open>Less\<close> is shown to
  be the strict order of a key, so that the stable sort is well defined and equal to sorting by the key.
\<close>

section \<open>net/netip\<close>

definition Addr_IsValid :: "Addr \<Rightarrow> bool" where
  "Addr_IsValid ip \<longleftrightarrow> ip \<noteq> InvalidAddr"

fun Is4 :: "Addr \<Rightarrow> bool" where
  "Is4 (Addr4 b) = True"
| "Is4 _ = False"

fun Is6 :: "Addr \<Rightarrow> bool" where
  "Is6 (Addr6 b z) = True"
| "Is6 _ = False"

fun Is4In6 :: "Addr \<Rightarrow> bool" where
  "Is4In6 (Addr6 b z) = (take 12 b = v4InV6Prefix)"
| "Is4In6 _ = False"

fun Unmap :: "Addr \<Rightarrow> Addr" where
  "Unmap (Addr6 b z) = (if take 12 b = v4InV6Prefix then Addr4 (drop 12 b) else Addr6 b z)"
| "Unmap a = a"

definition AddrFromSlice :: "bytes \<Rightarrow> Addr" where
  "AddrFromSlice b = (if length b = 4 then Addr4 b else if length b = 16 then Addr6 b [] else InvalidAddr)"

fun AsSlice :: "Addr \<Rightarrow> bytes" where
  "AsSlice InvalidAddr = []"
| "AsSlice (Addr4 b) = b"
| "AsSlice (Addr6 b z) = b"

definition IsLoopback :: "Addr \<Rightarrow> bool" where
  "IsLoopback ip =
     (case Unmap ip of
        Addr4 b \<Rightarrow> b ! 0 = 127
      | Addr6 b z \<Rightarrow> b = replicate 15 0 @ [1]
      | InvalidAddr \<Rightarrow> False)"

definition IsLinkLocalUnicast :: "Addr \<Rightarrow> bool" where
  "IsLinkLocalUnicast ip =
     (case Unmap ip of
        Addr4 b \<Rightarrow> b ! 0 = 169 \<and> b ! 1 = 254
      | Addr6 b z \<Rightarrow> b ! 0 = 0xfe \<and> b ! 1 AND 0xc0 = 0x80
      | InvalidAddr \<Rightarrow> False)"

definition IsMulticast :: "Addr \<Rightarrow> bool" where
  "IsMulticast ip =
     (case Unmap ip of
        Addr4 b \<Rightarrow> b ! 0 AND 0xf0 = 0xe0
      | Addr6 b z \<Rightarrow> b ! 0 = 0xff
      | InvalidAddr \<Rightarrow> False)"

text \<open>The bits of a byte sequence, most significant first.\<close>

definition byte_bits :: "byte \<Rightarrow> bool list" where
  "byte_bits x = map (bit x) [7, 6, 5, 4, 3, 2, 1, 0]"

definition bits_of :: "bytes \<Rightarrow> bool list" where
  "bits_of b = concat (map byte_bits b)"

text \<open>\<open>Prefix.Contains\<close> for an IPv6 prefix: only an IPv6 address without a zone can match.\<close>

fun Contains :: "bytes \<times> nat \<Rightarrow> Addr \<Rightarrow> bool" where
  "Contains (p, n) (Addr6 b z) = (z = [] \<and> take n (bits_of b) = take n (bits_of p))"
| "Contains _ _ = False"

text \<open>\<open>sort.Stable\<close>: insertion that keeps the order of elements of which neither is less.\<close>

fun insert_stable :: "('a \<Rightarrow> 'a \<Rightarrow> bool) \<Rightarrow> 'a \<Rightarrow> 'a list \<Rightarrow> 'a list" where
  "insert_stable lt x [] = [x]"
| "insert_stable lt x (y # ys) = (if lt y x then y # insert_stable lt x ys else x # y # ys)"

definition Stable :: "('a \<Rightarrow> 'a \<Rightarrow> bool) \<Rightarrow> 'a list \<Rightarrow> 'a list" where
  "Stable lt xs = foldr (insert_stable lt) xs []"

section \<open>The policy table and scopes\<close>

record policyTableEntry =
  ent_Prefix :: "bytes \<times> nat"
  ent_Precedence :: u8
  ent_Label :: u8

definition pad16 :: "bytes \<Rightarrow> bytes" where
  "pad16 b = b @ replicate (16 - length b) 0"

definition rfc6724policyTable :: "policyTableEntry list" where
  "rfc6724policyTable =
     [\<lparr>ent_Prefix = ([0, 0, 0, 0, 0, 0, 0, 0, 0, 0, 0, 0, 0, 0, 0, 1], 128), ent_Precedence = 50, ent_Label = 0\<rparr>,
      \<lparr>ent_Prefix = (pad16 [0, 0, 0, 0, 0, 0, 0, 0, 0, 0, 0xff, 0xff], 96), ent_Precedence = 35, ent_Label = 4\<rparr>,
      \<lparr>ent_Prefix = (pad16 [], 96), ent_Precedence = 1, ent_Label = 3\<rparr>,
      \<lparr>ent_Prefix = (pad16 [0x20, 0x01], 32), ent_Precedence = 5, ent_Label = 5\<rparr>,
      \<lparr>ent_Prefix = (pad16 [0x20, 0x02], 16), ent_Precedence = 30, ent_Label = 2\<rparr>,
      \<lparr>ent_Prefix = (pad16 [0x3f, 0xfe], 16), ent_Precedence = 1, ent_Label = 12\<rparr>,
      \<lparr>ent_Prefix = (pad16 [0xfe, 0xc0], 10), ent_Precedence = 1, ent_Label = 11\<rparr>,
      \<lparr>ent_Prefix = (pad16 [0xfc], 7), ent_Precedence = 3, ent_Label = 13\<rparr>,
      \<lparr>ent_Prefix = (pad16 [], 0), ent_Precedence = 40, ent_Label = 1\<rparr>]"

definition Classify :: "policyTableEntry list \<Rightarrow> Addr \<Rightarrow> policyTableEntry" where
  "Classify t ip =
     (let ip' = (if Is4 ip then Addr6 (As16 ip) [] else ip) in
      case find (\<lambda>ent. Contains (ent_Prefix ent) ip') t of
        Some ent \<Rightarrow> ent
      | None \<Rightarrow> \<lparr>ent_Prefix = ([], 0), ent_Precedence = 0, ent_Label = 0\<rparr>)"

type_synonym scope = u8

definition scopeInterfaceLocal :: scope where "scopeInterfaceLocal = 0x1"
definition scopeLinkLocal :: scope where "scopeLinkLocal = 0x2"
definition scopeAdminLocal :: scope where "scopeAdminLocal = 0x4"
definition scopeSiteLocal :: scope where "scopeSiteLocal = 0x5"
definition scopeOrgLocal :: scope where "scopeOrgLocal = 0x8"
definition scopeGlobal :: scope where "scopeGlobal = 0xe"

definition classifyScope :: "Addr \<Rightarrow> scope" where
  "classifyScope ip =
     (if IsLoopback ip \<or> IsLinkLocalUnicast ip then scopeLinkLocal
      else
        let ipv6 = (Is6 ip \<and> \<not> Is4In6 ip); ipv6AsBytes = As16 ip in
        if ipv6 \<and> IsMulticast ip then ipv6AsBytes ! 1 AND 0xf
        else if ipv6 \<and> ipv6AsBytes ! 0 = 0xfe \<and> ipv6AsBytes ! 1 AND 0xc0 = 0xc0 then scopeSiteLocal
        else scopeGlobal)"

record ipAttr =
  attr_Scope :: scope
  attr_Precedence :: u8
  attr_Label :: u8

definition ipAttrOf :: "Addr \<Rightarrow> ipAttr" where
  "ipAttrOf ip =
     (if \<not> Addr_IsValid ip then \<lparr>attr_Scope = 0, attr_Precedence = 0, attr_Label = 0\<rparr>
      else
        let m = Classify rfc6724policyTable ip in
        \<lparr>attr_Scope = classifyScope ip, attr_Precedence = ent_Precedence m, attr_Label = ent_Label m\<rparr>)"

section \<open>Common prefixes\<close>

text \<open>The inner loop shifts two different bytes until they agree.\<close>

function shift_loop :: "byte \<Rightarrow> byte \<Rightarrow> nat \<Rightarrow> nat" where
  "shift_loop ab bb bits =
     (let ab' = drop_bit 1 ab; bb' = drop_bit 1 bb; bits' = bits - 1 in
      if ab' = bb' then bits' else shift_loop ab' bb' bits')"
  by pat_completeness auto
termination
proof (relation "measure (\<lambda>(a, b, n). unat a + unat b)")
  fix ab bb :: byte and bits x xa xb
  assume x: "x = drop_bit 1 ab" "xa = drop_bit 1 bb" and ne: "x \<noteq> xa"
  have h: "unat (drop_bit 1 c) = unat c div 2" for c :: byte
    by (metis drop_bit_eq_div power_one_right unat_drop_bit_eq)
  have "unat ab \<noteq> 0 \<or> unat bb \<noteq> 0"
    using ne x by (auto simp: unat_eq_zero)
  then show "((x, xa, xb), ab, bb, bits) \<in> measure (\<lambda>(a, b, n). unat a + unat b)"
    using h [of ab] h [of bb] x by auto
qed simp

declare shift_loop.simps [simp del]

fun prefix_loop :: "bytes \<Rightarrow> bytes \<Rightarrow> nat \<Rightarrow> nat" where
  "prefix_loop (a # as) (b # bs) cpl =
     (if a = b then prefix_loop as bs (cpl + 8) else cpl + shift_loop a b 8)"
| "prefix_loop _ _ cpl = cpl"

definition commonPrefixLen :: "Addr \<Rightarrow> Addr \<Rightarrow> nat" where
  "commonPrefixLen a b =
     (let a = Unmap a; b = Unmap b in
      if Is4 a then (if \<not> Is4 b then 0 else prefix_loop (AsSlice a) (AsSlice b) 0)
      else if Is4 b then 0
      else prefix_loop (take 8 (As16 a)) (take 8 (As16 b)) 0)"

section \<open>The comparison and the sort\<close>

text \<open>\<open>Less(i, j)\<close> on the two destinations with their source addresses.\<close>

definition Less :: "Addr \<times> Addr \<Rightarrow> Addr \<times> Addr \<Rightarrow> bool" where
  "Less x y =
     (let DA = fst x; DB = fst y; SourceDA = snd x; SourceDB = snd y;
          attrDA = ipAttrOf DA; attrDB = ipAttrOf DB;
          attrSourceDA = ipAttrOf SourceDA; attrSourceDB = ipAttrOf SourceDB in
      if \<not> Addr_IsValid SourceDA \<and> \<not> Addr_IsValid SourceDB then False
      else if \<not> Addr_IsValid SourceDB then True
      else if \<not> Addr_IsValid SourceDA then False
      else if attr_Scope attrDA = attr_Scope attrSourceDA \<and> attr_Scope attrDB \<noteq> attr_Scope attrSourceDB then True
      else if attr_Scope attrDA \<noteq> attr_Scope attrSourceDA \<and> attr_Scope attrDB = attr_Scope attrSourceDB then False
      else if attr_Label attrSourceDA = attr_Label attrDA \<and> attr_Label attrSourceDB \<noteq> attr_Label attrDB then True
      else if attr_Label attrSourceDA \<noteq> attr_Label attrDA \<and> attr_Label attrSourceDB = attr_Label attrDB then False
      else if attr_Precedence attrDA > attr_Precedence attrDB then True
      else if attr_Precedence attrDA < attr_Precedence attrDB then False
      else if attr_Scope attrDA < attr_Scope attrDB then True
      else if attr_Scope attrDA > attr_Scope attrDB then False
      else if \<not> Is4 DA \<and> \<not> Is4In6 DA \<and> \<not> Is4 DB \<and> \<not> Is4In6 DB then
        let commonA = commonPrefixLen SourceDA DA; commonB = commonPrefixLen SourceDB DB in
        if commonA > commonB then True else False
      else False)"

definition sortByRFC6724withSrcs :: "Addr list \<Rightarrow> Addr list \<Rightarrow> ('e, Addr list) res" where
  "sortByRFC6724withSrcs addrs srcs =
     (if length addrs \<noteq> length srcs then Inl Panic else Inr (map fst (Stable Less (zip addrs srcs))))"

text \<open>\<open>route\<close>: the local address of a UDP socket connected to a destination, if the system has a route.\<close>

definition srcAddrs :: "(bytes \<Rightarrow> bytes option) \<Rightarrow> Addr list \<Rightarrow> Addr list" where
  "srcAddrs route addrs =
     map (\<lambda>addr. case route (AsSlice addr) of None \<Rightarrow> InvalidAddr | Some src \<Rightarrow> AddrFromSlice src) addrs"

definition SortByRFC6724 :: "(bytes \<Rightarrow> bytes option) \<Rightarrow> Addr list \<Rightarrow> ('e, Addr list) res" where
  "SortByRFC6724 route addrs =
     (if length addrs < 2 then Inr addrs else sortByRFC6724withSrcs addrs (srcAddrs route addrs))"

section \<open>The common prefix\<close>

definition first_diff :: "bool list \<Rightarrow> bool list \<Rightarrow> nat \<Rightarrow> bool" where
  "first_diff xs ys n \<longleftrightarrow> n \<le> length xs \<and> (\<forall>i < n. xs ! i = ys ! i) \<and> (n < length xs \<longrightarrow> xs ! n \<noteq> ys ! n)"

lemma byte_bits_nth: "i < 8 \<Longrightarrow> byte_bits x ! i = bit x (7 - i)"
  by (auto simp: byte_bits_def less_Suc_eq numeral_eq_Suc)

lemma length_byte_bits [simp]: "length (byte_bits x) = 8"
  by (simp add: byte_bits_def)

lemma length_bits_of [simp]: "length (bits_of b) = 8 * length b"
  by (induction b) (simp_all add: bits_of_def)

lemma drop_bit_8: "drop_bit 8 (x :: byte) = 0"
  by (rule bit_word_eqI) (auto simp: bit_drop_bit_eq dest: bit_imp_le_length)

text \<open>The loop finds the least number of shifts after which the bytes agree.\<close>

lemma shift_loop_spec:
  assumes "drop_bit j a \<noteq> drop_bit j b" and "bits + j = 8"
  shows "\<exists>k. j < k \<and> k \<le> 8 \<and> shift_loop (drop_bit j a) (drop_bit j b) bits = 8 - k \<and>
    drop_bit k a = drop_bit k b \<and> drop_bit (k - 1) a \<noteq> drop_bit (k - 1) b"
  using assms
proof (induction bits arbitrary: j)
  case 0
  then have "drop_bit j a = drop_bit j b"
    by (simp add: drop_bit_8)
  with 0 show ?case by simp
next
  case (Suc n)
  have s: "drop_bit 1 (drop_bit j x) = drop_bit (Suc j) x" for x :: byte
    by (simp add: drop_bit_drop_bit)
  show ?case
  proof (cases "drop_bit (Suc j) a = drop_bit (Suc j) b")
    case True
    then show ?thesis
      using Suc.prems by (intro exI [of _ "Suc j"]) (simp add: shift_loop.simps [of "drop_bit j a"] s Let_def)
  next
    case False
    then obtain k where k: "Suc j < k" "k \<le> 8" "shift_loop (drop_bit (Suc j) a) (drop_bit (Suc j) b) n = 8 - k"
      "drop_bit k a = drop_bit k b" "drop_bit (k - 1) a \<noteq> drop_bit (k - 1) b"
      using Suc.IH [OF False] Suc.prems(2) by auto
    then show ?thesis
      using False by (intro exI [of _ k]) (simp add: shift_loop.simps [of "drop_bit j a"] s Let_def)
  qed
qed


lemma drop_bit_eq_iff_bits: "drop_bit k a = drop_bit k b \<longleftrightarrow> (\<forall>i \<ge> k. bit a i = bit b i)" for a b :: byte
proof
  assume e: "drop_bit k a = drop_bit k b"
  show "\<forall>i \<ge> k. bit a i = bit b i"
  proof (intro allI impI)
    fix i
    assume "k \<le> i"
    then have "bit x i = bit (drop_bit k x) (i - k)" for x :: byte
      by (simp add: bit_drop_bit_eq)
    with e show "bit a i = bit b i" by metis
  qed
qed (auto simp: bit_eq_iff bit_drop_bit_eq)

lemma shift_loop_first_diff:
  assumes "a \<noteq> b"
  shows "shift_loop a b 8 < 8 \<and> first_diff (byte_bits a) (byte_bits b) (shift_loop a b 8)"
proof -
  obtain k where k: "0 < k" "k \<le> 8" "shift_loop a b 8 = 8 - k" "drop_bit k a = drop_bit k b"
    "drop_bit (k - 1) a \<noteq> drop_bit (k - 1) b"
    using shift_loop_spec [of 0 a b 8] assms by auto
  have same: "bit a i = bit b i" if "k \<le> i" for i
    using k(4) that by (simp add: drop_bit_eq_iff_bits)
  have "bit a (k - 1) \<noteq> bit b (k - 1)"
  proof
    assume "bit a (k - 1) = bit b (k - 1)"
    then have "bit a i = bit b i" if "k - 1 \<le> i" for i
      using same [of i] that k(1) by (cases "i = k - 1") auto
    with k(5) show False by (simp add: drop_bit_eq_iff_bits)
  qed
  moreover have "7 - (8 - k) = k - 1"
    using k(1,2) by simp
  moreover have "byte_bits a ! i = byte_bits b ! i" if "i < 8 - k" for i
    using that same [of "7 - i"] by (simp add: byte_bits_nth)
  ultimately show ?thesis
    using k(1-3) by (simp add: first_diff_def byte_bits_nth)
qed

lemma first_diff_append:
  assumes "length xs = length ys"
  shows "xs \<noteq> ys \<Longrightarrow> first_diff xs ys n \<Longrightarrow> n < length xs \<Longrightarrow> first_diff (xs @ us) (ys @ vs) n"
    and "xs = ys \<Longrightarrow> first_diff us vs n \<Longrightarrow> first_diff (xs @ us) (ys @ vs) (length xs + n)"
  using assms by (auto simp: first_diff_def nth_append)

lemma byte_bits_inj: "byte_bits a = byte_bits b \<longleftrightarrow> a = b"
proof
  assume e: "byte_bits a = byte_bits b"
  show "a = b"
    using shift_loop_first_diff [of a b] e by (auto simp: first_diff_def)
qed simp

lemma prefix_loop_first_diff:
  assumes "length as = length bs"
  shows "\<exists>n. prefix_loop as bs cpl = cpl + n \<and> first_diff (bits_of as) (bits_of bs) n"
  using assms
proof (induction as bs cpl rule: prefix_loop.induct)
  case (1 a as b bs cpl)
  have c: "bits_of (x # xs) = byte_bits x @ bits_of xs" for x xs
    by (simp add: bits_of_def)
  show ?case
  proof (cases "a = b")
    case True
    then obtain n where n: "prefix_loop as bs (cpl + 8) = cpl + 8 + n" "first_diff (bits_of as) (bits_of bs) n"
      using 1 by auto
    then have "first_diff (bits_of (a # as)) (bits_of (b # bs)) (8 + n)"
      using first_diff_append(2) [of "byte_bits a" "byte_bits b" "bits_of as" "bits_of bs" n] True by (simp add: c)
    with n True show ?thesis by (intro exI [of _ "8 + n"]) simp
  next
    case False
    then have "first_diff (bits_of (a # as)) (bits_of (b # bs)) (shift_loop a b 8)"
      unfolding c using shift_loop_first_diff [OF False]
      by (intro first_diff_append(1)) (simp_all add: byte_bits_inj)
    with False show ?thesis by simp
  qed
qed (simp_all add: first_diff_def bits_of_def)

lemma take_bits_of: "take (8 * n) (bits_of v) = bits_of (take n v)"
proof (induction n arbitrary: v)
  case (Suc n)
  have "take (8 * Suc n) (byte_bits x @ bits_of w) = byte_bits x @ take (8 * n) (bits_of w)" for x w
    by simp
  with Suc show ?case by (cases v) (simp_all add: bits_of_def)
qed (simp add: bits_of_def)

text \<open>
  The byte-and-shift computation of \<open>commonPrefixLen\<close> is the length of the common prefix of the bit
  strings (32 bits of two IPv4 addresses, mapped or not; the first 64 bits of two IPv6 addresses): the
  bits before it agree and the next one, if any, differs; for addresses of different families it is 0.
\<close>

lemma commonPrefixLen_correct:
  assumes "Unmap a = Addr4 x \<and> Unmap b = Addr4 y \<and> length x = 4 \<and> length y = 4 \<or>
    Unmap a = Addr6 x z \<and> Unmap b = Addr6 y z' \<and> length x = 16 \<and> length y = 16"
  shows "first_diff (take 64 (bits_of x)) (take 64 (bits_of y)) (commonPrefixLen a b) \<and>
    (Is4 (Unmap c) \<noteq> Is4 (Unmap d) \<longrightarrow> commonPrefixLen c d = 0)"
proof -
  have t: "take 64 (bits_of v) = bits_of (take 8 v)" for v
    using take_bits_of [of 8 v] by simp
  have "first_diff (bits_of (take 8 x)) (bits_of (take 8 y)) (commonPrefixLen a b)"
    using assms prefix_loop_first_diff [of "take 8 x" "take 8 y" 0]
    by (auto simp: commonPrefixLen_def)
  moreover have "Is4 (Unmap c) \<noteq> Is4 (Unmap d) \<longrightarrow> commonPrefixLen c d = 0"
    by (simp add: commonPrefixLen_def Let_def)
  ultimately show ?thesis by (simp only: t)
qed

lemma commonPrefixLen_correct_sample:
  "first_diff (take 64 (bits_of [10, 0, 0, 1])) (take 64 (bits_of [10, 0, 9, 1]))
     (commonPrefixLen (Addr4 [10, 0, 0, 1]) (Addr6 (v4InV6Prefix @ [10, 0, 9, 1]) []))"
  using commonPrefixLen_correct [of "Addr4 [10, 0, 0, 1]" "[10, 0, 0, 1]"
      "Addr6 (v4InV6Prefix @ [10, 0, 9, 1]) []" "[10, 0, 9, 1]"] by simp

section \<open>The comparison is the order of a key\<close>

fun wf_addr :: "Addr \<Rightarrow> bool" where
  "wf_addr (Addr4 b) = (length b = 4)"
| "wf_addr (Addr6 b z) = (length b = 16 \<and> z = [])"
| "wf_addr InvalidAddr = False"

definition isV4 :: "Addr \<Rightarrow> bool" where
  "isV4 ip \<longleftrightarrow> Is4 ip \<or> Is4In6 ip"

lemma bits_of_inj: "length a = length b \<Longrightarrow> bits_of a = bits_of b \<longleftrightarrow> a = b"
  by (induction a b rule: list_induct2) (auto simp: bits_of_def byte_bits_inj)

lemma Contains_bytes:
  "length b = 16 \<Longrightarrow> length p = 16 \<Longrightarrow> n \<le> 16 \<Longrightarrow> Contains (p, 8 * n) (Addr6 b []) \<longleftrightarrow> take n b = take n p"
  by (simp add: take_bits_of bits_of_inj)

text \<open>Precedence 35 is the mark of IPv4, plain or mapped.\<close>

lemma precedence_v4:
  assumes "wf_addr d"
  shows "attr_Precedence (ipAttrOf d) = 35 \<longleftrightarrow> isV4 d"
proof -
  define b where "b = As16 d"
  have b: "length b = 16"
    using assms by (cases d) (simp_all add: b_def)
  have valid: "Addr_IsValid d"
    using assms by (cases d) (simp_all add: Addr_IsValid_def)
  have v4: "isV4 d \<longleftrightarrow> take 12 b = v4InV6Prefix"
    using assms by (cases d) (simp_all add: isV4_def b_def)
  have c: "ipAttrOf d = (let m = Classify rfc6724policyTable (Addr6 b []) in
      \<lparr>attr_Scope = classifyScope d, attr_Precedence = ent_Precedence m, attr_Label = ent_Label m\<rparr>)"
    using assms valid by (cases d) (simp_all add: ipAttrOf_def Classify_def b_def)
  have one: "Contains ([0, 0, 0, 0, 0, 0, 0, 0, 0, 0, 0, 0, 0, 0, 0, 1], 128) (Addr6 b []) \<longleftrightarrow>
      b = [0, 0, 0, 0, 0, 0, 0, 0, 0, 0, 0, 0, 0, 0, 0, 1]"
    using Contains_bytes [OF b, of "[0, 0, 0, 0, 0, 0, 0, 0, 0, 0, 0, 0, 0, 0, 0, 1]" 16] b by simp
  have mapped: "Contains (pad16 [0, 0, 0, 0, 0, 0, 0, 0, 0, 0, 0xff, 0xff], 96) (Addr6 b []) \<longleftrightarrow> take 12 b = v4InV6Prefix"
    using Contains_bytes [OF b, of "pad16 [0, 0, 0, 0, 0, 0, 0, 0, 0, 0, 0xff, 0xff]" 12]
    by (simp add: pad16_def v4InV6Prefix_def)
  have ne: "take 12 b = v4InV6Prefix \<Longrightarrow> b \<noteq> [0, 0, 0, 0, 0, 0, 0, 0, 0, 0, 0, 0, 0, 0, 0, 1]"
    by (auto simp: v4InV6Prefix_def)
  show ?thesis
    unfolding c v4 using ne
    by (auto simp: Classify_def rfc6724policyTable_def Let_def one mapped simp del: Contains.simps)
qed

lemma prefix_loop_le: "prefix_loop as bs n \<le> n + 8 * length as"
proof (induction as bs n rule: prefix_loop.induct)
  case (1 a as b bs n)
  then show ?case
    using shift_loop_first_diff [of a b] by (cases "a = b") auto
qed simp_all

lemma commonPrefixLen_le: "\<not> isV4 d \<Longrightarrow> commonPrefixLen s d \<le> 64"
  using prefix_loop_le [of "take 8 (As16 (Unmap s))" "take 8 (As16 (Unmap d))" 0]
  by (cases d) (auto simp: commonPrefixLen_def isV4_def Let_def)

definition rank_key :: "Addr \<times> Addr \<Rightarrow> nat \<times> nat \<times> nat \<times> nat \<times> nat \<times> nat" where
  "rank_key x =
     (let d = fst x; s = snd x; ad = ipAttrOf d; as = ipAttrOf s in
      if \<not> Addr_IsValid s then (1, 0, 0, 0, 0, 0)
      else (0, if attr_Scope ad = attr_Scope as then 0 else 1, if attr_Label as = attr_Label ad then 0 else 1,
            255 - unat (attr_Precedence ad), unat (attr_Scope ad), if isV4 d then 0 else 64 - commonPrefixLen s d))"

text \<open>The chain of rules 2 to 10 as a lexicographic order.\<close>

lemma rule_chain:
  fixes p p' s s' :: byte and c c' :: nat
  assumes "p = p' \<longrightarrow> v = v'" and "\<not> v \<longrightarrow> c \<le> 64" and "\<not> v' \<longrightarrow> c' \<le> 64"
  shows "(if m \<and> \<not> m' then True else if \<not> m \<and> m' then False
     else if l \<and> \<not> l' then True else if \<not> l \<and> l' then False
     else if p > p' then True else if p < p' then False
     else if s < s' then True else if s > s' then False
     else if \<not> v \<and> \<not> v' then (if c > c' then True else False) else False) \<longleftrightarrow>
   (if m then 0 else 1 :: nat, if l then 0 else 1 :: nat, 255 - unat p, unat s, if v then 0 else 64 - c) <
   (if m' then 0 else 1, if l' then 0 else 1, 255 - unat p', unat s', if v' then 0 else 64 - c')"
proof -
  have p: "255 - unat p < 255 - unat p' \<longleftrightarrow> p' < p" "255 - unat p \<le> 255 - unat p' \<longleftrightarrow> \<not> p < p'"
    unfolding word_less_nat_alt using unat_byte_less [of p] unat_byte_less [of p'] by linarith+
  have s: "unat s < unat s' \<longleftrightarrow> s < s'" "unat s \<le> unat s' \<longleftrightarrow> \<not> s' < s"
    by (simp_all add: word_less_nat_alt not_less)
  have "((if v then 0 else 64 - c) < (if v' then 0 else 64 - c')) \<longleftrightarrow> \<not> v \<and> \<not> v' \<and> c' < c" if "p = p'"
    using assms that by (cases v) auto
  then show ?thesis
    unfolding less_prod_simp p s
    by (cases m; cases m'; cases l; cases l'; cases "p = p'") (auto simp: not_less)
qed

lemma Less_rank_key:
  assumes "wf_addr (fst x)" and "wf_addr (fst y)"
  shows "Less x y \<longleftrightarrow> rank_key x < rank_key y"
proof (cases "Addr_IsValid (snd x) \<and> Addr_IsValid (snd y)")
  case True
  define s where "s z = attr_Scope (ipAttrOf (fst z))" for z :: "Addr \<times> Addr"
  define m where "m z \<longleftrightarrow> s z = attr_Scope (ipAttrOf (snd z))" for z
  define l where "l z \<longleftrightarrow> attr_Label (ipAttrOf (snd z)) = attr_Label (ipAttrOf (fst z))" for z :: "Addr \<times> Addr"
  define p where "p z = attr_Precedence (ipAttrOf (fst z))" for z :: "Addr \<times> Addr"
  define v where "v z = isV4 (fst z)" for z :: "Addr \<times> Addr"
  define c where "c z = commonPrefixLen (snd z) (fst z)" for z :: "Addr \<times> Addr"
  have "p x = p y \<longrightarrow> v x = v y" "\<not> v x \<longrightarrow> c x \<le> 64" "\<not> v y \<longrightarrow> c y \<le> 64"
    using precedence_v4 [OF assms(1)] precedence_v4 [OF assms(2)] commonPrefixLen_le
    by (auto simp: p_def v_def c_def)
  note chain = rule_chain [OF this, of "m x" "m y" "l x" "l y" "s x" "s y"]
  have "\<not> Is4 (fst x) \<and> \<not> Is4In6 (fst x) \<and> \<not> Is4 (fst y) \<and> \<not> Is4In6 (fst y) \<longleftrightarrow> \<not> v x \<and> \<not> v y"
    by (simp add: v_def isV4_def)
  then have less: "Less x y \<longleftrightarrow> (if m x \<and> \<not> m y then True else if \<not> m x \<and> m y then False
      else if l x \<and> \<not> l y then True else if \<not> l x \<and> l y then False
      else if p x > p y then True else if p x < p y then False
      else if s x < s y then True else if s x > s y then False
      else if \<not> v x \<and> \<not> v y then (if c x > c y then True else False) else False)"
    unfolding Less_def Let_def m_def [symmetric] l_def [symmetric] p_def [symmetric] s_def [symmetric] c_def [symmetric]
    using True by (simp only: simp_thms if_True if_False)
  have key: "rank_key z = (0, if m z then 0 else 1, if l z then 0 else 1, 255 - unat (p z), unat (s z),
      if v z then 0 else 64 - c z)" if "Addr_IsValid (snd z)" for z
    using that unfolding rank_key_def Let_def m_def [symmetric] l_def [symmetric] p_def [symmetric] s_def [symmetric]
      c_def [symmetric] v_def [symmetric] by (simp only: simp_thms if_False)
  have zero: "((0 :: nat), a) < (0, b) \<longleftrightarrow> a < b" for a b :: "nat \<times> nat \<times> nat \<times> nat \<times> nat"
    by (simp add: less_prod_simp)
  show ?thesis
    using True by (simp only: less key zero chain)
next
  case False
  then show ?thesis
    by (auto simp: Less_def rank_key_def Let_def less_prod_simp)
qed

lemma insert_stable_insort:
  assumes "\<And>y. y \<in> insert x (set ys) \<Longrightarrow> lt y x \<longleftrightarrow> f y < f x"
  shows "insert_stable lt x ys = insort_key f x ys"
  using assms by (induction ys) (auto simp: not_less)

lemma Stable_sort_key:
  fixes f :: "'a \<Rightarrow> 'b :: linorder"
  assumes "\<And>x y. x \<in> set xs \<Longrightarrow> y \<in> set xs \<Longrightarrow> lt x y \<longleftrightarrow> f x < f y"
  shows "Stable lt xs = sort_key f xs"
  using assms
proof (induction xs)
  case (Cons x xs)
  have "insert_stable lt x (sort_key f xs) = insort_key f x (sort_key f xs)"
    using Cons.prems by (intro insert_stable_insort) auto
  with Cons show ?case by (simp add: Stable_def)
qed (simp add: Stable_def)

text \<open>
  C27: on addresses without a zone, \<open>SortByRFC6724\<close> never panics and returns the stable sort of the
  addresses by one key: reachable first, then matching scope, matching label, higher precedence,
  smaller scope and, for IPv6 only, the longer common prefix with the source address. The rule for
  IPv6 only does not break transitivity, since IPv4 and IPv6 never have the same precedence.
\<close>

theorem SortByRFC6724_sorts:
  assumes "list_all wf_addr addrs"
  shows "(SortByRFC6724 route addrs :: ('e, Addr list) res) =
    Inr (map fst (sort_key rank_key (zip addrs (srcAddrs route addrs))))"
proof (cases "length addrs < 2")
  case True
  then consider "addrs = []" | a where "addrs = [a]"
    by (cases addrs; cases "tl addrs") auto
  then show ?thesis
    by cases (simp_all add: SortByRFC6724_def srcAddrs_def)
next
  case False
  have "Stable Less (zip addrs (srcAddrs route addrs)) = sort_key rank_key (zip addrs (srcAddrs route addrs))"
  proof (rule Stable_sort_key)
    fix x y
    assume "x \<in> set (zip addrs (srcAddrs route addrs))" "y \<in> set (zip addrs (srcAddrs route addrs))"
    then have "wf_addr (fst x)" "wf_addr (fst y)"
      using assms unfolding list_all_iff by (metis prod.collapse set_zip_leftD)+
    then show "Less x y \<longleftrightarrow> rank_key x < rank_key y"
      by (rule Less_rank_key)
  qed
  with False show ?thesis
    by (simp add: SortByRFC6724_def sortByRFC6724withSrcs_def srcAddrs_def)
qed

theorem SortByRFC6724_sorts_witness:
  "(SortByRFC6724 (\<lambda>_. None) [Addr4 [1, 2, 3, 4], Addr6 (replicate 16 0) []] :: (unit, Addr list) res) =
    Inr (map fst (sort_key rank_key (zip [Addr4 [1, 2, 3, 4], Addr6 (replicate 16 0) []]
      (srcAddrs (\<lambda>_. None) [Addr4 [1, 2, 3, 4], Addr6 (replicate 16 0) []]))))"
  by (rule SortByRFC6724_sorts) simp


end
