(* ===== verification/Proto.thy ===== *)
theory Proto
  imports TLS GoStd
begin

text \<open>
  The SOCKS5 and HTTP messages of \<open>src/internal/proto\<close> (\<open>socks5.go\<close>, \<open>http.go\<close>) and the per-connection
  context values of \<open>src/internal/session/session.go\<close>. A connection is read as a byte list; \<open>net/http\<close>'s own
  request parser is not modelled, a request is the record of the two fields the code reads.
\<close>

section \<open>SOCKS5\<close>

definition SOCKSVersion :: byte where "SOCKSVersion = 0x05"
definition SOCKS5AuthNone :: byte where "SOCKS5AuthNone = 0x00"
definition SOCKS5AuthNoAccept :: byte where "SOCKS5AuthNoAccept = 0xFF"
definition SOCKS5CmdConnect :: byte where "SOCKS5CmdConnect = 0x01"
definition SOCKS5CmdBind :: byte where "SOCKS5CmdBind = 0x02"
definition SOCKS5CmdUDPAssociate :: byte where "SOCKS5CmdUDPAssociate = 0x03"
definition SOCKS5AddrTypeIPv4 :: byte where "SOCKS5AddrTypeIPv4 = 0x01"
definition SOCKS5AddrTypeFQDN :: byte where "SOCKS5AddrTypeFQDN = 0x03"
definition SOCKS5AddrTypeIPv6 :: byte where "SOCKS5AddrTypeIPv6 = 0x04"
definition SOCKS5RCodeSuccess :: byte where "SOCKS5RCodeSuccess = 0x00"
definition SOCKS5RCodeGenFailure :: byte where "SOCKS5RCodeGenFailure = 0x01"
definition SOCKS5RCodeCmdNotSupported :: byte where "SOCKS5RCodeCmdNotSupported = 0x07"
definition SOCKS5RCodeAddrNotSupported :: byte where "SOCKS5RCodeAddrNotSupported = 0x08"

lemmas socks_consts =
  SOCKSVersion_def SOCKS5AddrTypeIPv4_def SOCKS5AddrTypeFQDN_def SOCKS5AddrTypeIPv6_def
  SOCKS5RCodeSuccess_def SOCKS5RCodeGenFailure_def SOCKS5RCodeCmdNotSupported_def

text \<open>The FQDN is a Go string, that is its bytes; the nil IP is the empty list.\<close>

record SOCKS5Request =
  sr_Cmd :: byte
  sr_ATYP :: byte
  sr_FQDN :: bytes
  sr_IP :: IP
  sr_Port :: int

datatype socks_error = SocksRead read_error | VersionMismatch byte | UnsupportedATYP byte

definition ReadSocks5Request :: "bytes \<Rightarrow> (socks_error, SOCKS5Request \<times> bytes) res" where
  "ReadSocks5Request inp =
     bindR (mapErr SocksRead (ReadFull 4 inp)) (\<lambda>(header, inp).
     if header ! 0 \<noteq> SOCKSVersion then Inl (Err (VersionMismatch (header ! 0)))
     else
       let cmd = header ! 1; atyp = header ! 3 in
       bindR (if atyp = SOCKS5AddrTypeIPv4 then
                bindR (mapErr SocksRead (ReadFull 4 inp)) (\<lambda>(buf, inp). Inr ([], buf, inp))
              else if atyp = SOCKS5AddrTypeFQDN then
                bindR (mapErr SocksRead (ReadFull 1 inp)) (\<lambda>(lenBuf, inp).
                bindR (mapErr SocksRead (ReadFull (unat (lenBuf ! 0)) inp)) (\<lambda>(domainBuf, inp).
                Inr (domainBuf, [], inp)))
              else if atyp = SOCKS5AddrTypeIPv6 then
                bindR (mapErr SocksRead (ReadFull 16 inp)) (\<lambda>(buf, inp). Inr ([], buf, inp))
              else Inl (Err (UnsupportedATYP atyp))) (\<lambda>(domain, ip, inp).
       bindR (mapErr SocksRead (ReadFull 2 inp)) (\<lambda>(portBuf, inp).
       Inr (\<lparr>sr_Cmd = cmd, sr_ATYP = atyp, sr_FQDN = domain, sr_IP = ip,
             sr_Port = int (unat (be16 (portBuf ! 0) (portBuf ! 1)))\<rparr>, inp))))"

record SOCKS5Reply =
  rep_Rep :: byte
  rep_BindIP :: IP
  rep_BindPort :: int

definition NewSOCKS5Reply :: "byte \<Rightarrow> SOCKS5Reply" where
  "NewSOCKS5Reply rep = \<lparr>rep_Rep = rep, rep_BindIP = v4InV6Prefix @ [0, 0, 0, 0], rep_BindPort = 0\<rparr>"

definition SOCKS5SuccessResponse :: SOCKS5Reply where
  "SOCKS5SuccessResponse = NewSOCKS5Reply SOCKS5RCodeSuccess"

definition SOCKS5FailureResponse :: SOCKS5Reply where
  "SOCKS5FailureResponse = NewSOCKS5Reply SOCKS5RCodeGenFailure"

definition SOCKS5CommandNotSupportedResponse :: SOCKS5Reply where
  "SOCKS5CommandNotSupportedResponse = NewSOCKS5Reply SOCKS5RCodeCmdNotSupported"

definition Reply_Bind :: "IP \<Rightarrow> SOCKS5Reply \<Rightarrow> SOCKS5Reply" where
  "Reply_Bind ip r = (if ip \<noteq> [] then r\<lparr>rep_BindIP := ip\<rparr> else r)"

definition Reply_Port :: "int \<Rightarrow> SOCKS5Reply \<Rightarrow> SOCKS5Reply" where
  "Reply_Port port r = r\<lparr>rep_BindPort := port\<rparr>"

text \<open>The one buffer \<open>Write\<close> hands to the writer.\<close>

definition Reply_Write :: "SOCKS5Reply \<Rightarrow> bytes" where
  "Reply_Write r =
     [SOCKSVersion, rep_Rep r, 0x00, SOCKS5AddrTypeIPv4] @
     (case To4 (rep_BindIP r) of Some ip4 \<Rightarrow> ip4 | None \<Rightarrow> replicate 4 0) @
     put16 (of_int (rep_BindPort r))"

section \<open>HTTP\<close>

definition validMethods :: "string list" where
  "validMethods =
     [''DELETE'', ''GET'', ''HEAD'', ''POST'', ''PUT'', ''CONNECT'', ''OPTIONS'', ''TRACE'', ''COPY'', ''LOCK'',
      ''MKCOL'', ''MOVE'', ''PROPFIND'', ''PROPPATCH'', ''SEARCH'', ''UNLOCK'', ''BIND'', ''REBIND'', ''UNBIND'',
      ''ACL'', ''REPORT'', ''MKACTIVITY'', ''CHECKOUT'', ''MERGE'', ''M-SEARCH'', ''NOTIFY'', ''SUBSCRIBE'',
      ''UNSUBSCRIBE'', ''PATCH'', ''PURGE'', ''MKCALENDAR'', ''LINK'', ''UNLINK'']"

record HTTPRequest =
  req_Host :: string
  req_Method :: string

definition ExtractHost :: "HTTPRequest \<Rightarrow> string" where
  "ExtractHost r = (case SplitHostPort (req_Host r) of None \<Rightarrow> req_Host r | Some (host, _) \<Rightarrow> host)"

text \<open>The error of \<open>strconv.Atoi\<close> is None.\<close>

definition ExtractPort :: "HTTPRequest \<Rightarrow> int option" where
  "ExtractPort r =
     (case SplitHostPort (req_Host r) of
        None \<Rightarrow> if req_Method r = ''CONNECT'' then Some 443 else Some 80
      | Some (_, port) \<Rightarrow> Atoi port)"

definition IsValidMethod :: "HTTPRequest \<Rightarrow> bool" where
  "IsValidMethod r \<longleftrightarrow> req_Method r \<in> set validMethods"

definition IsConnectMethod :: "HTTPRequest \<Rightarrow> bool" where
  "IsConnectMethod r \<longleftrightarrow> req_Method r = ''CONNECT''"

record HTTPResponse =
  resp_ProtoMajor :: int
  resp_ProtoMinor :: int
  resp_StatusCode :: int
  resp_Status :: string

definition HTTPBadGatewayResponse :: HTTPResponse where
  "HTTPBadGatewayResponse =
     \<lparr>resp_ProtoMajor = 1, resp_ProtoMinor = 1, resp_StatusCode = 502, resp_Status = ''502 Bad Gateway''\<rparr>"

definition HTTPConnectionEstablishedResponse :: HTTPResponse where
  "HTTPConnectionEstablishedResponse =
     \<lparr>resp_ProtoMajor = 1, resp_ProtoMinor = 1, resp_StatusCode = 200, resp_Status = ''200 Connection Established''\<rparr>"

definition HTTPForbiddenResponse :: HTTPResponse where
  "HTTPForbiddenResponse =
     \<lparr>resp_ProtoMajor = 1, resp_ProtoMinor = 1, resp_StatusCode = 403, resp_Status = ''403 Forbidden''\<rparr>"

definition HTTPBadRequestResponse :: HTTPResponse where
  "HTTPBadRequestResponse =
     \<lparr>resp_ProtoMajor = 1, resp_ProtoMinor = 1, resp_StatusCode = 400, resp_Status = ''400 Bad Request''\<rparr>"

definition HTTPNotImplementedResponse :: HTTPResponse where
  "HTTPNotImplementedResponse =
     \<lparr>resp_ProtoMajor = 1, resp_ProtoMinor = 1, resp_StatusCode = 501, resp_Status = ''501 Not Implemented''\<rparr>"

section \<open>Session context\<close>

text \<open>A context is the chain of its \<open>WithValue\<close> layers, innermost first.\<close>

datatype ctx_key = traceIDCtxKey | policyIncludedCtxKey | shouldExploitCtxKey | hostInfoCtxKey

datatype ctx_value = CtxString string | CtxBool bool

type_synonym ctx = "(ctx_key \<times> ctx_value) list"

definition ctx_string :: "ctx \<Rightarrow> ctx_key \<Rightarrow> string option" where
  "ctx_string c k = (case map_of c k of Some (CtxString s) \<Rightarrow> Some s | _ \<Rightarrow> None)"

definition ctx_bool :: "ctx \<Rightarrow> ctx_key \<Rightarrow> bool option" where
  "ctx_bool c k = (case map_of c k of Some (CtxBool b) \<Rightarrow> Some b | _ \<Rightarrow> None)"

definition TraceIDFrom :: "ctx \<Rightarrow> string \<times> bool" where
  "TraceIDFrom c =
     (case ctx_string c traceIDCtxKey of Some s \<Rightarrow> (s, True) | None \<Rightarrow> (''0000000000000000'', False))"

text \<open>The loop of \<open>generateTraceID\<close>, from the last digit on, for the random value \<open>q\<close>.\<close>

definition trace_digit :: "u64 \<Rightarrow> byte" where
  "trace_digit q = (let r = ucast (q AND 0xF) :: byte; r = (if r > 9 then r + 0x27 else r) in r + 0x30)"

fun trace_loop :: "nat \<Rightarrow> u64 \<Rightarrow> bytes \<Rightarrow> bytes" where
  "trace_loop 0 q b = b"
| "trace_loop (Suc i) q b = trace_loop i (drop_bit 4 q) (trace_digit q # b)"

definition generateTraceID :: "u64 \<Rightarrow> string" where
  "generateTraceID q = map (\<lambda>x. char_of (unat x)) (trace_loop 16 q [])"

definition WithNewTraceID :: "u64 \<Rightarrow> ctx \<Rightarrow> ctx" where
  "WithNewTraceID q c = (if snd (TraceIDFrom c) then c else (traceIDCtxKey, CtxString (generateTraceID q)) # c)"

definition WithHostInfo :: "string \<Rightarrow> ctx \<Rightarrow> ctx" where
  "WithHostInfo domain c = (hostInfoCtxKey, CtxString domain) # c"

definition HostInfoFrom :: "ctx \<Rightarrow> string \<times> bool" where
  "HostInfoFrom c = (case ctx_string c hostInfoCtxKey of Some s \<Rightarrow> (s, True) | None \<Rightarrow> ([], False))"

definition WithPolicyIncluded :: "bool \<Rightarrow> ctx \<Rightarrow> ctx" where
  "WithPolicyIncluded b c = (policyIncludedCtxKey, CtxBool b) # c"

definition PolicyIncludedFrom :: "ctx \<Rightarrow> bool \<times> bool" where
  "PolicyIncludedFrom c = (case ctx_bool c policyIncludedCtxKey of Some b \<Rightarrow> (b, True) | None \<Rightarrow> (False, False))"

definition WithShouldExploit :: "bool \<Rightarrow> ctx \<Rightarrow> ctx" where
  "WithShouldExploit b c = (shouldExploitCtxKey, CtxBool b) # c"

definition ShouldExploitFrom :: "ctx \<Rightarrow> bool \<times> bool" where
  "ShouldExploitFrom c = (case ctx_bool c shouldExploitCtxKey of Some b \<Rightarrow> (b, True) | None \<Rightarrow> (False, False))"

section \<open>Properties of the SOCKS5 messages\<close>

definition enc_request :: "byte \<Rightarrow> SOCKS5Request \<Rightarrow> bytes" where
  "enc_request rsv r =
     [SOCKSVersion, sr_Cmd r, rsv, sr_ATYP r] @
     (if sr_ATYP r = SOCKS5AddrTypeFQDN then of_nat (length (sr_FQDN r)) # sr_FQDN r else sr_IP r) @
     put16 (of_int (sr_Port r))"

definition wf_request :: "SOCKS5Request \<Rightarrow> bool" where
  "wf_request r \<longleftrightarrow>
     (sr_ATYP r = SOCKS5AddrTypeIPv4 \<and> length (sr_IP r) = 4 \<and> sr_FQDN r = [] \<or>
      sr_ATYP r = SOCKS5AddrTypeFQDN \<and> sr_IP r = [] \<and> length (sr_FQDN r) \<le> 255 \<or>
      sr_ATYP r = SOCKS5AddrTypeIPv6 \<and> length (sr_IP r) = 16 \<and> sr_FQDN r = []) \<and>
     0 \<le> sr_Port r \<and> sr_Port r < 2 ^ 16"

lemma ReadFull_Inr_iff: "ReadFull n r = Inr (a, b) \<longleftrightarrow> r = a @ b \<and> length a = n"
  by (auto simp: ReadFull_def)

lemma put16_be16: "length p = 2 \<Longrightarrow> put16 (be16 (p ! 0) (p ! 1)) = p"
proof -
  assume "length p = 2"
  then obtain a b where p: "p = [a, b]"
    by (auto simp: length_Suc_conv numeral_2_eq_2)
  have "ucast (drop_bit 8 (be16 a b)) = a" "ucast (be16 a b) = b"
    by (rule bit_word_eqI; auto simp: be16_def bit_simps dest: bit_imp_le_length)+
  then show ?thesis by (simp add: p put16_def)
qed

lemma of_int_port: "(of_int (int (unat w)) :: u16) = w"
  by simp

lemma port_of_int: "0 \<le> n \<Longrightarrow> n < 2 ^ 16 \<Longrightarrow> int (unat (of_int n :: u16)) = n"
  by (simp add: unat_eq_nat_uint uint_word_of_int_eq take_bit_int_eq_self)

lemma request_read:
  assumes "wf_request r"
  shows "ReadSocks5Request (enc_request rsv r @ rest) = Inr (r, rest)"
proof -
  have p: "uint (word_of_int (sr_Port r) :: u16) = sr_Port r"
    using assms by (simp add: wf_request_def uint_word_of_int_eq take_bit_int_eq_self)
  have h: "ReadFull 4 (enc_request rsv r @ rest) = Inr ([SOCKSVersion, sr_Cmd r, rsv, sr_ATYP r],
      (if sr_ATYP r = SOCKS5AddrTypeFQDN then of_nat (length (sr_FQDN r)) # sr_FQDN r else sr_IP r) @
      put16 (of_int (sr_Port r)) @ rest)"
    by (simp add: ReadFull_Inr_iff enc_request_def)
  have f: "ReadFull 1 (of_nat (length (sr_FQDN r)) # sr_FQDN r @ put16 (of_int (sr_Port r)) @ rest) =
      Inr ([of_nat (length (sr_FQDN r))], sr_FQDN r @ put16 (of_int (sr_Port r)) @ rest)"
    by (simp add: ReadFull_Inr_iff)
  have l: "length (sr_FQDN r) \<le> 255 \<Longrightarrow> unat (of_nat (length (sr_FQDN r)) :: byte) = length (sr_FQDN r)"
    by (simp add: unat_of_nat)
  show ?thesis
    using assms unfolding ReadSocks5Request_def h
    by (auto simp: wf_request_def socks_consts f l p simp del: One_nat_def)
qed

lemma byte_le_255: "unat (y :: byte) \<le> 255"
  using unat_byte_less [of y] by linarith

lemma request_parsed:
  assumes "ReadSocks5Request inp = Inr (r, rest)"
  shows "\<exists>rsv. inp = enc_request rsv r @ rest \<and> wf_request r"
proof -
  obtain hd inp1 where h: "ReadFull 4 inp = Inr (hd, inp1)" and v: "hd ! 0 = SOCKSVersion"
    using assms by (auto simp: ReadSocks5Request_def bindR_eq_Inr_iff split: if_splits prod.splits)
  obtain p0 p1 p2 p3 where hd: "hd = [p0, p1, p2, p3]"
    using h by (auto simp: ReadFull_Inr_iff length_Suc_conv numeral_eq_Suc)
  obtain dom ip inp2 pb where
    a: "(if p3 = SOCKS5AddrTypeIPv4 then dom = [] \<and> length ip = 4 \<and> inp1 = ip @ inp2
         else if p3 = SOCKS5AddrTypeFQDN then ip = [] \<and> length dom \<le> 255 \<and> inp1 = of_nat (length dom) # dom @ inp2
         else p3 = SOCKS5AddrTypeIPv6 \<and> dom = [] \<and> length ip = 16 \<and> inp1 = ip @ inp2)"
    and pb: "length pb = 2" "inp2 = pb @ rest"
    and r: "r = \<lparr>sr_Cmd = p1, sr_ATYP = p3, sr_FQDN = dom, sr_IP = ip, sr_Port = int (unat (be16 (pb ! 0) (pb ! 1)))\<rparr>"
    using assms v byte_le_255 unfolding ReadSocks5Request_def h
    by (auto simp: hd bindR_eq_Inr_iff ReadFull_Inr_iff length_Suc_conv le_less_Suc_eq split: if_splits prod.splits)
  have "inp = enc_request p2 r @ rest"
    using h a v pb put16_be16 [OF pb(1)] by (auto simp: ReadFull_Inr_iff hd r enc_request_def socks_consts split: if_splits)
  moreover have "wf_request r"
    using a uint_bounded [of "be16 (pb ! 0) (pb ! 1)"] by (auto simp: r wf_request_def socks_consts split: if_splits)
  ultimately show ?thesis by blast
qed

text \<open>
  C28: the SOCKS5 request reader is exact. It succeeds precisely on the encodings of well-formed requests
  (any reserved byte), returns the encoded request and leaves the rest of the stream unread.
\<close>

theorem ReadSocks5Request_exact:
  "ReadSocks5Request inp = Inr (r, rest) \<longleftrightarrow> (\<exists>rsv. inp = enc_request rsv r @ rest \<and> wf_request r)"
  using request_read request_parsed by blast


text \<open>
  Every reply is exactly ten bytes in the IPv4 form. An IPv4 bind address (plain or mapped) and a port
  in range are read back from it unchanged; a reply without an address, or with an IPv6 one, carries
  0.0.0.0.
\<close>

lemma Reply_Write_roundtrip:
  assumes "0 \<le> port" and "port < 2 ^ 16"
  shows "let b = Reply_Write (Reply_Port port (Reply_Bind ip (NewSOCKS5Reply rep))) in
    length b = 10 \<and> take 4 b = [5, rep, 0, 1] \<and> int (unat (be16 (b ! 8) (b ! 9))) = port \<and>
    take 4 (drop 4 b) = (case To4 ip of Some ip4 \<Rightarrow> ip4 | None \<Rightarrow> [0, 0, 0, 0])"
proof -
  define x where "x = (case To4 ip of Some ip4 \<Rightarrow> ip4 | None \<Rightarrow> [0, 0, 0, 0])"
  define w where "w = (of_int port :: u16)"
  have x: "length x = 4"
    by (auto simp: x_def To4_length split: option.splits)
  have "To4 (v4InV6Prefix @ [0, 0, 0, 0]) = Some [0, 0, 0, 0]" "To4 [] = None"
    by (simp_all add: To4_def)
  then have b: "Reply_Write (Reply_Port port (Reply_Bind ip (NewSOCKS5Reply rep))) = [5, rep, 0, 1] @ x @ put16 w"
    by (auto simp: Reply_Write_def Reply_Port_def Reply_Bind_def NewSOCKS5Reply_def x_def w_def socks_consts
        eval_nat_numeral split: option.splits)
  obtain a1 a2 a3 a4 where xs: "x = [a1, a2, a3, a4]"
    using x by (auto simp: length_Suc_conv numeral_eq_Suc)
  have "([5, rep, 0, 1] @ x @ put16 w) ! 8 = put16 w ! 0" "([5, rep, 0, 1] @ x @ put16 w) ! 9 = put16 w ! 1"
    by (simp_all add: xs)
  then have "int (unat (be16 (([5, rep, 0, 1] @ x @ put16 w) ! 8) (([5, rep, 0, 1] @ x @ put16 w) ! 9))) = port"
    by (simp only: be16_nth_put16 w_def port_of_int [OF assms])
  moreover have "length ([5, rep, 0, 1] @ x @ put16 w) = 10" "take 4 ([5, rep, 0, 1] @ x @ put16 w) = [5, rep, 0, 1]"
    "take 4 (drop 4 ([5, rep, 0, 1] @ x @ put16 w)) = x"
    by (simp_all add: xs)
  ultimately show ?thesis
    unfolding Let_def b x_def [symmetric] by blast
qed

lemma Reply_Write_roundtrip_witness:
  "let b = Reply_Write (Reply_Port 1080 (Reply_Bind [127, 0, 0, 1] (NewSOCKS5Reply SOCKS5RCodeSuccess))) in
    length b = 10 \<and> take 4 b = [5, SOCKS5RCodeSuccess, 0, 1] \<and> int (unat (be16 (b ! 8) (b ! 9))) = 1080 \<and>
    take 4 (drop 4 b) = (case To4 [127, 0, 0, 1] of Some ip4 \<Rightarrow> ip4 | None \<Rightarrow> [0, 0, 0, 0])"
  by (rule Reply_Write_roundtrip) simp_all

section \<open>Hosts and ports of HTTP requests\<close>

definition plain_host :: "string \<Rightarrow> bool" where
  "plain_host h \<longleftrightarrow> CHR '':'' \<notin> set h \<and> CHR ''['' \<notin> set h \<and> CHR '']'' \<notin> set h"

lemma indexByte_append: "x \<notin> set p \<Longrightarrow> indexByte (p @ x # s) x = Some (length p)"
  by (induction p) auto

lemma lastIndexByte_append:
  assumes "x \<notin> set s"
  shows "lastIndexByte (p @ x # s) x = Some (length p)"
  using indexByte_append [of x "rev s" "rev p"] assms by (simp add: lastIndexByte_def)

lemma indexByte_None: "x \<notin> set s \<Longrightarrow> indexByte s x = None"
  by (induction s) auto

lemma SplitHostPort_join:
  assumes "plain_host h" and "plain_host p"
  shows "SplitHostPort (h @ '':'' @ p) = Some (h, p)"
proof -
  have "lastIndexByte (h @ '':'' @ p) CHR '':'' = Some (length h)"
    using lastIndexByte_append [of "CHR '':''" p h] assms by (simp add: plain_host_def)
  moreover have "\<not> HasPrefix (h @ '':'' @ p) ''[''"
    using assms by (cases h) (auto simp: plain_host_def)
  ultimately show ?thesis
    using assms by (simp add: SplitHostPort_def plain_host_def)
qed

lemma SplitHostPort_v6:
  assumes "CHR '']'' \<notin> set h" and "CHR ''['' \<notin> set h" and "plain_host p"
  shows "SplitHostPort (''['' @ h @ '']:'' @ p) = Some (h, p)"
proof -
  have "lastIndexByte ((''['' @ h @ '']'') @ CHR '':'' # p) CHR '':'' = Some (length h + 2)"
    using lastIndexByte_append [of "CHR '':''" p "''['' @ h @ '']''"] assms by (simp add: plain_host_def)
  moreover have "indexByte (''['' @ h @ '']:'' @ p) CHR '']'' = Some (length h + 1)"
    using indexByte_append [of "CHR '']''" "''['' @ h" "CHR '':'' # p"] assms by simp
  ultimately show ?thesis
    using assms by (simp add: SplitHostPort_def plain_host_def)
qed

text \<open>
  The host and port of a request. \<open>host:port\<close> and \<open>[v6]:port\<close> give the bare host and the port number, and a
  plain host without a port gives itself with 443 for CONNECT and 80 otherwise.
\<close>

lemma ExtractHost_Port:
  assumes "plain_host h" and "plain_host p" and "CHR '']'' \<notin> set v" and "CHR ''['' \<notin> set v"
  shows "ExtractHost \<lparr>req_Host = h @ '':'' @ p, req_Method = m\<rparr> = h \<and>
    ExtractPort \<lparr>req_Host = h @ '':'' @ p, req_Method = m\<rparr> = Atoi p \<and>
    ExtractHost \<lparr>req_Host = ''['' @ v @ '']:'' @ p, req_Method = m\<rparr> = v \<and>
    ExtractPort \<lparr>req_Host = ''['' @ v @ '']:'' @ p, req_Method = m\<rparr> = Atoi p \<and>
    ExtractHost \<lparr>req_Host = h, req_Method = m\<rparr> = h \<and>
    ExtractPort \<lparr>req_Host = h, req_Method = m\<rparr> = Some (if m = ''CONNECT'' then 443 else 80)"
proof -
  have "SplitHostPort h = None"
    using assms(1) indexByte_None [of "CHR '':''" "rev h"]
    by (simp add: SplitHostPort_def lastIndexByte_def plain_host_def)
  then show ?thesis
    using SplitHostPort_join [OF assms(1,2)] SplitHostPort_v6 [OF assms(3,4,2)]
    by (simp add: ExtractHost_def ExtractPort_def)
qed

lemma ExtractHost_Port_witness:
  "ExtractHost \<lparr>req_Host = ''[::1]:8080'', req_Method = ''GET''\<rparr> = ''::1'' \<and>
    ExtractPort \<lparr>req_Host = ''example.com:8443'', req_Method = ''CONNECT''\<rparr> = Some 8443"
  using ExtractHost_Port [of "''example.com''" "''8443''" "''::1''" "''CONNECT''"]
    ExtractHost_Port [of "''example.com''" "''8080''" "''::1''" "''GET''"]
  by (simp add: plain_host_def Atoi_def isDigit_def decVal_def digitVal_def)

section \<open>Trace identifiers\<close>

lemma trace_digit_hex:
  "hexVal (char_of (unat (trace_digit q))) = Some (unat q mod 16) \<and>
   (48 \<le> unat (trace_digit q) \<and> unat (trace_digit q) \<le> 57 \<or> 97 \<le> unat (trace_digit q) \<and> unat (trace_digit q) \<le> 102)"
proof -
  have "unat (q AND 0xF) = unat q AND mask 4"
    by (simp add: unsigned_and_eq mask_eq_exp_minus_1)
  also have "\<dots> = unat q mod 16"
    by (simp add: take_bit_eq_mask [symmetric] take_bit_eq_mod)
  finally have m: "unat (q AND 0xF) = unat q mod 16" .
  have r: "(ucast (q AND 0xF) :: byte) = of_nat (unat q mod 16)"
    unfolding m [symmetric] by simp
  define n where "n = unat q mod 16"
  have "n < 16"
    by (simp add: n_def)
  then show ?thesis
    unfolding trace_digit_def r n_def [symmetric]
    by (rule nibble_cases [rotated]) (simp add: upt_16 hexVal_def isDigit_def digitVal_def Let_def)
qed

lemma hexNum_Cons: "hexNum (c # s) = the (hexVal c) * 16 ^ length s + hexNum s"
proof -
  have "foldl (\<lambda>n c. 16 * n + the (hexVal c)) a s = a * 16 ^ length s + foldl (\<lambda>n c. 16 * n + the (hexVal c)) 0 s" for a s
  proof (induction s arbitrary: a)
    case (Cons c s)
    show ?case
      using Cons [of "16 * a + the (hexVal c)"] Cons [of "the (hexVal c)"] by (simp add: algebra_simps)
  qed simp
  from this [of "the (hexVal c)" s] show ?thesis by (simp add: hexNum_def)
qed

lemma trace_loop_value:
  "hexNum (map (\<lambda>x. char_of (unat x)) (trace_loop n q b)) =
     (unat q mod 16 ^ n) * 16 ^ length b + hexNum (map (\<lambda>x. char_of (unat x)) b)"
proof (induction n arbitrary: q b)
  case (Suc n)
  have d: "unat (drop_bit 4 q) = unat q div 16"
    by (simp only: unat_drop_bit_eq) (simp add: drop_bit_eq_div)
  have "hexNum (map (\<lambda>x. char_of (unat x)) (trace_loop (Suc n) q b)) =
      (unat q div 16 mod 16 ^ n) * 16 ^ Suc (length b) + (unat q mod 16) * 16 ^ length b + hexNum (map (\<lambda>x. char_of (unat x)) b)"
    using Suc [of "drop_bit 4 q" "trace_digit q # b"] trace_digit_hex [of q] by (simp add: d hexNum_Cons)
  also have "\<dots> = (16 * (unat q div 16 mod 16 ^ n) + unat q mod 16) * 16 ^ length b + hexNum (map (\<lambda>x. char_of (unat x)) b)"
    by (simp add: algebra_simps)
  also have "16 * (unat q div 16 mod 16 ^ n) + unat q mod 16 = unat q mod 16 ^ Suc n"
    by (simp add: mod_mult2_eq)
  finally show ?case .
qed simp

lemma trace_loop_digits:
  "list_all (\<lambda>x. hexVal (char_of (unat x)) \<noteq> None) b \<Longrightarrow>
     length (trace_loop n q b) = n + length b \<and> list_all (\<lambda>x. hexVal (char_of (unat x)) \<noteq> None) (trace_loop n q b)"
  by (induction n arbitrary: q b) (simp_all add: trace_digit_hex)

text \<open>
  A trace identifier is sixteen hexadecimal digits that spell exactly the random 64-bit value, so
  different values give different identifiers; a context that already has one keeps it, and one that has
  none gets it.
\<close>

lemma generateTraceID_hex:
  "length (generateTraceID q) = 16 \<and> list_all (\<lambda>c. hexVal c \<noteq> None) (generateTraceID q) \<and>
   hexNum (generateTraceID q) = unat q \<and>
   TraceIDFrom (WithNewTraceID q c) = (if snd (TraceIDFrom c) then TraceIDFrom c else (generateTraceID q, True))"
proof -
  have "unat q < 16 ^ 16"
    using unsigned_less [of q] by simp
  then have "hexNum (generateTraceID q) = unat q"
    using trace_loop_value [of 16 q "[]"] by (simp add: generateTraceID_def) (simp add: hexNum_def)
  moreover have "TraceIDFrom (WithNewTraceID q c) = (if snd (TraceIDFrom c) then TraceIDFrom c else (generateTraceID q, True))"
    by (simp add: WithNewTraceID_def TraceIDFrom_def ctx_string_def)
  ultimately show ?thesis
    using trace_loop_digits [of "[]" 16 q] by (simp add: generateTraceID_def list_all_iff)
qed


end
