(* ===== verification/ConfigParse.thy ===== *)
theory ConfigParse
  imports ConfigTypes Trie
begin

text \<open>
  Parsing and validation of option values: \<open>parse.go\<close>, \<open>validate.go\<close> and the lookup helpers of \<open>toml.go\<close> in
  \<open>src/internal/config\<close>. A decoded TOML document is the value the decoder of \<open>BurntSushi/toml\<close> produces; that
  decoder and \<open>zerolog.ParseLevel\<close> are not modelled. Error texts are constructors; a Go panic is \<open>Panic\<close>.
\<close>

datatype tval =
  TInt int | TString string | TBool bool | TOther
  | TList "tval list" | TTable "(string \<times> tval) list" | TTables "(string \<times> tval) list list"

datatype conf_error =
  WrongType | NotAllowed string | OutOfRange int | OutOfByteRange int | BadPattern | NoHostPort | BadIP | BadPort
  | BadCIDR string | NotHTTPS | BadBytes | NoMatch | EmptyMatch | NotTable string | Required string
  | NotAList string | NoCustomSegments | InField string conf_error | InItem string nat conf_error
  | Decode string conf_error | DecodeItem string nat conf_error | InvalidDomain string | InvalidCIDREntry string
  | InRule nat string conf_error | RuleAt nat conf_error | NoSuchFile string | FileError string | TomlSyntax
  | ParsingFile string conf_error

section \<open>Validators\<close>

text \<open>A validator returns its error, or None.\<close>

definition checkOneOf :: "string list \<Rightarrow> string \<Rightarrow> conf_error option" where
  "checkOneOf allowed v = (if v \<in> set allowed then None else Some (NotAllowed v))"

definition int64Range :: "int \<Rightarrow> int \<Rightarrow> int \<Rightarrow> conf_error option" where
  "int64Range mini maxi v = (if v < mini \<or> v > maxi then Some (OutOfRange v) else None)"

definition checkUint8 :: "int \<Rightarrow> conf_error option" where "checkUint8 = int64Range 0 255"
definition checkUint16 :: "int \<Rightarrow> conf_error option" where "checkUint16 = int64Range 0 65535"
definition checkUint8NonZero :: "int \<Rightarrow> conf_error option" where "checkUint8NonZero = int64Range 1 255"
definition checkAppMode :: "string \<Rightarrow> conf_error option" where "checkAppMode = checkOneOf availableAppModeValues"
definition checkDNSMode :: "string \<Rightarrow> conf_error option" where "checkDNSMode = checkOneOf availableDNSModeValues"
definition checkDNSQueryType :: "string \<Rightarrow> conf_error option" where
  "checkDNSQueryType = checkOneOf availableDNSQueryValues"
definition checkHTTPSSplitMode :: "string \<Rightarrow> conf_error option" where
  "checkHTTPSSplitMode = checkOneOf availableHTTPSModeValues"
definition checkLogLevel :: "string \<Rightarrow> conf_error option" where "checkLogLevel = checkOneOf availableLogLevelValues"
definition checkSegmentFrom :: "string \<Rightarrow> conf_error option" where
  "checkSegmentFrom = checkOneOf availableSegmentFromValues"
definition checkFreeBSDFibID :: "int \<Rightarrow> conf_error option" where "checkFreeBSDFibID = int64Range 1 15"

definition isAlnum :: "char \<Rightarrow> bool" where
  "isAlnum c \<longleftrightarrow> isDigit c \<or> (65 \<le> (of_char c :: nat) \<and> of_char c \<le> (90 :: nat)) \<or>
     (97 \<le> (of_char c :: nat) \<and> of_char c \<le> (122 :: nat))"

text \<open>
  The regular expression of \<open>checkDomainPattern\<close>: one or more segments between dots, each a label
  (alphanumeric at both ends, hyphens allowed inside), \<open>*\<close> or \<open>**\<close>. No segment contains a dot, so the
  segments are the parts of the string split at the dots.
\<close>

definition isLabel :: "string \<Rightarrow> bool" where
  "isLabel p \<longleftrightarrow> p \<noteq> [] \<and> list_all (\<lambda>c. isAlnum c \<or> c = CHR ''-'') p \<and> isAlnum (hd p) \<and> isAlnum (last p)"

definition isSegment :: "string \<Rightarrow> bool" where
  "isSegment p \<longleftrightarrow> isLabel p \<or> p = ''**'' \<or> p = ''*''"

definition checkDomainPattern :: "string \<Rightarrow> conf_error option" where
  "checkDomainPattern v = (if list_all isSegment (strSplit CHR ''.'' v) then None else Some BadPattern)"

definition checkHostPort :: "string \<Rightarrow> conf_error option" where
  "checkHostPort v =
     (case SplitHostPort v of
        None \<Rightarrow> Some NoHostPort
      | Some (host, port) \<Rightarrow>
          if ParseIP host = [] then Some BadIP
          else (case Atoi port of None \<Rightarrow> Some BadPort | Some portInt \<Rightarrow> checkUint16 portInt))"

definition checkCIDR :: "string \<Rightarrow> conf_error option" where
  "checkCIDR v = (case ParseCIDR v of None \<Rightarrow> Some (BadCIDR v) | Some _ \<Rightarrow> None)"

text \<open>The pattern \<open>^https?://\<close>.\<close>

definition checkHTTPSEndpoint :: "string \<Rightarrow> conf_error option" where
  "checkHTTPSEndpoint v =
     (if v \<noteq> [] \<and> \<not> (HasPrefix v ''https://'' \<or> HasPrefix v ''http://'') then Some NotHTTPS else None)"

text \<open>
  The pattern of \<open>checkHexBytesStr\<close> is a comma-separated list of \<open>0x\<close> and two hexadecimal digits, with the
  white space \<open>[\t\n\f\r ]\<close> around each; a part contains no comma.
\<close>

definition reSpace :: "char \<Rightarrow> bool" where
  "reSpace c \<longleftrightarrow> (of_char c :: nat) \<in> {9, 10, 12, 13, 32}"

definition isHexPart :: "string \<Rightarrow> bool" where
  "isHexPart p =
     (let q = rev (dropWhile reSpace (rev (dropWhile reSpace p))) in
      length q = 4 \<and> HasPrefix q ''0x'' \<and> list_all (\<lambda>c. hexVal c \<noteq> None) (drop 2 q))"

definition checkHexBytesStr :: "string \<Rightarrow> conf_error option" where
  "checkHexBytesStr s =
     (let trimmed = TrimSpace s in
      if trimmed = [] then None
      else if list_all isHexPart (strSplit CHR '','' trimmed) then None
      else Some BadBytes)"

definition checkRule :: "Rule \<Rightarrow> conf_error option" where
  "checkRule r = (if rule_Match r = None then Some NoMatch else None)"

definition checkMatchAttrs :: "MatchAttrs \<Rightarrow> conf_error option" where
  "checkMatchAttrs m = (if match_Domains m = [] \<and> match_CIDRs m = [] then Some EmptyMatch else None)"

fun validate_rules :: "nat \<Rightarrow> Rule list \<Rightarrow> conf_error option" where
  "validate_rules i [] = None"
| "validate_rules i (r # rs) =
     (case checkRule r of Some e \<Rightarrow> Some (RuleAt i e) | None \<Rightarrow> validate_rules (Suc i) rs)"

definition Config_Validate :: "Config \<Rightarrow> conf_error option" where
  "Config_Validate c = validate_rules 0 (st_Rules (cfg_Startup c))"

section \<open>Parsers that panic\<close>

definition hexChars :: string where
  "hexChars = ''0123456789abcdef''"

definition hexDigit :: "nat \<Rightarrow> char" where
  "hexDigit n = hexChars ! n"

text \<open>\<open>0x%02x\<close>\<close>

definition hexByte :: "byte \<Rightarrow> string" where
  "hexByte b = ''0x'' @ [hexDigit (unat b div 16), hexDigit (unat b mod 16)]"

definition MustParseHexCSV :: "bytes \<Rightarrow> string" where
  "MustParseHexCSV data = strJoin '', '' (map hexByte data)"

text \<open>\<open>strconv.ParseUint(s, 0, 8)\<close> on a string that is \<open>0x\<close> and two digits; the error is dropped by the caller.\<close>

definition parseHex8 :: "string \<Rightarrow> byte" where
  "parseHex8 s = of_nat (hexNum (drop 2 s))"

definition MustParseBytes :: "string \<Rightarrow> (conf_error, bytes) res" where
  "MustParseBytes s =
     (case checkHexBytesStr s of
        Some e \<Rightarrow> Inl Panic
      | None \<Rightarrow>
          Inr (map parseHex8 (filter (\<lambda>p. p \<noteq> []) (map TrimSpace (strSplit CHR '','' s)))))"

definition MustParseTCPAddr :: "string \<Rightarrow> (conf_error, TCPAddr) res" where
  "MustParseTCPAddr s =
     (case SplitHostPort s of
        None \<Rightarrow> Inl Panic
      | Some (host, port) \<Rightarrow>
          (case Atoi port of
             None \<Rightarrow> Inl Panic
           | Some p \<Rightarrow> Inr \<lparr>addr_IP = ParseIP host, addr_Port = p, addr_Zone = []\<rparr>))"

definition MustParseLogLevel :: "(string \<Rightarrow> int option) \<Rightarrow> string \<Rightarrow> (conf_error, int) res" where
  "MustParseLogLevel parseLevel s = (case parseLevel s of None \<Rightarrow> Inl Panic | Some l \<Rightarrow> Inr l)"

definition MustParseServerModeType :: "string \<Rightarrow> (conf_error, AppModeType) res" where
  "MustParseServerModeType s =
     (if s = ''http'' then Inr AppModeHTTP
      else if s = ''socks5'' then Inr AppModeSOCKS5
      else if s = ''tun'' then Inr AppModeTUN
      else Inl Panic)"

definition MustParseDNSModeType :: "string \<Rightarrow> (conf_error, DNSModeType) res" where
  "MustParseDNSModeType s =
     (if s = ''udp'' then Inr DNSModeUDP
      else if s = ''system'' then Inr DNSModeSystem
      else if s = ''https'' then Inr DNSModeHTTPS
      else Inl Panic)"

definition MustParseDNSQueryType :: "string \<Rightarrow> (conf_error, DNSQueryType) res" where
  "MustParseDNSQueryType s =
     (if s = ''ipv4'' then Inr DNSQueryIPv4
      else if s = ''ipv6'' then Inr DNSQueryIPv6
      else if s = ''all'' then Inr DNSQueryAll
      else Inl Panic)"

definition mustParseHTTPSSplitModeType :: "string \<Rightarrow> (conf_error, HTTPSSplitModeType) res" where
  "mustParseHTTPSSplitModeType s =
     (if s = ''sni'' then Inr HTTPSSplitModeSNI
      else if s = ''random'' then Inr HTTPSSplitModeRandom
      else if s = ''chunk'' then Inr HTTPSSplitModeChunk
      else if s = ''first-byte'' then Inr HTTPSSplitModeFirstByte
      else if s = ''none'' then Inr HTTPSSplitModeNone
      else if s = ''custom'' then Inr HTTPSSplitModeCustom
      else Inl Panic)"

definition mustParseSegmentFromType :: "string \<Rightarrow> (conf_error, SegmentFromType) res" where
  "mustParseSegmentFromType s =
     (if s = ''sni'' then Inr SegmentFromSNI
      else if s = ''head'' then Inr SegmentFromHead
      else Inl Panic)"

section \<open>Parsers of decoded values\<close>

text \<open>\<open>parseIntFn[T]\<close> with the conversion \<open>T(i64)\<close>; a nil validator accepts everything.\<close>

definition parseIntFn :: "(int \<Rightarrow> 'a) \<Rightarrow> (int \<Rightarrow> conf_error option) \<Rightarrow> tval \<Rightarrow> (conf_error, 'a) res" where
  "parseIntFn conv validator v =
     (case v of
        TInt i64 \<Rightarrow> (case validator i64 of Some e \<Rightarrow> Inl (Err e) | None \<Rightarrow> Inr (conv i64))
      | _ \<Rightarrow> Inl (Err WrongType))"

definition parseStringFn :: "(string \<Rightarrow> conf_error option) \<Rightarrow> tval \<Rightarrow> (conf_error, string) res" where
  "parseStringFn validator v =
     (case v of
        TString s \<Rightarrow> (case validator s of Some e \<Rightarrow> Inl (Err e) | None \<Rightarrow> Inr s)
      | _ \<Rightarrow> Inl (Err WrongType))"

definition parseBoolFn :: "tval \<Rightarrow> (conf_error, bool) res" where
  "parseBoolFn v = (case v of TBool b \<Rightarrow> Inr b | _ \<Rightarrow> Inl (Err WrongType))"

definition parseByteFn :: "(byte \<Rightarrow> conf_error option) \<Rightarrow> tval \<Rightarrow> (conf_error, byte) res" where
  "parseByteFn validator v =
     (case v of
        TInt i64 \<Rightarrow>
          if i64 < 0 \<or> i64 > 255 then Inl (Err (OutOfByteRange i64))
          else (case validator (of_int i64) of Some e \<Rightarrow> Inl (Err e) | None \<Rightarrow> Inr (of_int i64))
      | _ \<Rightarrow> Inl (Err WrongType))"

section \<open>Fields of a table\<close>

text \<open>
  An \<open>UnmarshalTOML\<close> method carries the named result \<open>err\<close> through its field look-ups; once it is set every
  later look-up is skipped. The state is the error (or a panic, which unwinds) with the struct so far.
\<close>

type_synonym 'o decode = "conf_error fault option \<times> 'o"

definition findFrom ::
    "(string \<times> tval) list \<Rightarrow> string \<Rightarrow> (tval \<Rightarrow> (conf_error, 'a) res) \<Rightarrow> ('a \<Rightarrow> 'o \<Rightarrow> (conf_error, 'o) res) \<Rightarrow>
     'o decode \<Rightarrow> 'o decode" where
  "findFrom m key parser assign st =
     (case fst st of
        Some e \<Rightarrow> st
      | None \<Rightarrow>
          (case map_of m key of
             None \<Rightarrow> st
           | Some v \<Rightarrow>
               (case bindR (mapErr (InField key) (parser v)) (\<lambda>p. assign p (snd st)) of
                  Inl e \<Rightarrow> (Some e, snd st)
                | Inr o' \<Rightarrow> (None, o'))))"

fun parse_items :: "(nat \<Rightarrow> conf_error \<Rightarrow> conf_error) \<Rightarrow> (tval \<Rightarrow> (conf_error, 'a) res) \<Rightarrow> nat \<Rightarrow> tval list \<Rightarrow> (conf_error, 'a list) res" where
  "parse_items wrap parser i [] = Inr []"
| "parse_items wrap parser i (v # vs) =
     bindR (mapErr (wrap i) (parser v)) (\<lambda>x. bindR (parse_items wrap parser (Suc i) vs) (\<lambda>xs. Inr (x # xs)))"

text \<open>A list of tables is a typed Go slice, so only \<open>findStructSliceFrom\<close> accepts it.\<close>

definition findSliceFrom ::
    "(string \<times> tval) list \<Rightarrow> string \<Rightarrow> (tval \<Rightarrow> (conf_error, 'a) res) \<Rightarrow> ('a list \<Rightarrow> 'o \<Rightarrow> (conf_error, 'o) res) \<Rightarrow>
     'o decode \<Rightarrow> 'o decode" where
  "findSliceFrom m key parser assign st =
     (case fst st of
        Some e \<Rightarrow> st
      | None \<Rightarrow>
          (case map_of m key of
             None \<Rightarrow> st
           | Some v \<Rightarrow>
               (case (case v of
                        TList l \<Rightarrow> bindR (parse_items (InItem key) parser 0 l) (\<lambda>xs. assign xs (snd st))
                      | _ \<Rightarrow> Inl (Err (InField key WrongType))) of
                  Inl e \<Rightarrow> (Some e, snd st)
                | Inr o' \<Rightarrow> (None, o'))))"

definition findStructSliceFrom ::
    "(string \<times> tval) list \<Rightarrow> string \<Rightarrow> (tval \<Rightarrow> (conf_error, 'a) res) \<Rightarrow> ('a list \<Rightarrow> 'o \<Rightarrow> (conf_error, 'o) res) \<Rightarrow>
     'o decode \<Rightarrow> 'o decode" where
  "findStructSliceFrom m key unmarshal assign st =
     (case fst st of
        Some e \<Rightarrow> st
      | None \<Rightarrow>
          (case map_of m key of
             None \<Rightarrow> st
           | Some v \<Rightarrow>
               (case (case v of
                        TList l \<Rightarrow> bindR (parse_items (DecodeItem key) unmarshal 0 l) (\<lambda>xs. assign xs (snd st))
                      | TTables l \<Rightarrow> bindR (parse_items (DecodeItem key) unmarshal 0 (map TTable l)) (\<lambda>xs. assign xs (snd st))
                      | _ \<Rightarrow> Inl (Err (NotAList key))) of
                  Inl e \<Rightarrow> (Some e, snd st)
                | Inr o' \<Rightarrow> (None, o'))))"

definition findStructFrom ::
    "(string \<times> tval) list \<Rightarrow> string \<Rightarrow> (tval \<Rightarrow> (conf_error, 'a) res) \<Rightarrow> ('a option \<Rightarrow> 'o \<Rightarrow> 'o) \<Rightarrow> 'o decode \<Rightarrow> 'o decode" where
  "findStructFrom m key unmarshal assign st =
     (case fst st of
        Some e \<Rightarrow> (Some e, assign None (snd st))
      | None \<Rightarrow>
          (case map_of m key of
             None \<Rightarrow> (None, assign None (snd st))
           | Some v \<Rightarrow>
               (case mapErr (Decode key) (unmarshal v) of
                  Inl e \<Rightarrow> (Some e, assign None (snd st))
                | Inr x \<Rightarrow> (None, assign (Some x) (snd st)))))"

section \<open>Properties of the parsers\<close>

lemma check_parse:
  "checkAppMode s = None \<longleftrightarrow> (\<exists>t. MustParseServerModeType s = Inr t)"
  "checkDNSMode s = None \<longleftrightarrow> (\<exists>t. MustParseDNSModeType s = Inr t)"
  "checkDNSQueryType s = None \<longleftrightarrow> (\<exists>t. MustParseDNSQueryType s = Inr t)"
  "checkHTTPSSplitMode s = None \<longleftrightarrow> (\<exists>t. mustParseHTTPSSplitModeType s = Inr t)"
  "checkSegmentFrom s = None \<longleftrightarrow> (\<exists>t. mustParseSegmentFromType s = Inr t)"
  by (simp_all add: checkAppMode_def checkDNSMode_def checkDNSQueryType_def checkHTTPSSplitMode_def
      checkSegmentFrom_def checkOneOf_def availableAppModeValues_def availableDNSModeValues_def
      availableDNSQueryValues_def availableHTTPSModeValues_def availableSegmentFromValues_def
      MustParseServerModeType_def MustParseDNSModeType_def MustParseDNSQueryType_def
      mustParseHTTPSSplitModeType_def mustParseSegmentFromType_def)

text \<open>
  Every enumeration value is read back from the name it is printed with, and each validator accepts
  exactly the strings its parser does not panic on.
\<close>

lemma enum_roundtrip:
  "MustParseServerModeType (AppModeType_String a) = Inr a \<and>
   MustParseDNSModeType (DNSModeType_String d) = Inr d \<and>
   MustParseDNSQueryType (DNSQueryType_String q) = Inr q \<and>
   mustParseHTTPSSplitModeType (HTTPSSplitModeType_String h) = Inr h \<and>
   mustParseSegmentFromType (SegmentFromType_String f) = Inr f \<and>
   (checkAppMode s = None \<longleftrightarrow> (\<exists>t. MustParseServerModeType s = Inr t)) \<and>
   (checkDNSMode s = None \<longleftrightarrow> (\<exists>t. MustParseDNSModeType s = Inr t)) \<and>
   (checkDNSQueryType s = None \<longleftrightarrow> (\<exists>t. MustParseDNSQueryType s = Inr t)) \<and>
   (checkHTTPSSplitMode s = None \<longleftrightarrow> (\<exists>t. mustParseHTTPSSplitModeType s = Inr t)) \<and>
   (checkSegmentFrom s = None \<longleftrightarrow> (\<exists>t. mustParseSegmentFromType s = Inr t))"
proof -
  have "MustParseServerModeType (AppModeType_String a) = Inr a"
    by (cases a) (simp_all add: MustParseServerModeType_def AppModeType_String_def availableAppModeValues_def)
  moreover have "MustParseDNSModeType (DNSModeType_String d) = Inr d"
    by (cases d) (simp_all add: MustParseDNSModeType_def DNSModeType_String_def availableDNSModeValues_def)
  moreover have "MustParseDNSQueryType (DNSQueryType_String q) = Inr q"
    by (cases q) (simp_all add: MustParseDNSQueryType_def DNSQueryType_String_def availableDNSQueryValues_def)
  moreover have "mustParseHTTPSSplitModeType (HTTPSSplitModeType_String h) = Inr h"
    by (cases h) (simp_all add: mustParseHTTPSSplitModeType_def HTTPSSplitModeType_String_def availableHTTPSModeValues_def)
  moreover have "mustParseSegmentFromType (SegmentFromType_String f) = Inr f"
    by (cases f) (simp_all add: mustParseSegmentFromType_def SegmentFromType_String_def availableSegmentFromValues_def)
  ultimately show ?thesis
    using check_parse by blast
qed

subsection \<open>Byte lists\<close>

lemma hexDigit_in: "n < 16 \<Longrightarrow> hexDigit n \<in> set hexChars \<and> hexVal (hexDigit n) = Some n"
  by (rule nibble_cases)
    (simp_all add: upt_16 hexDigit_def hexChars_def hexVal_def isDigit_def digitVal_def)

lemma char_eq_code: "n < 256 \<Longrightarrow> c = char_of n \<longleftrightarrow> of_char c = (n :: nat)"
proof -
  assume "n < 256"
  then have "take_bit 8 n = n"
    by (simp add: take_bit_eq_mod)
  then show ?thesis
    using char_of_eq_iff [of n c] by metis
qed

lemma HasPrefix_code:
  "n < 256 \<Longrightarrow> HasPrefix (c # s) (char_of n # t) \<longleftrightarrow> of_char c = (n :: nat) \<and> HasPrefix s t"
  using char_eq_code by auto

lemma hex_code: "c \<in> set (CHR ''x'' # hexChars) \<Longrightarrow> 48 \<le> (of_char c :: nat) \<and> of_char c \<le> (120 :: nat)"
  by (auto simp: hexChars_def)

lemma spacePrefix_hex:
  assumes "c \<in> set (CHR ''x'' # hexChars)"
  shows "spacePrefix goSpaces (c # s) = 0" and "spacePrefix (map rev goSpaces) (c # s) = 0"
    and "\<not> reSpace c" and "c \<noteq> CHR '',''"
proof -
  have b: "48 \<le> (of_char c :: nat)" "of_char c \<le> (120 :: nat)"
    using hex_code [OF assms] by simp_all
  then have ne: "of_char c \<noteq> (n :: nat)" if "n < 48 \<or> 120 < n" for n
    using that by auto
  show "spacePrefix goSpaces (c # s) = 0" "spacePrefix (map rev goSpaces) (c # s) = 0" "\<not> reSpace c"
    by (simp_all add: spacePrefix_def goSpaces_def reSpace_def HasPrefix_code ne upt_rec del: HasPrefix.simps)
  show "c \<noteq> CHR '',''"
    using b by auto
qed

lemma trimLeft_id: "spacePrefix sps s = 0 \<Longrightarrow> trimLeftWith sps s = s"
  by (subst trimLeftWith.simps) simp

lemma hexByte_chars: "\<exists>a b. hexByte x = [CHR ''0'', CHR ''x'', a, b] \<and> a \<in> set hexChars \<and> b \<in> set hexChars \<and>
    hexVal a = Some (unat x div 16) \<and> hexVal b = Some (unat x mod 16)"
proof -
  have "unat x div 16 < 16"
    by (rule less_mult_imp_div_less) (use unat_byte_less [of x] in simp)
  moreover have "unat x mod 16 < 16"
    by simp
  ultimately show ?thesis
    using hexDigit_in by (auto simp: hexByte_def)
qed

lemma TrimSpace_hex:
  assumes "a \<in> set (CHR ''x'' # hexChars)" and "b \<in> set (CHR ''x'' # hexChars)"
  shows "TrimSpace (a # s @ [b]) = a # s @ [b]" and "TrimSpace (CHR '' '' # a # s @ [b]) = a # s @ [b]"
proof -
  have l: "trimLeftWith goSpaces (a # s @ [b]) = a # s @ [b]"
    by (rule trimLeft_id) (rule spacePrefix_hex(1) [OF assms(1)])
  have r: "trimLeftWith (map rev goSpaces) (b # rev s @ [a]) = b # rev s @ [a]"
    by (rule trimLeft_id) (rule spacePrefix_hex(2) [OF assms(2)])
  show "TrimSpace (a # s @ [b]) = a # s @ [b]"
    by (simp add: TrimSpace_def l r)
  have "spacePrefix goSpaces (CHR '' '' # a # s @ [b]) = 1"
    by (simp add: spacePrefix_def goSpaces_def HasPrefix_code del: HasPrefix.simps(3))
  then have "trimLeftWith goSpaces (CHR '' '' # a # s @ [b]) = a # s @ [b]"
    using l by (subst trimLeftWith.simps) simp
  then show "TrimSpace (CHR '' '' # a # s @ [b]) = a # s @ [b]"
    by (simp add: TrimSpace_def r)
qed

lemma TrimSpace_hexByte: "TrimSpace (hexByte x) = hexByte x" "TrimSpace (CHR '' '' # hexByte x) = hexByte x"
proof -
  obtain a b where h: "hexByte x = [CHR ''0'', CHR ''x'', a, b]" "b \<in> set hexChars"
    using hexByte_chars by blast
  have "CHR ''0'' \<in> set (CHR ''x'' # hexChars)" "b \<in> set (CHR ''x'' # hexChars)"
    using h(2) by (simp_all add: hexChars_def)
  from TrimSpace_hex [OF this, of "[CHR ''x'', a]"]
  show "TrimSpace (hexByte x) = hexByte x" "TrimSpace (CHR '' '' # hexByte x) = hexByte x"
    by (simp_all add: h)
qed


lemma isHexPart_hexByte: "isHexPart (hexByte x)" "isHexPart (CHR '' '' # hexByte x)"
proof -
  obtain a b where h: "hexByte x = [CHR ''0'', CHR ''x'', a, b]" "a \<in> set hexChars" "b \<in> set hexChars"
    "hexVal a = Some (unat x div 16)" "hexVal b = Some (unat x mod 16)"
    using hexByte_chars by blast
  have "\<not> reSpace CHR ''0''" "\<not> reSpace b" "reSpace CHR '' ''"
    using spacePrefix_hex(3) [of b] h(3) by (simp_all add: reSpace_def)
  then show "isHexPart (hexByte x)" "isHexPart (CHR '' '' # hexByte x)"
    by (simp_all add: isHexPart_def h Let_def)
qed

lemma parseHex8_hexByte: "parseHex8 (hexByte x) = x"
proof -
  obtain a b where h: "hexByte x = [CHR ''0'', CHR ''x'', a, b]"
    "hexVal a = Some (unat x div 16)" "hexVal b = Some (unat x mod 16)"
    using hexByte_chars by blast
  have "hexNum [a, b] = unat x"
    by (simp add: hexNum_def h)
  then show ?thesis
    by (simp add: parseHex8_def h)
qed

lemma hexByte_not_Nil: "hexByte x \<noteq> []"
  by (simp add: hexByte_def)

lemma comma_hexByte: "CHR '','' \<notin> set (hexByte x)"
proof -
  obtain a b where h: "hexByte x = [CHR ''0'', CHR ''x'', a, b]" "a \<in> set hexChars" "b \<in> set hexChars"
    using hexByte_chars by blast
  then show ?thesis
    using spacePrefix_hex(4) [of a] spacePrefix_hex(4) [of b] by auto
qed

lemma strSplit_hexCSV:
  "strSplit CHR '','' (strJoin '', '' (map hexByte (b # bs))) = hexByte b # map (\<lambda>x. CHR '' '' # hexByte x) bs"
proof (induction bs arbitrary: b)
  case (Cons c bs)
  show ?case
    using Cons [of c] by (simp add: strSplit_append_sep comma_hexByte)
qed (simp add: comma_hexByte)

lemma hexCSV_ends: "\<exists>s c. strJoin '', '' (map hexByte (b # bs)) = CHR ''0'' # s @ [c] \<and> c \<in> set hexChars"
proof (induction bs arbitrary: b)
  case Nil
  show ?case
    using hexByte_chars [of b] by (auto intro: exI [of _ "[CHR ''x'', a]" for a])
next
  case (Cons c bs)
  obtain s d where "strJoin '', '' (map hexByte (c # bs)) = CHR ''0'' # s @ [d]" "d \<in> set hexChars"
    using Cons by blast
  moreover obtain t where "hexByte b = CHR ''0'' # t"
    using hexByte_chars [of b] by blast
  ultimately show ?case
    by (auto intro!: exI [of _ "t @ '', '' @ CHR ''0'' # s"])
qed

text \<open>
  The byte list written by the CSV printer is read back unchanged: the validator accepts it, the parser
  does not panic and returns the bytes, the empty list included.
\<close>

lemma HexCSV_roundtrip: "MustParseBytes (MustParseHexCSV bs) = Inr bs"
proof (cases bs)
  case Nil
  have "TrimSpace [] = []"
    by (simp add: TrimSpace_def trimLeftWith.simps)
  then show ?thesis
    by (simp add: Nil MustParseBytes_def MustParseHexCSV_def checkHexBytesStr_def)
next
  case (Cons b bt)
  let ?s = "strJoin '', '' (map hexByte (b # bt))"
  obtain t c where "?s = CHR ''0'' # t @ [c]" "c \<in> set hexChars"
    using hexCSV_ends by blast
  then have "TrimSpace ?s = ?s"
    using TrimSpace_hex(1) [of "CHR ''0''" c t] by (simp add: hexChars_def)
  then have "checkHexBytesStr ?s = None"
    unfolding checkHexBytesStr_def Let_def
    by (simp only: strSplit_hexCSV) (simp add: list_all_iff isHexPart_hexByte)
  moreover have "map parseHex8 (filter (\<lambda>p. p \<noteq> []) (map TrimSpace (strSplit CHR '','' ?s))) = b # bt"
    unfolding strSplit_hexCSV
    using hexByte_not_Nil by (simp add: TrimSpace_hexByte o_def filter_map parseHex8_hexByte)
  ultimately show ?thesis
    by (simp add: Cons MustParseBytes_def MustParseHexCSV_def)
qed


end
