(* ===== verification/ConfigLoad.thy ===== *)
theory ConfigLoad
  imports ConfigParse
begin

text \<open>
  Decoding of option tables (\<open>UnmarshalTOML\<close> of \<open>types.go\<close> and \<open>config.go\<close>), rule resolution and the layering of
  defaults, TOML file and command line (\<open>load.go\<close>, \<open>toml.go\<close>, \<open>fileutil.go\<close> in \<open>src/internal/config\<close>). The file
  system, the environment, the TOML decoder and the flag callbacks are parameters.
\<close>

section \<open>Option tables\<close>

definition to_res :: "'o decode \<Rightarrow> (conf_error, 'o) res" where
  "to_res st = (case fst st of None \<Rightarrow> Inr (snd st) | Some e \<Rightarrow> Inl e)"

text \<open>\<open>decode_fields steps o\<close>: the look-ups of a method in order, from no error.\<close>

definition decode_fields :: "('o decode \<Rightarrow> 'o decode) list \<Rightarrow> 'o \<Rightarrow> 'o decode" where
  "decode_fields steps o' = fold (\<lambda>f. f) steps (None, o')"

definition AppOptions_UnmarshalTOML :: "(string \<Rightarrow> int option) \<Rightarrow> tval \<Rightarrow> AppOptions \<Rightarrow> AppOptions decode" where
  "AppOptions_UnmarshalTOML parseLevel data o' =
     (case data of
        TTable m \<Rightarrow>
          decode_fields
            [findFrom m ''no-tui'' parseBoolFn (\<lambda>p x. Inr (x\<lparr>app_NoTUI := p\<rparr>)),
             findFrom m ''silent'' parseBoolFn (\<lambda>p x. Inr (x\<lparr>app_Silent := p\<rparr>)),
             findFrom m ''auto-configure-network'' parseBoolFn (\<lambda>p x. Inr (x\<lparr>app_AutoConfigureNetwork := p\<rparr>)),
             findFrom m ''log-level'' (parseStringFn checkLogLevel)
               (\<lambda>p x. bindR (MustParseLogLevel parseLevel p) (\<lambda>l. Inr (x\<lparr>app_LogLevel := l\<rparr>))),
             findFrom m ''mode'' (parseStringFn checkAppMode)
               (\<lambda>p x. bindR (MustParseServerModeType p) (\<lambda>t. Inr (x\<lparr>app_Mode := t\<rparr>))),
             findFrom m ''listen-addr'' (parseStringFn checkHostPort)
               (\<lambda>p x. bindR (MustParseTCPAddr p) (\<lambda>a. Inr (x\<lparr>app_ListenAddr := a\<rparr>))),
             findFrom m ''freebsd-fib'' (parseIntFn (\<lambda>i. i) checkFreeBSDFibID) (\<lambda>p x. Inr (x\<lparr>app_FreebsdFIB := p\<rparr>))]
            o'
      | _ \<Rightarrow> (Some (Err (NotTable ''general'')), o'))"

text \<open>\<open>time.Duration(*p) * time.Millisecond\<close> for a 16-bit \<open>p\<close>; the product stays within 64 bits.\<close>

definition millis :: "u16 \<Rightarrow> int" where
  "millis p = int (unat p) * Millisecond"

definition ConnOptions_UnmarshalTOML :: "tval \<Rightarrow> ConnOptions \<Rightarrow> ConnOptions decode" where
  "ConnOptions_UnmarshalTOML data o' =
     (case data of
        TTable v \<Rightarrow>
          decode_fields
            [findFrom v ''default-fake-ttl'' (parseIntFn of_int checkUint8NonZero) (\<lambda>p x. Inr (x\<lparr>conn_DefaultFakeTTL := p\<rparr>)),
             findFrom v ''dns-timeout'' (parseIntFn of_int checkUint16) (\<lambda>p x. Inr (x\<lparr>conn_DNSTimeout := millis p\<rparr>)),
             findFrom v ''tcp-timeout'' (parseIntFn of_int checkUint16) (\<lambda>p x. Inr (x\<lparr>conn_TCPTimeout := millis p\<rparr>)),
             findFrom v ''udp-idle-timeout'' (parseIntFn of_int checkUint16) (\<lambda>p x. Inr (x\<lparr>conn_UDPIdleTimeout := millis p\<rparr>))]
            o'
      | _ \<Rightarrow> (Some (Err (NotTable ''connection'')), o'))"

definition DNSOptions_UnmarshalTOML :: "tval \<Rightarrow> DNSOptions \<Rightarrow> DNSOptions decode" where
  "DNSOptions_UnmarshalTOML data o' =
     (case data of
        TTable m \<Rightarrow>
          decode_fields
            [findFrom m ''mode'' (parseStringFn checkDNSMode)
               (\<lambda>p x. bindR (MustParseDNSModeType p) (\<lambda>t. Inr (x\<lparr>dns_Mode := t\<rparr>))),
             findFrom m ''addr'' (parseStringFn checkHostPort)
               (\<lambda>p x. bindR (MustParseTCPAddr p) (\<lambda>a. Inr (x\<lparr>dns_Addr := a\<rparr>))),
             findFrom m ''https-url'' (parseStringFn checkHTTPSEndpoint) (\<lambda>p x. Inr (x\<lparr>dns_HTTPSURL := p\<rparr>)),
             findFrom m ''qtype'' (parseStringFn checkDNSQueryType)
               (\<lambda>p x. bindR (MustParseDNSQueryType p) (\<lambda>t. Inr (x\<lparr>dns_QType := t\<rparr>))),
             findFrom m ''cache'' parseBoolFn (\<lambda>p x. Inr (x\<lparr>dns_Cache := p\<rparr>))]
            o'
      | _ \<Rightarrow> (Some (Err (NotTable ''dns'')), o'))"

definition zeroSegmentPlan :: SegmentPlan where
  "zeroSegmentPlan = \<lparr>plan_From = SegmentFromHead, plan_At = 0, plan_Lazy = False, plan_Noise = 0\<rparr>"

text \<open>The two required fields return their own error before later look-ups.\<close>

definition required :: "(string \<times> tval) list \<Rightarrow> string \<Rightarrow> 'o decode \<Rightarrow> 'o decode" where
  "required m key st =
     (if fst st \<noteq> Some Panic \<and> map_of m key = None then (Some (Err (Required key)), snd st) else st)"

definition SegmentPlan_UnmarshalTOML :: "tval \<Rightarrow> SegmentPlan \<Rightarrow> SegmentPlan decode" where
  "SegmentPlan_UnmarshalTOML data s =
     (case data of
        TTable m \<Rightarrow>
          if map_of m ''from'' = None then (Some (Err (Required ''from'')), s)
          else
            decode_fields
              [findFrom m ''from'' (parseStringFn checkSegmentFrom)
                 (\<lambda>p x. bindR (mustParseSegmentFromType p) (\<lambda>t. Inr (x\<lparr>plan_From := t\<rparr>))),
               required m ''at'',
               findFrom m ''at'' (parseIntFn (\<lambda>i. i) (\<lambda>_. None)) (\<lambda>p x. Inr (x\<lparr>plan_At := p\<rparr>)),
               findFrom m ''lazy'' parseBoolFn (\<lambda>p x. Inr (x\<lparr>plan_Lazy := p\<rparr>)),
               findFrom m ''noise'' (parseIntFn (\<lambda>i. i) (\<lambda>_. None)) (\<lambda>p x. Inr (x\<lparr>plan_Noise := p\<rparr>))]
              s
      | _ \<Rightarrow> (Some (Err (NotTable ''segment'')), s))"

definition customCheck :: "HTTPSOptions decode \<Rightarrow> HTTPSOptions decode" where
  "customCheck st =
     (if fst st = None \<and> https_SplitMode (snd st) = HTTPSSplitModeCustom \<and> https_CustomSegmentPlans (snd st) = []
      then (Some (Err NoCustomSegments), snd st) else st)"

definition HTTPSOptions_UnmarshalTOML :: "tval \<Rightarrow> HTTPSOptions \<Rightarrow> HTTPSOptions decode" where
  "HTTPSOptions_UnmarshalTOML data o' =
     (case data of
        TTable m \<Rightarrow>
          decode_fields
            [findFrom m ''disorder'' parseBoolFn (\<lambda>p x. Inr (x\<lparr>https_Disorder := p\<rparr>)),
             findFrom m ''fake-count'' (parseIntFn of_int checkUint8) (\<lambda>p x. Inr (x\<lparr>https_FakeCount := p\<rparr>)),
             findSliceFrom m ''fake-packet'' (parseByteFn (\<lambda>_. None))
               (\<lambda>p x. Inr (x\<lparr>https_FakePacket := Some (NewFakeTLSMessage p)\<rparr>)),
             findFrom m ''split-mode'' (parseStringFn checkHTTPSSplitMode)
               (\<lambda>p x. bindR (mustParseHTTPSSplitModeType p) (\<lambda>t. Inr (x\<lparr>https_SplitMode := t\<rparr>))),
             findFrom m ''chunk-size'' (parseIntFn of_int checkUint8NonZero) (\<lambda>p x. Inr (x\<lparr>https_ChunkSize := p\<rparr>)),
             findFrom m ''skip'' parseBoolFn (\<lambda>p x. Inr (x\<lparr>https_Skip := p\<rparr>)),
             findStructSliceFrom m ''custom-segments'' (\<lambda>v. to_res (SegmentPlan_UnmarshalTOML v zeroSegmentPlan))
               (\<lambda>p x. Inr (x\<lparr>https_CustomSegmentPlans := p\<rparr>)),
             customCheck]
            o'
      | _ \<Rightarrow> (Some (Err (NotTable ''https'')), o'))"

definition UDPOptions_UnmarshalTOML :: "tval \<Rightarrow> UDPOptions \<Rightarrow> UDPOptions decode" where
  "UDPOptions_UnmarshalTOML data o' =
     (case data of
        TTable m \<Rightarrow>
          decode_fields
            [findFrom m ''skip'' parseBoolFn (\<lambda>p x. Inr (x\<lparr>udp_Skip := p\<rparr>)),
             findFrom m ''fake-count'' (parseIntFn of_int checkUint8) (\<lambda>p x. Inr (x\<lparr>udp_FakeCount := p\<rparr>)),
             findSliceFrom m ''fake-packet'' (parseByteFn (\<lambda>_. None)) (\<lambda>p x. Inr (x\<lparr>udp_FakePacket := p\<rparr>))]
            o'
      | _ \<Rightarrow> (Some (Err (NotTable ''udp'')), o'))"

definition emptyMatchAttrs :: MatchAttrs where
  "emptyMatchAttrs = \<lparr>match_Domains = [], match_CIDRs = []\<rparr>"

definition matchCheck :: "MatchAttrs decode \<Rightarrow> MatchAttrs decode" where
  "matchCheck st =
     (case fst st of
        Some e \<Rightarrow> st
      | None \<Rightarrow> (case checkMatchAttrs (snd st) of Some e \<Rightarrow> (Some (Err e), snd st) | None \<Rightarrow> st))"

definition MatchAttrs_UnmarshalTOML :: "tval \<Rightarrow> MatchAttrs \<Rightarrow> MatchAttrs decode" where
  "MatchAttrs_UnmarshalTOML data a =
     (case data of
        TTable v \<Rightarrow>
          decode_fields
            [findSliceFrom v ''domains'' (parseStringFn (\<lambda>_. None))
               (\<lambda>raw x. case find (\<lambda>d. checkDomainPattern d \<noteq> None) raw of
                           Some d \<Rightarrow> Inl (Err (InvalidDomain d))
                         | None \<Rightarrow> Inr (x\<lparr>match_Domains := raw\<rparr>)),
             findSliceFrom v ''cidrs'' (parseStringFn (\<lambda>_. None))
               (\<lambda>raw x. case find (\<lambda>c. checkCIDR c \<noteq> None) raw of
                           Some c \<Rightarrow> Inl (Err (InvalidCIDREntry c))
                         | None \<Rightarrow> Inr (x\<lparr>match_CIDRs := raw\<rparr>)),
             matchCheck]
            a
      | _ \<Rightarrow> (Some (Err (NotTable ''match'')), a))"

definition Rule_UnmarshalTOML :: "tval \<Rightarrow> Rule \<Rightarrow> Rule decode" where
  "Rule_UnmarshalTOML data r =
     (case data of
        TTable m \<Rightarrow>
          decode_fields
            [findFrom m ''name'' (parseStringFn (\<lambda>_. None)) (\<lambda>p x. Inr (x\<lparr>rule_Name := p\<rparr>)),
             findFrom m ''priority'' (parseIntFn of_int checkUint16) (\<lambda>p x. Inr (x\<lparr>rule_Priority := p\<rparr>)),
             findFrom m ''block'' parseBoolFn (\<lambda>p x. Inr (x\<lparr>rule_Block := p\<rparr>)),
             findStructFrom m ''match'' (\<lambda>v. to_res (MatchAttrs_UnmarshalTOML v emptyMatchAttrs))
               (\<lambda>p x. x\<lparr>rule_Match := p\<rparr>)]
            r
      | _ \<Rightarrow> (Some (Err (NotTable ''rule'')), r))"

text \<open>A section of the configuration is decoded onto the values it already has, while there is no error.\<close>

definition section_step ::
    "(string \<times> tval) list \<Rightarrow> string \<Rightarrow> (tval \<Rightarrow> 'a \<Rightarrow> 'a decode) \<Rightarrow> ('o \<Rightarrow> 'a) \<Rightarrow> ('a \<Rightarrow> 'o \<Rightarrow> 'o) \<Rightarrow> 'o decode \<Rightarrow> 'o decode" where
  "section_step m key unmarshal get put st =
     (case fst st of
        Some e \<Rightarrow> st
      | None \<Rightarrow>
          (case map_of m key of
             None \<Rightarrow> st
           | Some v \<Rightarrow> let (e, x) = unmarshal v (get (snd st)) in (e, put x (snd st))))"

definition set_App :: "AppOptions \<Rightarrow> Config \<Rightarrow> Config" where
  "set_App x c = c\<lparr>cfg_Startup := (cfg_Startup c)\<lparr>st_App := x\<rparr>\<rparr>"

definition set_Conn :: "ConnOptions \<Rightarrow> Config \<Rightarrow> Config" where
  "set_Conn x c = c\<lparr>cfg_Runtime := (cfg_Runtime c)\<lparr>rt_Conn := x\<rparr>\<rparr>"

definition set_DNS :: "DNSOptions \<Rightarrow> Config \<Rightarrow> Config" where
  "set_DNS x c = c\<lparr>cfg_Runtime := (cfg_Runtime c)\<lparr>rt_DNS := x\<rparr>\<rparr>"

definition set_HTTPS :: "HTTPSOptions \<Rightarrow> Config \<Rightarrow> Config" where
  "set_HTTPS x c = c\<lparr>cfg_Runtime := (cfg_Runtime c)\<lparr>rt_HTTPS := x\<rparr>\<rparr>"

definition set_UDP :: "UDPOptions \<Rightarrow> Config \<Rightarrow> Config" where
  "set_UDP x c = c\<lparr>cfg_Runtime := (cfg_Runtime c)\<lparr>rt_UDP := x\<rparr>\<rparr>"

definition policyWarnings :: "(string \<times> tval) list \<Rightarrow> warning list" where
  "policyWarnings m =
     (case map_of m ''policy'' of
        Some (TTable policyMap) \<Rightarrow>
          if map_of policyMap ''template'' \<noteq> None then [WarnPolicyTemplateDeprecated] else []
      | _ \<Rightarrow> [])"

definition Config_UnmarshalTOML :: "(string \<Rightarrow> int option) \<Rightarrow> tval \<Rightarrow> Config \<Rightarrow> Config decode \<times> warning list" where
  "Config_UnmarshalTOML parseLevel data c =
     (case data of
        TTable m \<Rightarrow>
          let st = decode_fields
                [section_step m ''app'' (AppOptions_UnmarshalTOML parseLevel) (\<lambda>c. st_App (cfg_Startup c)) set_App,
                 section_step m ''connection'' ConnOptions_UnmarshalTOML (\<lambda>c. rt_Conn (cfg_Runtime c)) set_Conn,
                 section_step m ''dns'' DNSOptions_UnmarshalTOML (\<lambda>c. rt_DNS (cfg_Runtime c)) set_DNS,
                 section_step m ''https'' HTTPSOptions_UnmarshalTOML (\<lambda>c. rt_HTTPS (cfg_Runtime c)) set_HTTPS,
                 section_step m ''udp'' UDPOptions_UnmarshalTOML (\<lambda>c. rt_UDP (cfg_Runtime c)) set_UDP]
                c in
          (st, if fst st = Some Panic then [] else policyWarnings m)
      | _ \<Rightarrow> ((Some (Err (NotTable ''config'')), c), []))"

section \<open>Entries from files\<close>

text \<open>
  \<open>os.ExpandEnv\<close>, \<open>os.UserHomeDir\<close>, \<open>filepath.Join\<close> and \<open>filepath.IsAbs\<close>, and what opening and scanning a path
  yields: its lines, \<open>os.IsNotExist\<close>, or another error.
\<close>

record path_env =
  pe_ExpandEnv :: "string \<Rightarrow> string"
  pe_UserHomeDir :: "string option"
  pe_Join :: "string \<Rightarrow> string \<Rightarrow> string"
  pe_IsAbs :: "string \<Rightarrow> bool"

datatype file_result = FileLines "string list" | FileMissing | FileFailed

definition filePrefix :: string where "filePrefix = ''file:''"

definition expandPath :: "path_env \<Rightarrow> string \<Rightarrow> string \<Rightarrow> string" where
  "expandPath pe p0 configDir =
     (let p = pe_ExpandEnv pe p0 in
      if HasPrefix p ''~/'' then
        (case pe_UserHomeDir pe of Some home \<Rightarrow> pe_Join pe home (drop 2 p) | None \<Rightarrow> p)
      else if configDir \<noteq> [] \<and> \<not> pe_IsAbs pe p then pe_Join pe configDir p
      else p)"

definition keepLine :: "string \<Rightarrow> bool" where
  "keepLine line \<longleftrightarrow> line \<noteq> [] \<and> \<not> HasPrefix line ''#''"

definition readLines :: "string list \<Rightarrow> string list" where
  "readLines raw = filter keepLine (map TrimSpace raw)"

fun resolveEntries ::
    "path_env \<Rightarrow> (string \<Rightarrow> file_result) \<Rightarrow> string \<Rightarrow> string list \<Rightarrow> (conf_error, string list) res \<times> warning list" where
  "resolveEntries pe files configDir [] = (Inr [], [])"
| "resolveEntries pe files configDir (e # es) =
     (if \<not> HasPrefix e filePrefix then
        let (r, w) = resolveEntries pe files configDir es in (bindR r (\<lambda>l. Inr (e # l)), w)
      else
        let path = expandPath pe (drop (length filePrefix) e) configDir in
        case files path of
          FileMissing \<Rightarrow>
            let (r, w) = resolveEntries pe files configDir es in (r, WarnFileNotFound path # w)
        | FileFailed \<Rightarrow> (Inl (Err (FileError path)), [])
        | FileLines raw \<Rightarrow>
            let (r, w) = resolveEntries pe files configDir es in (bindR r (\<lambda>l. Inr (readLines raw @ l)), w))"

text \<open>The entries of a list that are strings.\<close>

fun string_entries :: "tval list \<Rightarrow> string list" where
  "string_entries [] = []"
| "string_entries (TString s # vs) = s # string_entries vs"
| "string_entries (v # vs) = string_entries vs"

fun expand_keys ::
    "path_env \<Rightarrow> (string \<Rightarrow> file_result) \<Rightarrow> nat \<Rightarrow> string \<Rightarrow> string list \<Rightarrow> (string \<times> tval) list \<Rightarrow>
     (conf_error, (string \<times> tval) list) res \<times> warning list" where
  "expand_keys pe files i configDir [] m = (Inr m, [])"
| "expand_keys pe files i configDir (key # keys) m =
     (case map_of m key of
        Some (TList arr) \<Rightarrow>
          let (r, w) = resolveEntries pe files configDir (string_entries arr) in
          (case mapErr (InRule i key) r of
             Inl e \<Rightarrow> (Inl e, w)
           | Inr expanded \<Rightarrow>
               let (r', w') = expand_keys pe files i configDir keys (AList.update key (TList (map TString expanded)) m) in
               (r', w @ w'))
      | _ \<Rightarrow> expand_keys pe files i configDir keys m)"

definition expandFileMatchList ::
    "path_env \<Rightarrow> (string \<Rightarrow> file_result) \<Rightarrow> tval \<Rightarrow> nat \<Rightarrow> string \<Rightarrow> (conf_error, tval) res \<times> warning list" where
  "expandFileMatchList pe files v ruleIdx configDir =
     (case v of
        TTable m \<Rightarrow>
          let (r, w) = expand_keys pe files ruleIdx configDir [''domains'', ''cidrs''] m in
          (bindR r (\<lambda>m. Inr (TTable m)), w)
      | _ \<Rightarrow> (Inr v, []))"

section \<open>Rules\<close>

definition rulesFromMap :: "(string \<times> tval) list \<Rightarrow> (string \<times> tval) list list \<times> warning list" where
  "rulesFromMap m =
     (let rules = (case map_of m ''rules'' of Some (TTables r) \<Rightarrow> r | _ \<Rightarrow> []) in
      case map_of m ''policy'' of
        Some (TTable policy) \<Rightarrow>
          (case map_of policy ''overrides'' of
             Some (TTables overrides) \<Rightarrow> (rules @ overrides, [WarnPolicyOverridesDeprecated])
           | _ \<Rightarrow> (rules, []))
      | _ \<Rightarrow> (rules, []))"

definition baseRule :: "RuntimeConfig \<Rightarrow> Rule" where
  "baseRule base =
     \<lparr>rule_Name = [], rule_Priority = 0, rule_Block = False, rule_Match = None,
      rule_Config = base\<lparr>rt_HTTPS := (rt_HTTPS base)\<lparr>https_Skip := False\<rparr>,
                         rt_UDP := (rt_UDP base)\<lparr>udp_Skip := False\<rparr>\<rparr>\<rparr>"

text \<open>One section of a rule table, decoded onto the rule's configuration.\<close>

definition rule_section ::
    "nat \<Rightarrow> (string \<times> tval) list \<Rightarrow> string \<Rightarrow> (tval \<Rightarrow> 'a \<Rightarrow> 'a decode) \<Rightarrow> (RuntimeConfig \<Rightarrow> 'a) \<Rightarrow>
     ('a \<Rightarrow> RuntimeConfig \<Rightarrow> RuntimeConfig) \<Rightarrow> Rule \<Rightarrow> (conf_error, Rule) res" where
  "rule_section i item key unmarshal get put r =
     (case map_of item key of
        None \<Rightarrow> Inr r
      | Some v \<Rightarrow>
          bindR (mapErr (InRule i key) (to_res (unmarshal v (get (rule_Config r))))) (\<lambda>x.
          Inr (r\<lparr>rule_Config := put x (rule_Config r)\<rparr>)))"

definition rule_name :: "(string \<times> tval) list \<Rightarrow> Rule \<Rightarrow> Rule" where
  "rule_name item r = (case map_of item ''name'' of Some (TString v) \<Rightarrow> r\<lparr>rule_Name := v\<rparr> | _ \<Rightarrow> r)"

definition rule_priority :: "nat \<Rightarrow> (string \<times> tval) list \<Rightarrow> Rule \<Rightarrow> (conf_error, Rule) res" where
  "rule_priority i item r =
     (case map_of item ''priority'' of
        None \<Rightarrow> Inr r
      | Some v \<Rightarrow>
          bindR (mapErr (InRule i ''priority'') (parseIntFn of_int checkUint16 v)) (\<lambda>p. Inr (r\<lparr>rule_Priority := p\<rparr>)))"

definition rule_block :: "(string \<times> tval) list \<Rightarrow> Rule \<Rightarrow> Rule" where
  "rule_block item r = (case map_of item ''block'' of Some (TBool v) \<Rightarrow> r\<lparr>rule_Block := v\<rparr> | _ \<Rightarrow> r)"

definition rule_match :: "nat \<Rightarrow> (string \<times> tval) list \<Rightarrow> Rule \<Rightarrow> (conf_error, Rule) res" where
  "rule_match i item r =
     (case map_of item ''match'' of
        None \<Rightarrow> Inr r
      | Some v \<Rightarrow>
          bindR (mapErr (InRule i ''match'') (to_res (MatchAttrs_UnmarshalTOML v emptyMatchAttrs))) (\<lambda>a.
          Inr (r\<lparr>rule_Match := Some a\<rparr>)))"

definition resolveRule :: "nat \<Rightarrow> RuntimeConfig \<Rightarrow> (string \<times> tval) list \<Rightarrow> (conf_error, Rule) res" where
  "resolveRule i base item =
     bindR (rule_priority i item (rule_name item (baseRule base))) (\<lambda>r.
     bindR (rule_match i item (rule_block item r)) (\<lambda>r.
     bindR (rule_section i item ''dns'' DNSOptions_UnmarshalTOML rt_DNS (\<lambda>x. rt_DNS_update (\<lambda>_. x)) r) (\<lambda>r.
     bindR (rule_section i item ''https'' HTTPSOptions_UnmarshalTOML rt_HTTPS (\<lambda>x. rt_HTTPS_update (\<lambda>_. x)) r) (\<lambda>r.
     bindR (rule_section i item ''udp'' UDPOptions_UnmarshalTOML rt_UDP (\<lambda>x. rt_UDP_update (\<lambda>_. x)) r) (\<lambda>r.
     rule_section i item ''connection'' ConnOptions_UnmarshalTOML rt_Conn (\<lambda>x. rt_Conn_update (\<lambda>_. x)) r)))))"

fun resolve_from :: "nat \<Rightarrow> (string \<times> tval) list list \<Rightarrow> RuntimeConfig \<Rightarrow> (conf_error, Rule list) res" where
  "resolve_from i [] base = Inr []"
| "resolve_from i (item # items) base =
     bindR (resolveRule i base item) (\<lambda>r. bindR (resolve_from (Suc i) items base) (\<lambda>rs. Inr (r # rs)))"

definition resolveRules :: "(string \<times> tval) list list \<Rightarrow> RuntimeConfig \<Rightarrow> (conf_error, Rule list) res" where
  "resolveRules raw base = resolve_from 0 raw base"

section \<open>Load\<close>

text \<open>
  The parameters of a start: the flags \<open>clean\<close> and \<open>config\<close>, the default locations, \<open>os.Stat\<close>, the TOML decoder,
  \<open>zerolog.ParseLevel\<close> and \<open>InfoLevel\<close>, and the file environment.
\<close>

record load_env =
  le_clean :: bool
  le_config :: string
  le_configDirs :: "string list"
  le_stat :: "string \<Rightarrow> bool"
  le_decode :: "string \<Rightarrow> (string \<times> tval) list option"
  le_parseLevel :: "string \<Rightarrow> int option"
  le_infoLevel :: int
  le_paths :: path_env
  le_files :: "string \<Rightarrow> file_result"
  le_dir :: "string \<Rightarrow> string"

definition searchTomlFile :: "(string \<Rightarrow> bool) \<Rightarrow> string \<Rightarrow> string list \<Rightarrow> (conf_error, string) res" where
  "searchTomlFile stat customDir lookupDirs =
     (if customDir \<noteq> [] then (if \<not> stat customDir then Inl (Err (NoSuchFile customDir)) else Inr customDir)
      else
        (case find (\<lambda>p. p \<noteq> [] \<and> stat p) lookupDirs of
           Some p \<Rightarrow> Inr p
         | None \<Rightarrow> Inr []))"

definition fromTomlFile ::
    "load_env \<Rightarrow> string \<Rightarrow> Config \<Rightarrow> (conf_error, (string \<times> tval) list \<times> Config) res \<times> warning list" where
  "fromTomlFile env dir cfg =
     (case le_decode env dir of
        None \<Rightarrow> (Inl (Err TomlSyntax), [])
      | Some m \<Rightarrow>
          let (st, w) = Config_UnmarshalTOML (le_parseLevel env) (TTable m) cfg in
          (bindR (to_res st) (\<lambda>cfg. Inr (m, cfg)), w))"

definition loadTOML ::
    "load_env \<Rightarrow> Config \<Rightarrow> (conf_error, string \<times> (string \<times> tval) list list \<times> Config) res \<times> warning list" where
  "loadTOML env cfg =
     (if le_clean env then (Inr ([], [], cfg), [])
      else
        (case searchTomlFile (le_stat env) (le_config env) (le_configDirs env) of
           Inl e \<Rightarrow> (Inl e, [])
         | Inr configPath \<Rightarrow>
             if configPath = [] then (Inr ([], [], cfg), [])
             else
               let (r, w) = fromTomlFile env configPath cfg in
               (case mapErr (ParsingFile configPath) r of
                  Inl e \<Rightarrow> (Inl e, w)
                | Inr (m, cfg) \<Rightarrow>
                    let (rules, w') = rulesFromMap m in (Inr (configPath, rules, cfg), w @ w'))))"

fun expand_rules ::
    "load_env \<Rightarrow> string \<Rightarrow> nat \<Rightarrow> (string \<times> tval) list list \<Rightarrow>
     (conf_error, (string \<times> tval) list list) res \<times> warning list" where
  "expand_rules env configDir i [] = (Inr [], [])"
| "expand_rules env configDir i (rule # rules) =
     (case (case map_of rule ''match'' of
              None \<Rightarrow> (Inr rule, [])
            | Some v \<Rightarrow>
                let (r, w) = expandFileMatchList (le_paths env) (le_files env) v i configDir in
                (bindR r (\<lambda>v. Inr (AList.update ''match'' v rule)), w)) of
        (Inl e, w) \<Rightarrow> (Inl e, w)
      | (Inr rule, w) \<Rightarrow>
          let (r, w') = expand_rules env configDir (Suc i) rules in
          (bindR r (\<lambda>rs. Inr (rule # rs)), w @ w'))"

definition Load :: "load_env \<Rightarrow> (Config \<Rightarrow> Config) list \<Rightarrow> (conf_error, Config \<times> string) res \<times> warning list" where
  "Load env cliOverrides =
     (let (r, w) = loadTOML env (DefaultConfig (le_infoLevel env)) in
      case r of
        Inl e \<Rightarrow> (Inl e, w)
      | Inr (configPath, rawRules, cfg) \<Rightarrow>
          let cfg = fold (\<lambda>apply. apply) cliOverrides cfg;
              (cfg, w1) = Finalize cfg;
              (r, w2) = expand_rules env (le_dir env configPath) 0 rawRules in
          (case r of
             Inl e \<Rightarrow> (Inl e, w @ w1 @ w2)
           | Inr rawRules \<Rightarrow>
               (bindR (resolveRules rawRules (cfg_Runtime cfg)) (\<lambda>rules.
                let cfg = cfg\<lparr>cfg_Startup := (cfg_Startup cfg)\<lparr>st_Rules := rules\<rparr>\<rparr> in
                case Config_Validate cfg of
                  Some e \<Rightarrow> Inl (Err e)
                | None \<Rightarrow> Inr (cfg, configPath)), w @ w1 @ w2)))"

section \<open>Decoding never panics\<close>

text \<open>
  A look-up is safe when it turns no state without a panic into one with a panic; a method made of safe
  look-ups is safe. The parsers after each validator are total on what the validator lets through.
\<close>

definition safe_step :: "('o decode \<Rightarrow> 'o decode) \<Rightarrow> bool" where
  "safe_step f \<longleftrightarrow> (\<forall>st. fst st \<noteq> Some Panic \<longrightarrow> fst (f st) \<noteq> Some Panic)"

lemma decode_fields_safe: "list_all safe_step steps \<Longrightarrow> fst (decode_fields steps x) \<noteq> Some Panic"
proof -
  have "list_all safe_step steps \<Longrightarrow> fst st \<noteq> Some Panic \<Longrightarrow> fst (fold (\<lambda>f. f) steps st) \<noteq> Some Panic" for st
    by (induction steps arbitrary: st) (simp_all add: safe_step_def del: split_paired_All)
  then show "list_all safe_step steps \<Longrightarrow> ?thesis"
    by (simp add: decode_fields_def)
qed

lemma not_panic_iff: "no_panic m \<longleftrightarrow> (case m of Inl e \<Rightarrow> e \<noteq> Panic | Inr _ \<Rightarrow> True)"
  by (cases m) (auto simp: no_panic_def)

lemma mapErr_no_panic [simp]: "no_panic (mapErr f m) \<longleftrightarrow> no_panic m"
  by (simp add: no_panic_def)

lemma findFrom_safe:
  assumes "\<And>v. no_panic (parser v)" and "\<And>v p x. parser v = Inr p \<Longrightarrow> no_panic (assign p x)"
  shows "safe_step (findFrom m key parser assign)"
proof -
  have "no_panic (bindR (mapErr g (parser v)) (\<lambda>p. assign p x))" for g v x
    using assms by (intro no_panic_bindR) (auto simp: no_panic_def)
  then have "bindR (mapErr g (parser v)) (\<lambda>p. assign p x) \<noteq> Inl Panic" for g v x
    by (simp add: no_panic_def)
  then show ?thesis
    by (auto simp: safe_step_def findFrom_def split: option.splits sum.splits)
qed

lemma parse_items_no_panic: "(\<And>v. no_panic (parser v)) \<Longrightarrow> no_panic (parse_items wrap parser i vs)"
  by (induction vs arbitrary: i) (auto intro!: no_panic_bindR)

lemma findSliceFrom_safe:
  assumes p: "\<And>v. no_panic (parser v)" and a: "\<And>xs x. no_panic (assign xs x)"
  shows "safe_step (findSliceFrom m key parser assign)"
    and "safe_step (findStructSliceFrom m key parser assign)"
proof -
  have "no_panic (bindR (parse_items w parser 0 l) (\<lambda>xs. assign xs x))" for w l x
    by (intro no_panic_bindR parse_items_no_panic p a)
  then have n: "bindR (parse_items w parser 0 l) (\<lambda>xs. assign xs x) \<noteq> Inl Panic" for w l x
    by (simp add: no_panic_def)
  show "safe_step (findSliceFrom m key parser assign)"
    unfolding safe_step_def findSliceFrom_def
    by (auto split: option.splits sum.splits tval.splits dest: n [THEN notE])
  show "safe_step (findStructSliceFrom m key parser assign)"
    unfolding safe_step_def findStructSliceFrom_def
    by (auto split: option.splits sum.splits tval.splits dest: n [THEN notE])
qed

lemma parseFn_no_panic [simp]:
  "no_panic (parseIntFn conv c v)" "no_panic (parseStringFn d v)" "no_panic (parseBoolFn v)" "no_panic (parseByteFn e v)"
  by (simp_all add: parseIntFn_def parseStringFn_def parseBoolFn_def parseByteFn_def split: tval.splits option.splits)

lemma parseStringFn_checked: "parseStringFn c v = Inr s \<Longrightarrow> c s = None"
  by (auto simp: parseStringFn_def split: tval.splits option.splits)

lemma checked_no_panic:
  "checkAppMode s = None \<Longrightarrow> no_panic (MustParseServerModeType s)"
  "checkDNSMode s = None \<Longrightarrow> no_panic (MustParseDNSModeType s)"
  "checkDNSQueryType s = None \<Longrightarrow> no_panic (MustParseDNSQueryType s)"
  "checkHTTPSSplitMode s = None \<Longrightarrow> no_panic (mustParseHTTPSSplitModeType s)"
  "checkSegmentFrom s = None \<Longrightarrow> no_panic (mustParseSegmentFromType s)"
  "checkHostPort s = None \<Longrightarrow> no_panic (MustParseTCPAddr s)"
  using check_parse [of s]
  by (auto simp: checkHostPort_def MustParseTCPAddr_def split: option.splits if_splits prod.splits)


lemmas parsed_no_panic = checked_no_panic [OF parseStringFn_checked]

lemma customCheck_safe [simp]: "safe_step customCheck"
  by (auto simp: safe_step_def customCheck_def)

lemma matchCheck_safe [simp]: "safe_step matchCheck"
  by (auto simp: safe_step_def matchCheck_def split: option.splits)

lemma required_safe [simp]: "safe_step (required m key)"
  by (auto simp: safe_step_def required_def)

lemma findStructFrom_safe:
  assumes "\<And>v. no_panic (unmarshal v)"
  shows "safe_step (findStructFrom m key unmarshal assign)"
proof -
  have "mapErr g (unmarshal v) \<noteq> Inl Panic" for g v
    using assms by (simp add: no_panic_def)
  then show ?thesis
    by (auto simp: safe_step_def findStructFrom_def split: option.splits sum.splits)
qed

lemma to_res_no_panic: "no_panic (to_res st) \<longleftrightarrow> fst st \<noteq> Some Panic"
  by (auto simp: to_res_def no_panic_def split: option.splits)

lemmas step_safe = findFrom_safe findSliceFrom_safe findStructFrom_safe no_panic_bindR

text \<open>
  The contract of a configuration section: decoding a table never panics and leaves the options it names no
  key of as they are. \<open>Load\<close> relies on it for the base configuration and again for every rule.
\<close>

locale option_table =
  fixes unmarshal :: "tval \<Rightarrow> 'o \<Rightarrow> 'o decode" and fields :: "string list"
  assumes never_panics: "fst (unmarshal v x) \<noteq> Some Panic"
    and not_table: "\<forall>m. v \<noteq> TTable m \<Longrightarrow> fst (unmarshal v x) \<noteq> None"
    and untouched: "\<forall>k \<in> set fields. map_of m k = None \<Longrightarrow> snd (unmarshal (TTable m) x) = x"
begin

lemma section_step_safe: "safe_step (section_step m key unmarshal get put)"
  using never_panics
  by (auto simp: safe_step_def section_step_def split: option.splits prod.splits) (metis fst_conv)

lemma rule_section_safe: "no_panic (rule_section i item key unmarshal get put r)"
  using never_panics
  by (auto simp: rule_section_def to_res_no_panic split: option.splits intro!: no_panic_bindR)

end

lemma findFrom_absent [simp]: "map_of m key = None \<Longrightarrow> findFrom m key parser assign st = st"
  and findSliceFrom_absent [simp]: "map_of m key = None \<Longrightarrow> findSliceFrom m key parser assign' st = st"
  and findStructSliceFrom_absent [simp]: "map_of m key = None \<Longrightarrow> findStructSliceFrom m key parser assign' st = st"
  by (auto simp: findFrom_def findSliceFrom_def findStructSliceFrom_def split: option.splits)


lemma SegmentPlan_safe: "no_panic (to_res (SegmentPlan_UnmarshalTOML v s))"
proof -
  have "fst (SegmentPlan_UnmarshalTOML v s) \<noteq> Some Panic"
    unfolding SegmentPlan_UnmarshalTOML_def
    by (cases v)
      (auto intro!: decode_fields_safe step_safe intro: parsed_no_panic)
  then show ?thesis
    by (simp add: to_res_no_panic)
qed

interpretation conn: option_table ConnOptions_UnmarshalTOML
  "[''default-fake-ttl'', ''dns-timeout'', ''tcp-timeout'', ''udp-idle-timeout'']"
proof unfold_locales
  show "fst (ConnOptions_UnmarshalTOML v x) \<noteq> Some Panic" for v x
    by (cases v) (auto simp: ConnOptions_UnmarshalTOML_def intro!: decode_fields_safe step_safe)
qed (auto simp: ConnOptions_UnmarshalTOML_def decode_fields_def split: tval.splits)

interpretation dns: option_table DNSOptions_UnmarshalTOML "[''mode'', ''addr'', ''https-url'', ''qtype'', ''cache'']"
proof unfold_locales
  show "fst (DNSOptions_UnmarshalTOML v x) \<noteq> Some Panic" for v x
    by (cases v)
      (auto simp: DNSOptions_UnmarshalTOML_def intro!: decode_fields_safe step_safe
        intro: parsed_no_panic)
qed (auto simp: DNSOptions_UnmarshalTOML_def decode_fields_def split: tval.splits)

interpretation https: option_table HTTPSOptions_UnmarshalTOML
  "[''disorder'', ''fake-count'', ''fake-packet'', ''split-mode'', ''chunk-size'', ''skip'', ''custom-segments'']"
proof unfold_locales
  show "fst (HTTPSOptions_UnmarshalTOML v x) \<noteq> Some Panic" for v x
    by (cases v)
      (auto simp: HTTPSOptions_UnmarshalTOML_def SegmentPlan_safe intro!: decode_fields_safe step_safe
        intro: parsed_no_panic)
qed (auto simp: HTTPSOptions_UnmarshalTOML_def decode_fields_def customCheck_def split: tval.splits)

interpretation udp: option_table UDPOptions_UnmarshalTOML "[''skip'', ''fake-count'', ''fake-packet'']"
proof unfold_locales
  show "fst (UDPOptions_UnmarshalTOML v x) \<noteq> Some Panic" for v x
    by (cases v) (auto simp: UDPOptions_UnmarshalTOML_def intro!: decode_fields_safe step_safe)
qed (auto simp: UDPOptions_UnmarshalTOML_def decode_fields_def split: tval.splits)

interpretation match: option_table MatchAttrs_UnmarshalTOML "[''domains'', ''cidrs'']"
proof unfold_locales
  show "fst (MatchAttrs_UnmarshalTOML v x) \<noteq> Some Panic" for v x
    by (cases v)
      (auto simp: MatchAttrs_UnmarshalTOML_def intro!: decode_fields_safe step_safe split: option.splits)
qed (auto simp: MatchAttrs_UnmarshalTOML_def decode_fields_def matchCheck_def split: option.splits tval.splits)

definition known_levels :: "(string \<Rightarrow> int option) \<Rightarrow> bool" where
  "known_levels parseLevel \<longleftrightarrow> list_all (\<lambda>s. parseLevel s \<noteq> None) availableLogLevelValues"

lemma App_safe:
  assumes "known_levels pl"
  shows "fst (AppOptions_UnmarshalTOML pl v x) \<noteq> Some Panic"
proof -
  have l: "no_panic (MustParseLogLevel pl s)" if "parseStringFn checkLogLevel u = Inr s" for s u
    using assms parseStringFn_checked [OF that]
    by (auto simp: known_levels_def checkLogLevel_def checkOneOf_def MustParseLogLevel_def list_all_iff
        split: if_splits option.splits)
  show ?thesis
    by (cases v)
      (auto simp: AppOptions_UnmarshalTOML_def intro!: decode_fields_safe step_safe intro: parsed_no_panic l)
qed

lemma Config_safe:
  assumes "known_levels pl"
  shows "fst (fst (Config_UnmarshalTOML pl v c)) \<noteq> Some Panic"
proof (cases v)
  case (TTable m)
  have "safe_step (section_step m key (AppOptions_UnmarshalTOML pl) get put)" for key get put
    using App_safe [OF assms]
    by (auto simp: safe_step_def section_step_def split: option.splits prod.splits) (metis fst_conv)
  then show ?thesis
    unfolding TTable Config_UnmarshalTOML_def
    by (auto simp: Let_def conn.section_step_safe dns.section_step_safe https.section_step_safe udp.section_step_safe
        intro!: decode_fields_safe)
qed (simp_all add: Config_UnmarshalTOML_def)

lemma resolveRule_safe: "no_panic (resolveRule i base item)"
  unfolding resolveRule_def rule_priority_def rule_match_def
  by (auto intro!: no_panic_bindR conn.rule_section_safe dns.rule_section_safe https.rule_section_safe
      udp.rule_section_safe split: option.splits simp: to_res_no_panic match.never_panics)

lemma resolveRules_safe: "no_panic (resolveRules raw base)"
proof -
  have "no_panic (resolve_from i raw base)" for i
    by (induction raw arbitrary: i) (auto intro!: no_panic_bindR resolveRule_safe)
  then show ?thesis
    by (simp add: resolveRules_def)
qed

lemma resolveEntries_safe: "no_panic (fst (resolveEntries pe files d es))"
  by (induction es) (auto intro!: no_panic_bindR split: file_result.splits prod.splits simp: Let_def)

lemma expand_keys_safe: "no_panic (fst (expand_keys pe files i d keys m))"
proof (induction keys arbitrary: m)
  case (Cons key keys)
  show ?case
  proof (cases "\<exists>arr. map_of m key = Some (TList arr)")
    case True
    then obtain arr where a: "map_of m key = Some (TList arr)"
      by blast
    define r where "r = mapErr (InRule i key) (fst (resolveEntries pe files d (string_entries arr)))"
    have "no_panic r"
      by (simp add: r_def resolveEntries_safe)
    then show ?thesis
      using Cons by (cases r) (simp_all add: a case_prod_beta Let_def r_def [symmetric] no_panic_def)
  next
    case False
    then have "expand_keys pe files i d (key # keys) m = expand_keys pe files i d keys m"
      by (auto split: option.splits tval.splits)
    then show ?thesis
      using Cons by simp
  qed
qed simp

lemma expandFileMatchList_safe: "no_panic (fst (expandFileMatchList pe files v i d))"
  using expand_keys_safe
  by (cases v) (auto simp: expandFileMatchList_def Let_def case_prod_beta intro!: no_panic_bindR simp del: expand_keys.simps)

lemma expand_rules_safe: "no_panic (fst (expand_rules env d i rules))"
proof (induction rules arbitrary: i)
  case (Cons rule rules)
  define p where "p = (case map_of rule ''match'' of
      None \<Rightarrow> (Inr rule, [])
    | Some v \<Rightarrow>
        let (r, w) = expandFileMatchList (le_paths env) (le_files env) v i d in
        (bindR r (\<lambda>v. Inr (AList.update ''match'' v rule)), w))"
  have "no_panic (fst p)"
    using expandFileMatchList_safe
    by (auto simp: p_def Let_def case_prod_beta split: option.splits intro!: no_panic_bindR)
  then show ?case
    using Cons [of "Suc i"]
    by (cases p; cases "fst p")
      (auto simp: p_def [symmetric] no_panic_def Let_def case_prod_beta bindR_def split: sum.splits)
qed simp


lemma searchTomlFile_safe: "no_panic (searchTomlFile stat custom dirs)"
  by (auto simp: searchTomlFile_def split: option.splits)

lemma loadTOML_safe:
  assumes "known_levels (le_parseLevel env)"
  shows "no_panic (fst (loadTOML env cfg))"
proof -
  have f: "no_panic (fst (fromTomlFile env p cfg))" for p
    using Config_safe [OF assms]
    by (auto simp: fromTomlFile_def Let_def case_prod_beta to_res_no_panic split: option.splits intro!: no_panic_bindR)
  have "no_panic (fst (let (r, w) = fromTomlFile env p cfg in
      case mapErr g r of Inl e \<Rightarrow> (Inl e, w)
      | Inr (m, cfg) \<Rightarrow> let (rules, w') = rulesFromMap m in (Inr (p, rules, cfg), w @ w')))" for p g
    using f [of p]
    by (cases "mapErr g (fst (fromTomlFile env p cfg))") (auto simp: Let_def case_prod_beta no_panic_def)
  then show ?thesis
    using searchTomlFile_safe [of "le_stat env" "le_config env" "le_configDirs env"]
    by (auto simp: loadTOML_def no_panic_def split: sum.splits)
qed

text \<open>
  The result of \<open>Load\<close> in its two parts: what the TOML layer yields, and the finalized configuration the rules
  are resolved on.
\<close>

lemma Load_Inr_iff:
  "fst (Load env ov) = Inr (c, p) \<longleftrightarrow>
     (\<exists>raw cfg raw' rules.
        fst (loadTOML env (DefaultConfig (le_infoLevel env))) = Inr (p, raw, cfg) \<and>
        fst (expand_rules env (le_dir env p) 0 raw) = Inr raw' \<and>
        resolveRules raw' (cfg_Runtime (fst (Finalize (fold (\<lambda>f. f) ov cfg)))) = Inr rules \<and>
        (let fin = fst (Finalize (fold (\<lambda>f. f) ov cfg)) in
         c = fin\<lparr>cfg_Startup := (cfg_Startup fin)\<lparr>st_Rules := rules\<rparr>\<rparr>) \<and>
        Config_Validate c = None)"
  unfolding Load_def
  by (auto simp: Let_def case_prod_beta bindR_eq_Inr_iff split: sum.splits option.splits)

text \<open>
  Loading never panics. Whatever the configuration file, the rule files and the command line hold,
  \<open>Load\<close> returns a configuration or an error, provided the logging library knows the level names that the
  validator accepts.
\<close>

lemma Load_no_panic:
  assumes "known_levels (le_parseLevel env)"
  shows "no_panic (fst (Load env ov))"
proof (cases "fst (loadTOML env (DefaultConfig (le_infoLevel env)))")
  case (Inl e)
  then show ?thesis
    using loadTOML_safe [OF assms, of "DefaultConfig (le_infoLevel env)"]
    by (auto simp: Load_def Let_def case_prod_beta no_panic_def)
next
  case (Inr t)
  obtain p raw cfg where t: "t = (p, raw, cfg)"
    by (cases t) auto
  have "no_panic (fst (expand_rules env (le_dir env p) 0 raw))"
    by (rule expand_rules_safe)
  then show ?thesis
    using Inr
    by (cases "fst (expand_rules env (le_dir env p) 0 raw)")
      (auto simp: Load_def t Let_def case_prod_beta no_panic_def [of "Inl _"] intro!: no_panic_bindR resolveRules_safe
        split: option.splits)
qed


section \<open>Rules of a loaded configuration\<close>

text \<open>\<open>keeps g f\<close>: the look-up \<open>f\<close> changes nothing that \<open>g\<close> sees of the struct.\<close>

definition keeps :: "('o \<Rightarrow> 'b) \<Rightarrow> ('o decode \<Rightarrow> 'o decode) \<Rightarrow> bool" where
  "keeps g f \<longleftrightarrow> (\<forall>st. g (snd (f st)) = g (snd st))"

lemma decode_fields_keeps: "list_all (keeps g) steps \<Longrightarrow> g (snd (decode_fields steps x)) = g x"
proof -
  have "list_all (keeps g) steps \<Longrightarrow> g (snd (fold (\<lambda>f. f) steps st)) = g (snd st)" for st
    by (induction steps arbitrary: st) (simp_all add: keeps_def del: split_paired_All)
  then show "list_all (keeps g) steps \<Longrightarrow> ?thesis"
    by (simp add: decode_fields_def)
qed

lemma find_keeps:
  assumes "\<And>p x y. assign p x = Inr y \<Longrightarrow> g y = g x" and "\<And>p x y. assign' p x = Inr y \<Longrightarrow> g y = g x"
  shows "keeps g (findFrom m key parser assign)" and "keeps g (findSliceFrom m key parser' assign')"
    and "keeps g (findStructSliceFrom m key parser' assign')"
  using assms
  by (auto simp: keeps_def findFrom_def findSliceFrom_def findStructSliceFrom_def bindR_eq_Inr_iff
      split: option.splits sum.splits tval.splits)

lemma absent_keeps:
  "map_of m key = None \<Longrightarrow> keeps g (findFrom m key parser assign)"
  "map_of m key = None \<Longrightarrow> keeps g (findSliceFrom m key parser' assign')"
  by (simp_all add: keeps_def)

lemma customCheck_keeps: "keeps g customCheck"
  by (simp add: keeps_def customCheck_def)

lemma HTTPS_skip: "map_of m ''skip'' = None \<Longrightarrow> https_Skip (snd (HTTPSOptions_UnmarshalTOML (TTable m) x)) = https_Skip x"
  unfolding HTTPSOptions_UnmarshalTOML_def
  by (simp, rule decode_fields_keeps) (auto intro!: find_keeps customCheck_keeps simp: absent_keeps bindR_eq_Inr_iff)

lemma UDP_skip: "map_of m ''skip'' = None \<Longrightarrow> udp_Skip (snd (UDPOptions_UnmarshalTOML (TTable m) x)) = udp_Skip x"
  unfolding UDPOptions_UnmarshalTOML_def
  by (simp, rule decode_fields_keeps) (auto intro!: find_keeps simp: absent_keeps bindR_eq_Inr_iff)

text \<open>\<open>overlay\<close>: a section of a rule is the base value, decoded over when the rule has the section.\<close>

definition overlay :: "(string \<times> tval) list \<Rightarrow> string \<Rightarrow> (tval \<Rightarrow> 'a \<Rightarrow> 'a decode) \<Rightarrow> 'a \<Rightarrow> 'a \<Rightarrow> bool" where
  "overlay item key unmarshal x y \<longleftrightarrow> (case map_of item key of None \<Rightarrow> y = x | Some v \<Rightarrow> unmarshal v x = (None, y))"

definition valid_match :: "MatchAttrs \<Rightarrow> bool" where
  "valid_match m \<longleftrightarrow> (match_Domains m \<noteq> [] \<or> match_CIDRs m \<noteq> []) \<and>
     list_all (\<lambda>d. checkDomainPattern d = None) (match_Domains m) \<and> list_all (\<lambda>c. checkCIDR c = None) (match_CIDRs m)"

lemma MatchAttrs_valid:
  assumes "to_res (MatchAttrs_UnmarshalTOML v emptyMatchAttrs) = Inr a"
  shows "valid_match a"
proof -
  define Q where "Q x \<longleftrightarrow> list_all (\<lambda>d. checkDomainPattern d = None) (match_Domains x) \<and>
      list_all (\<lambda>c. checkCIDR c = None) (match_CIDRs x)" for x :: MatchAttrs
  have slice: "Q (snd st) \<Longrightarrow> (\<And>p x y. assign p x = Inr y \<Longrightarrow> Q x \<Longrightarrow> Q y) \<Longrightarrow> Q (snd (findSliceFrom m key parser assign st))"
    for m key st and parser :: "tval \<Rightarrow> (conf_error, string) res" and assign
    by (auto simp: findSliceFrom_def bindR_eq_Inr_iff split: option.splits sum.splits tval.splits)
  obtain m where v: "v = TTable m"
    using assms by (cases v) (simp_all add: MatchAttrs_UnmarshalTOML_def to_res_def)
  have "Q emptyMatchAttrs"
    by (simp add: Q_def emptyMatchAttrs_def)
  then have q: "Q (snd (findSliceFrom m ''cidrs'' (parseStringFn (\<lambda>_. None)) setCIDRs
      (findSliceFrom m ''domains'' (parseStringFn (\<lambda>_. None)) setDomains (None, emptyMatchAttrs))))"
    if "\<And>p x y. setDomains p x = Inr y \<Longrightarrow> Q x \<Longrightarrow> Q y" "\<And>p x y. setCIDRs p x = Inr y \<Longrightarrow> Q x \<Longrightarrow> Q y"
    for setDomains setCIDRs
    using that by (auto intro!: slice)
  obtain st where st: "MatchAttrs_UnmarshalTOML v emptyMatchAttrs = matchCheck st" "Q (snd st)"
  proof (rule that)
    show "Q (snd (decode_fields
        [findSliceFrom m ''domains'' (parseStringFn (\<lambda>_. None))
           (\<lambda>raw x. case find (\<lambda>d. checkDomainPattern d \<noteq> None) raw of
              Some d \<Rightarrow> Inl (Err (InvalidDomain d)) | None \<Rightarrow> Inr (x\<lparr>match_Domains := raw\<rparr>)),
         findSliceFrom m ''cidrs'' (parseStringFn (\<lambda>_. None))
           (\<lambda>raw x. case find (\<lambda>c. checkCIDR c \<noteq> None) raw of
              Some c \<Rightarrow> Inl (Err (InvalidCIDREntry c)) | None \<Rightarrow> Inr (x\<lparr>match_CIDRs := raw\<rparr>))] emptyMatchAttrs))"
      unfolding decode_fields_def fold_simps comp_apply id_apply
      by (rule q) (auto simp: Q_def find_None_iff list_all_iff split: option.splits)
  qed (simp add: v MatchAttrs_UnmarshalTOML_def decode_fields_def)
  then have "checkMatchAttrs a = None" "a = snd st"
    using assms by (auto simp: to_res_def matchCheck_def split: option.splits)
  then show ?thesis
    using st(2) by (auto simp: valid_match_def Q_def checkMatchAttrs_def split: if_splits)
qed


lemma rule_section_Inr:
  "rule_section i item key unmarshal get put r = Inr r' \<longleftrightarrow>
     (\<exists>x. overlay item key unmarshal (get (rule_Config r)) x \<and>
       r' = (if map_of item key = None then r else r\<lparr>rule_Config := put x (rule_Config r)\<rparr>))"
proof (cases "map_of item key")
  case (Some v)
  then show ?thesis
    by (cases "unmarshal v (get (rule_Config r))")
      (auto simp: rule_section_def overlay_def bindR_eq_Inr_iff to_res_def split: option.splits)
qed (auto simp: rule_section_def overlay_def)

context option_table
begin

lemma accepted_table:
  assumes "unmarshal v x = (None, y)"
  obtains m where "v = TTable m"
proof -
  have "\<not> (\<forall>m. v \<noteq> TTable m)"
    using not_table [of v x] assms by auto
  then show thesis
    using that by blast
qed

lemma overlay_inherits:
  assumes "overlay item key unmarshal x y"
    and "\<forall>m. map_of item key = Some (TTable m) \<longrightarrow> (\<forall>k \<in> set fields. map_of m k = None)"
  shows "y = x"
proof (cases "map_of item key")
  case (Some v)
  then have u: "unmarshal v x = (None, y)"
    using assms(1) by (simp add: overlay_def)
  then obtain m where "v = TTable m"
    by (rule accepted_table)
  then show ?thesis
    using u untouched [of m x] assms(2) Some by simp
qed (use assms(1) in \<open>simp add: overlay_def\<close>)

lemma overlay_sets:
  assumes "overlay item key unmarshal x y" and "g y \<noteq> g x"
    and "\<And>m. map_of m k = None \<Longrightarrow> g (snd (unmarshal (TTable m) x)) = g x"
  shows "\<exists>m. map_of item key = Some (TTable m) \<and> map_of m k \<noteq> None"
proof -
  obtain v where v: "map_of item key = Some v" "unmarshal v x = (None, y)"
    using assms(1,2) by (auto simp: overlay_def split: option.splits)
  then obtain m where "v = TTable m"
    using accepted_table by blast
  then show ?thesis
    using v assms(2) assms(3) [of m] by force
qed

end

lemma rule_head_config [simp]:
  "rule_Config (rule_name item r) = rule_Config r" "rule_Config (rule_block item r) = rule_Config r"
  "rule_Match (rule_name item r) = rule_Match r" "rule_Match (rule_block item r) = rule_Match r"
  by (simp_all add: rule_name_def rule_block_def split: option.splits tval.splits)

lemma rule_priority_Inr:
  "rule_priority i item r = Inr r' \<Longrightarrow> rule_Config r' = rule_Config r \<and> rule_Match r' = rule_Match r"
  by (auto simp: rule_priority_def bindR_eq_Inr_iff split: option.splits)

lemma rule_match_Inr:
  assumes "rule_match i item r = Inr r'"
  shows "rule_Config r' = rule_Config r \<and>
    (case map_of item ''match'' of None \<Rightarrow> rule_Match r' = rule_Match r | Some v \<Rightarrow> \<exists>a. rule_Match r' = Some a \<and> valid_match a)"
  using assms by (auto simp: rule_match_def bindR_eq_Inr_iff split: option.splits intro: MatchAttrs_valid)

text \<open>What a resolved rule is made of.\<close>

lemma resolveRule_Inr:
  assumes "resolveRule i base item = Inr r"
  shows "overlay item ''dns'' DNSOptions_UnmarshalTOML (rt_DNS base) (rt_DNS (rule_Config r))"
    and "overlay item ''https'' HTTPSOptions_UnmarshalTOML ((rt_HTTPS base)\<lparr>https_Skip := False\<rparr>) (rt_HTTPS (rule_Config r))"
    and "overlay item ''udp'' UDPOptions_UnmarshalTOML ((rt_UDP base)\<lparr>udp_Skip := False\<rparr>) (rt_UDP (rule_Config r))"
    and "overlay item ''connection'' ConnOptions_UnmarshalTOML (rt_Conn base) (rt_Conn (rule_Config r))"
    and "case map_of item ''match'' of None \<Rightarrow> rule_Match r = None | Some v \<Rightarrow> \<exists>a. rule_Match r = Some a \<and> valid_match a"
proof -
  let ?c = "base\<lparr>rt_HTTPS := (rt_HTTPS base)\<lparr>https_Skip := False\<rparr>, rt_UDP := (rt_UDP base)\<lparr>udp_Skip := False\<rparr>\<rparr>"
  obtain r1 r2 r3 r4 r5 where
    r1: "rule_priority i item (rule_name item (baseRule base)) = Inr r1" and
    r2: "rule_match i item (rule_block item r1) = Inr r2" and
    r3: "rule_section i item ''dns'' DNSOptions_UnmarshalTOML rt_DNS (\<lambda>x. rt_DNS_update (\<lambda>_. x)) r2 = Inr r3" and
    r4: "rule_section i item ''https'' HTTPSOptions_UnmarshalTOML rt_HTTPS (\<lambda>x. rt_HTTPS_update (\<lambda>_. x)) r3 = Inr r4" and
    r5: "rule_section i item ''udp'' UDPOptions_UnmarshalTOML rt_UDP (\<lambda>x. rt_UDP_update (\<lambda>_. x)) r4 = Inr r5" and
    r: "rule_section i item ''connection'' ConnOptions_UnmarshalTOML rt_Conn (\<lambda>x. rt_Conn_update (\<lambda>_. x)) r5 = Inr r"
    using assms by (auto simp: resolveRule_def bindR_eq_Inr_iff)
  have c: "rule_Config r2 = ?c"
    using rule_match_Inr [OF r2] rule_priority_Inr [OF r1] by (simp add: baseRule_def)
  have m: "case map_of item ''match'' of None \<Rightarrow> rule_Match r2 = None | Some v \<Rightarrow> \<exists>a. rule_Match r2 = Some a \<and> valid_match a"
    using rule_match_Inr [OF r2] rule_priority_Inr [OF r1] by (simp add: baseRule_def split: option.splits)
  note s = r3 [unfolded rule_section_Inr] r4 [unfolded rule_section_Inr] r5 [unfolded rule_section_Inr] r [unfolded rule_section_Inr]
  obtain d h u n where
    o: "overlay item ''dns'' DNSOptions_UnmarshalTOML (rt_DNS base) d"
      "overlay item ''https'' HTTPSOptions_UnmarshalTOML ((rt_HTTPS base)\<lparr>https_Skip := False\<rparr>) h"
      "overlay item ''udp'' UDPOptions_UnmarshalTOML ((rt_UDP base)\<lparr>udp_Skip := False\<rparr>) u"
      "overlay item ''connection'' ConnOptions_UnmarshalTOML (rt_Conn base) n" and
    e: "rule_Config r = \<lparr>rt_Conn = n, rt_DNS = d, rt_HTTPS = h, rt_UDP = u\<rparr>" "rule_Match r = rule_Match r2"
    using s c by (auto simp: overlay_def split: if_splits option.splits)
  show "overlay item ''dns'' DNSOptions_UnmarshalTOML (rt_DNS base) (rt_DNS (rule_Config r))"
    "overlay item ''https'' HTTPSOptions_UnmarshalTOML ((rt_HTTPS base)\<lparr>https_Skip := False\<rparr>) (rt_HTTPS (rule_Config r))"
    "overlay item ''udp'' UDPOptions_UnmarshalTOML ((rt_UDP base)\<lparr>udp_Skip := False\<rparr>) (rt_UDP (rule_Config r))"
    "overlay item ''connection'' ConnOptions_UnmarshalTOML (rt_Conn base) (rt_Conn (rule_Config r))"
    using o by (simp_all add: e)
  show "case map_of item ''match'' of None \<Rightarrow> rule_Match r = None | Some v \<Rightarrow> \<exists>a. rule_Match r = Some a \<and> valid_match a"
    unfolding e(2) by (rule m)
qed


lemma resolve_from_Inr:
  "resolve_from i raw base = Inr rules \<longleftrightarrow>
     length rules = length raw \<and> (\<forall>k < length raw. resolveRule (i + k) base (raw ! k) = Inr (rules ! k))"
proof (induction raw arbitrary: i rules)
  case (Cons item raw)
  show ?case
    by (cases rules) (auto simp: bindR_eq_Inr_iff Cons All_less_Suc2)
qed auto

text \<open>
  C26: each rule's options are the finalized base options with the rule's own sections decoded over them,
  independent of the other rules; a section that names no option is inherited whole. The two skip flags are the
  exception: they are off unless the rule itself sets them.
\<close>

theorem resolveRules_inherit:
  assumes "resolveRules raw base = Inr rules" and "k < length raw"
  shows "length rules = length raw \<and>
    overlay (raw ! k) ''dns'' DNSOptions_UnmarshalTOML (rt_DNS base) (rt_DNS (rule_Config (rules ! k))) \<and>
    overlay (raw ! k) ''connection'' ConnOptions_UnmarshalTOML (rt_Conn base) (rt_Conn (rule_Config (rules ! k))) \<and>
    overlay (raw ! k) ''https'' HTTPSOptions_UnmarshalTOML ((rt_HTTPS base)\<lparr>https_Skip := False\<rparr>)
      (rt_HTTPS (rule_Config (rules ! k))) \<and>
    overlay (raw ! k) ''udp'' UDPOptions_UnmarshalTOML ((rt_UDP base)\<lparr>udp_Skip := False\<rparr>)
      (rt_UDP (rule_Config (rules ! k))) \<and>
    (map_of (raw ! k) ''dns'' = Some (TTable []) \<longrightarrow> rt_DNS (rule_Config (rules ! k)) = rt_DNS base) \<and>
    (https_Skip (rt_HTTPS (rule_Config (rules ! k))) \<longrightarrow>
      (\<exists>m. map_of (raw ! k) ''https'' = Some (TTable m) \<and> map_of m ''skip'' \<noteq> None)) \<and>
    (udp_Skip (rt_UDP (rule_Config (rules ! k))) \<longrightarrow>
      (\<exists>m. map_of (raw ! k) ''udp'' = Some (TTable m) \<and> map_of m ''skip'' \<noteq> None))"
proof -
  let ?r = "rules ! k"
  have len: "length rules = length raw" and r: "resolveRule k base (raw ! k) = Inr ?r"
    using assms by (auto simp: resolveRules_def resolve_from_Inr)
  note o = resolveRule_Inr [OF r]
  have "\<exists>m. map_of (raw ! k) ''https'' = Some (TTable m) \<and> map_of m ''skip'' \<noteq> None"
    if "https_Skip (rt_HTTPS (rule_Config ?r))"
    by (rule https.overlay_sets [OF o(2), where g = https_Skip]) (use that HTTPS_skip in auto)
  moreover have "\<exists>m. map_of (raw ! k) ''udp'' = Some (TTable m) \<and> map_of m ''skip'' \<noteq> None"
    if "udp_Skip (rt_UDP (rule_Config ?r))"
    by (rule udp.overlay_sets [OF o(3), where g = udp_Skip]) (use that UDP_skip in auto)
  ultimately show ?thesis
    using len o dns.overlay_inherits [OF o(1)] by simp
qed


lemma Load_rules_wf:
  assumes "fst (Load env ov) = Inr (c, p)"
  shows "\<forall>r \<in> set (st_Rules (cfg_Startup c)). \<exists>m. rule_Match r = Some m \<and> valid_match m"
proof
  fix r
  assume r: "r \<in> set (st_Rules (cfg_Startup c))"
  obtain raw base where raw: "resolveRules raw base = Inr (st_Rules (cfg_Startup c))" and v: "Config_Validate c = None"
    using assms by (auto simp: Load_Inr_iff Let_def)
  obtain k item where item: "resolveRule k base item = Inr r"
    using raw r by (auto simp: resolveRules_def resolve_from_Inr in_set_conv_nth)
  have "validate_rules i rs = None \<Longrightarrow> r \<in> set rs \<Longrightarrow> checkRule r = None" for i rs
    by (induction rs arbitrary: i) (auto split: option.splits)
  then have "checkRule r = None"
    using v r by (simp add: Config_Validate_def)
  then have "rule_Match r \<noteq> None"
    by (simp add: checkRule_def split: if_splits)
  then show "\<exists>m. rule_Match r = Some m \<and> valid_match m"
    using resolveRule_Inr(5) [OF item] by (auto split: option.splits)
qed

text \<open>
  Every rule of a loaded configuration has a match section with at least one entry, and all its domain
  patterns and CIDR blocks passed validation, whether they were written in the configuration or came from files.
\<close>

lemma Load_rules_valid:
  assumes "fst (Load env ov) = Inr (c, p)"
  shows "\<forall>r \<in> set (st_Rules (cfg_Startup c)). \<exists>m. rule_Match r = Some m \<and> valid_match m"
  using assms by (rule Load_rules_wf)

section \<open>A sample start\<close>

definition sample_paths :: path_env where
  "sample_paths = \<lparr>pe_ExpandEnv = (\<lambda>s. s), pe_UserHomeDir = None, pe_Join = (\<lambda>a b. a @ ''/'' @ b),
     pe_IsAbs = (\<lambda>p. HasPrefix p ''/'')\<rparr>"

definition sample_toml :: "(string \<times> tval) list" where
  "sample_toml =
    [(''app'', TTable [(''log-level'', TString ''debug'')]),
     (''https'', TTable [(''skip'', TBool True)]),
     (''rules'', TTables
        [[(''match'', TTable [(''domains'', TList [TString ''a.com''])]),
          (''dns'', TTable [])]])]"

definition sample_env :: load_env where
  "sample_env = \<lparr>le_clean = False, le_config = ''/c/s'', le_configDirs = [], le_stat = (\<lambda>_. True),
     le_decode = (\<lambda>_. Some sample_toml),
     le_parseLevel = (\<lambda>s. if s \<in> set availableLogLevelValues then Some 0 else None), le_infoLevel = 1,
     le_paths = sample_paths, le_files = (\<lambda>p. FileMissing),
     le_dir = (\<lambda>_. ''/c'')\<rparr>"

lemma Load_no_panic_sample: "known_levels (le_parseLevel sample_env) \<and> no_panic (fst (Load sample_env []))"
  using Load_no_panic [of sample_env "[]"]
  by (simp add: sample_env_def known_levels_def availableLogLevelValues_def)


lemma checkDomainPattern_sample: "checkDomainPattern ''a.com'' = None"
  by (simp add: checkDomainPattern_def isSegment_def isLabel_def isAlnum_def isDigit_def)

lemma sample_toml_loads:
  "\<exists>cfg. fst (loadTOML sample_env (DefaultConfig 1)) =
     Inr (''/c/s'', [[(''match'', TTable [(''domains'', TList [TString ''a.com''])]), (''dns'', TTable [])]], cfg)"
  by (simp add: loadTOML_def sample_env_def searchTomlFile_def fromTomlFile_def Config_UnmarshalTOML_def sample_toml_def
      decode_fields_def section_step_def AppOptions_UnmarshalTOML_def HTTPSOptions_UnmarshalTOML_def findFrom_def
      findSliceFrom_def findStructSliceFrom_def parseBoolFn_def parseStringFn_def checkLogLevel_def checkOneOf_def
      availableLogLevelValues_def MustParseLogLevel_def customCheck_def DefaultConfig_def set_App_def set_HTTPS_def
      to_res_def rulesFromMap_def policyWarnings_def Let_def)

abbreviation sample_raw :: "(string \<times> tval) list list" where
  "sample_raw \<equiv> [[(''match'', TTable [(''domains'', TList [TString ''a.com''])]), (''dns'', TTable [])]]"

definition sample_match :: MatchAttrs where
  "sample_match = \<lparr>match_Domains = [''a.com''], match_CIDRs = []\<rparr>"

lemma sample_expands: "fst (expand_rules sample_env d 0 sample_raw) = Inr sample_raw"
  by (simp add: expandFileMatchList_def Let_def filePrefix_def)

lemma sample_resolves: "resolveRules sample_raw base = Inr [(baseRule base)\<lparr>rule_Match := Some sample_match\<rparr>]"
  by (simp add: resolveRules_def resolveRule_def rule_priority_def rule_name_def rule_block_def rule_match_def rule_section_def
      MatchAttrs_UnmarshalTOML_def DNSOptions_UnmarshalTOML_def decode_fields_def findFrom_def findSliceFrom_def
      parseStringFn_def checkDomainPattern_sample matchCheck_def checkMatchAttrs_def emptyMatchAttrs_def to_res_def
      baseRule_def sample_match_def)

theorem resolveRules_inherit_witness:
  "\<exists>rules. resolveRules sample_raw (cfg_Runtime (DefaultConfig 1)) = Inr rules \<and> length rules = 1 \<and>
     rt_DNS (rule_Config (rules ! 0)) = rt_DNS (cfg_Runtime (DefaultConfig 1)) \<and> \<not> https_Skip (rt_HTTPS (rule_Config (rules ! 0)))"
  using resolveRules_inherit [OF sample_resolves, of 0 "cfg_Runtime (DefaultConfig 1)"] sample_resolves by auto

lemma sample_Load:
  "\<exists>c. fst (Load sample_env []) = Inr (c, ''/c/s'') \<and> map rule_Match (st_Rules (cfg_Startup c)) = [Some sample_match]"
proof -
  obtain cfg where "fst (loadTOML sample_env (DefaultConfig (le_infoLevel sample_env))) = Inr (''/c/s'', sample_raw, cfg)"
    using sample_toml_loads by (auto simp: sample_env_def)
  then show ?thesis
    using sample_expands [of "le_dir sample_env ''/c/s''"]
    by (auto simp: Load_Inr_iff sample_resolves Let_def Config_Validate_def checkRule_def simp del: expand_rules.simps)
qed

lemma Load_rules_valid_sample:
  "\<exists>c p. fst (Load sample_env []) = Inr (c, p) \<and> st_Rules (cfg_Startup c) \<noteq> [] \<and>
     (\<forall>r \<in> set (st_Rules (cfg_Startup c)). \<exists>m. rule_Match r = Some m \<and> valid_match m)"
  using sample_Load Load_rules_valid [of sample_env "[]"] by fastforce

section \<open>Layers\<close>

lemma expand_rules_length: "fst (expand_rules env d i raw) = Inr raw' \<Longrightarrow> length raw' = length raw"
proof (induction raw arbitrary: i raw')
  case (Cons rule raw)
  then show ?case
    by (auto simp: Let_def case_prod_beta bindR_eq_Inr_iff split: option.splits sum.splits)
qed simp

text \<open>
  The layers of a loaded configuration. The runtime options are the defaults, decoded over by the file and
  then changed by the command line in order, and finalizing leaves them alone; with \<open>--clean\<close> no file is read. The
  application options differ at most in the listen address, which is never left unset, and there is one rule for
  each rule table of the file.
\<close>

lemma Load_layers:
  assumes "fst (Load env ov) = Inr (c, p)"
  shows "\<exists>raw cfg. fst (loadTOML env (DefaultConfig (le_infoLevel env))) = Inr (p, raw, cfg) \<and>
    (le_clean env \<longrightarrow> cfg = DefaultConfig (le_infoLevel env) \<and> raw = [] \<and> p = []) \<and>
    cfg_Runtime c = cfg_Runtime (fold (\<lambda>f. f) ov cfg) \<and>
    (let app = st_App (cfg_Startup c) in
     app\<lparr>app_ListenAddr := x\<rparr> = (st_App (cfg_Startup (fold (\<lambda>f. f) ov cfg)))\<lparr>app_ListenAddr := x\<rparr> \<and>
     (addr_IP (app_ListenAddr app) \<noteq> [] \<or> addr_Port (app_ListenAddr app) \<noteq> 0)) \<and>
    length (st_Rules (cfg_Startup c)) = length raw"
proof -
  obtain raw cfg raw' rules where l: "fst (loadTOML env (DefaultConfig (le_infoLevel env))) = Inr (p, raw, cfg)"
    "fst (expand_rules env (le_dir env p) 0 raw) = Inr raw'"
    and r: "resolveRules raw' (cfg_Runtime (fst (Finalize (fold (\<lambda>f. f) ov cfg)))) = Inr rules"
    and c: "c = (fst (Finalize (fold (\<lambda>f. f) ov cfg)))\<lparr>cfg_Startup :=
          (cfg_Startup (fst (Finalize (fold (\<lambda>f. f) ov cfg))))\<lparr>st_Rules := rules\<rparr>\<rparr>"
    using assms by (auto simp: Load_Inr_iff Let_def)
  have "length rules = length raw"
    using r expand_rules_length [OF l(2)] by (simp add: resolveRules_def resolve_from_Inr)
  moreover have "cfg = DefaultConfig (le_infoLevel env) \<and> raw = [] \<and> p = []" if "le_clean env"
    using l(1) that by (simp add: loadTOML_def)
  ultimately show ?thesis
    using l(1) by (intro exI [of _ raw] exI [of _ cfg]) (simp add: c Finalize_def Let_def)
qed

lemma Load_layers_sample:
  "\<exists>c p raw cfg. fst (Load sample_env []) = Inr (c, p) \<and>
     fst (loadTOML sample_env (DefaultConfig (le_infoLevel sample_env))) = Inr (p, raw, cfg) \<and>
     cfg_Runtime c = cfg_Runtime cfg"
proof -
  obtain c where c: "fst (Load sample_env []) = Inr (c, ''/c/s'')"
    using sample_Load by blast
  show ?thesis
    using Load_layers [OF c, of zeroTCPAddr] c by (simp add: Let_def) blast
qed


end
