(* ===== verification/Packet.thy ===== *)
theory Packet
  imports Cache NetKey ConfigTypes
begin

text \<open>
  Raw packet input and output, \<open>src/internal/packet\<close>: the hop-count sniffers, their BPF filters, the writers of
  crafted packets and the discovery of the gateway's hardware address. A captured packet is the set of layers
  that \<open>gopacket\<close> decodes from it; serialization, the capture handle and the checksum set-up of that library are
  parameters. The cache behind the sniffers is used through \<open>Get\<close> and \<open>Set\<close> only, so these two are arguments.
\<close>

section \<open>Hop counts\<close>

definition estimateHops :: "u8 \<Rightarrow> u8" where
  "estimateHops ttlLeft =
     (let estimatedInitialHops = (if ttlLeft \<le> 64 then 64 else if ttlLeft \<le> 128 then 128 else 255) in
      estimatedInitialHops - ttlLeft)"

definition isLocalIP :: "bytes \<Rightarrow> bool" where
  "isLocalIP ip \<longleftrightarrow>
     (if length ip < 4 then False
      else if ip ! 0 = 10 then True
      else if ip ! 0 = 127 then True
      else if ip ! 0 = 172 \<and> ip ! 1 \<ge> 16 \<and> ip ! 1 \<le> 31 then True
      else if ip ! 0 = 192 \<and> ip ! 1 = 168 then True
      else if ip ! 0 = 169 \<and> ip ! 1 = 254 then True
      else False)"

record ip_layer =
  il_Src :: bytes
  il_Dst :: bytes
  il_TTL :: u8

text \<open>The layers of a captured packet; \<open>tl_SYN\<close> and \<open>tl_ACK\<close> are the flags of the TCP layer.\<close>

record tcp_flags =
  tl_SYN :: bool
  tl_ACK :: bool

record arp_layer =
  arp_Reply :: bool
  arp_SourceProt :: bytes
  arp_SourceHw :: bytes

record captured =
  pk_TCP :: "tcp_flags option"
  pk_UDP :: bool
  pk_IPv4 :: "ip_layer option"
  pk_IPv6 :: "ip_layer option"
  pk_ARP :: "arp_layer option"

type_synonym 'c get = "IPKey \<Rightarrow> 'c \<Rightarrow> u8 option \<times> 'c"
type_synonym 'c put = "IPKey \<Rightarrow> u8 \<Rightarrow> options option \<Rightarrow> 'c \<Rightarrow> bool \<times> 'c"

record 'c TCPSniffer =
  ts_nhopCache :: 'c
  ts_defaultTTL :: u8

record 'c UDPSniffer =
  us_nhopCache :: 'c
  us_defaultTTL :: u8

definition NewTCPSniffer :: "'c \<Rightarrow> RuntimeConfig \<Rightarrow> 'c TCPSniffer" where
  "NewTCPSniffer c cfg = \<lparr>ts_nhopCache = c, ts_defaultTTL = conn_DefaultFakeTTL (rt_Conn cfg)\<rparr>"

definition NewUDPSniffer :: "'c \<Rightarrow> RuntimeConfig \<Rightarrow> 'c UDPSniffer" where
  "NewUDPSniffer c cfg = \<lparr>us_nhopCache = c, us_defaultTTL = conn_DefaultFakeTTL (rt_Conn cfg)\<rparr>"

text \<open>The loop of both \<open>Register\<close> methods on the cache.\<close>

fun register_all :: "'c put \<Rightarrow> u8 \<Rightarrow> IP list \<Rightarrow> 'c \<Rightarrow> 'c" where
  "register_all put ttl [] c = c"
| "register_all put ttl (v # addrs) c =
     register_all put ttl addrs (snd (put (NewIPKey v) ttl (Some (WithSkipExisting True Options)) c))"

definition TCP_Register :: "'c put \<Rightarrow> IP list \<Rightarrow> 'c TCPSniffer \<Rightarrow> 'c TCPSniffer" where
  "TCP_Register put addrs ts = ts\<lparr>ts_nhopCache := register_all put (ts_defaultTTL ts) addrs (ts_nhopCache ts)\<rparr>"

definition UDP_Register :: "'c put \<Rightarrow> IP list \<Rightarrow> 'c UDPSniffer \<Rightarrow> 'c UDPSniffer" where
  "UDP_Register put addrs us = us\<lparr>us_nhopCache := register_all put (us_defaultTTL us) addrs (us_nhopCache us)\<rparr>"

definition optimal :: "u8 option \<Rightarrow> u8" where
  "optimal oTTL = (let hopCount = (case oTTL of Some t \<Rightarrow> t | None \<Rightarrow> 255) in max hopCount 2 - 1)"

definition TCP_GetOptimalTTL :: "'c get \<Rightarrow> IPKey \<Rightarrow> 'c TCPSniffer \<Rightarrow> u8 \<times> 'c TCPSniffer" where
  "TCP_GetOptimalTTL get key ts =
     (let (r, c) = get key (ts_nhopCache ts) in (optimal r, ts\<lparr>ts_nhopCache := c\<rparr>))"

definition UDP_GetOptimalTTL :: "'c get \<Rightarrow> IPKey \<Rightarrow> 'c UDPSniffer \<Rightarrow> u8 \<times> 'c UDPSniffer" where
  "UDP_GetOptimalTTL get key us =
     (let (r, c) = get key (us_nhopCache us) in (optimal r, us\<lparr>us_nhopCache := c\<rparr>))"

text \<open>The end of both \<open>processPacket\<close> methods: the hop count of a tracked source is replaced.\<close>

definition learn :: "'c get \<Rightarrow> 'c put \<Rightarrow> bytes \<Rightarrow> u8 \<Rightarrow> 'c \<Rightarrow> 'c" where
  "learn get put srcIP ttlLeft c =
     (let key = NewIPKey srcIP; nhops = estimateHops ttlLeft; (prev, c) = get key c in
      case prev of None \<Rightarrow> c | Some _ \<Rightarrow> snd (put key nhops None c))"

definition tcp_source :: "captured \<Rightarrow> (bytes \<times> u8) option" where
  "tcp_source p =
     (case pk_TCP p of
        None \<Rightarrow> None
      | Some tcp \<Rightarrow>
          if \<not> tl_SYN tcp \<or> \<not> tl_ACK tcp then None
          else (case pk_IPv4 p of
                  Some ip \<Rightarrow> if isLocalIP (il_Src ip) then None else Some (il_Src ip, il_TTL ip)
                | None \<Rightarrow> map_option (\<lambda>ip. (il_Src ip, il_TTL ip)) (pk_IPv6 p)))"

definition TCP_processPacket :: "'c get \<Rightarrow> 'c put \<Rightarrow> captured \<Rightarrow> 'c TCPSniffer \<Rightarrow> 'c TCPSniffer" where
  "TCP_processPacket get put p ts =
     (case tcp_source p of
        None \<Rightarrow> ts
      | Some (srcIP, ttlLeft) \<Rightarrow> ts\<lparr>ts_nhopCache := learn get put srcIP ttlLeft (ts_nhopCache ts)\<rparr>)"

definition udp_source :: "captured \<Rightarrow> (bytes \<times> u8) option" where
  "udp_source p =
     (if \<not> pk_UDP p then None
      else (case pk_IPv4 p of
              Some ip \<Rightarrow>
                if isLocalIP (il_Src ip) then None
                else if \<not> isLocalIP (il_Dst ip) then None
                else Some (il_Src ip, il_TTL ip)
            | None \<Rightarrow> map_option (\<lambda>ip. (il_Src ip, il_TTL ip)) (pk_IPv6 p)))"

definition UDP_processPacket :: "'c get \<Rightarrow> 'c put \<Rightarrow> captured \<Rightarrow> 'c UDPSniffer \<Rightarrow> 'c UDPSniffer" where
  "UDP_processPacket get put p us =
     (case udp_source p of
        None \<Rightarrow> us
      | Some (srcIP, ttlLeft) \<Rightarrow> us\<lparr>us_nhopCache := learn get put srcIP ttlLeft (us_nhopCache us)\<rparr>)"

section \<open>Packet filters\<close>

record BPFInstruction =
  bpf_Op :: u16
  bpf_Jt :: u8
  bpf_Jf :: u8
  bpf_K :: u32

definition bpf :: "u16 \<Rightarrow> u8 \<Rightarrow> u8 \<Rightarrow> u32 \<Rightarrow> BPFInstruction" where
  "bpf op jt jf k = \<lparr>bpf_Op = op, bpf_Jt = jt, bpf_Jf = jf, bpf_K = k\<rparr>"

datatype LinkType = LinkTypeEthernet | LinkTypeNull | LinkTypeLoop | LinkTypeRaw | LinkTypeOther

definition baseOffset :: "LinkType \<Rightarrow> u32" where
  "baseOffset linkType =
     (case linkType of
        LinkTypeEthernet \<Rightarrow> 14
      | LinkTypeNull \<Rightarrow> 4
      | LinkTypeLoop \<Rightarrow> 4
      | LinkTypeRaw \<Rightarrow> 0
      | LinkTypeOther \<Rightarrow> 14)"

definition generateSynAckFilter :: "LinkType \<Rightarrow> BPFInstruction list" where
  "generateSynAckFilter linkType =
     (let base = baseOffset linkType in
      (if linkType = LinkTypeEthernet then [bpf 0x28 0 0 12, bpf 0x15 0 8 0x0800]
       else [bpf 0x30 0 0 base, bpf 0x54 0 0 0xf0, bpf 0x15 0 7 0x40]) @
      [bpf 0x30 0 0 (base + 9), bpf 0x15 0 6 6] @
      [bpf 0x28 0 0 (base + 6), bpf 0x45 4 0 0x1fff] @
      [bpf 0xb1 0 0 base] @
      [bpf 0x50 0 0 (base + 13), bpf 0x54 0 0 18, bpf 0x15 0 1 18] @
      [bpf 0x6 0 0 0x00040000, bpf 0x6 0 0 0x00000000])"

definition generateUdpFilter :: "LinkType \<Rightarrow> BPFInstruction list" where
  "generateUdpFilter linkType =
     (let base = baseOffset linkType in
      (if linkType = LinkTypeEthernet then [bpf 0x28 0 0 12, bpf 0x15 0 3 0x0800]
       else [bpf 0x30 0 0 base, bpf 0x54 0 0 0xf0, bpf 0x15 0 3 0x40]) @
      [bpf 0x30 0 0 (base + 9), bpf 0x15 0 1 17] @
      [bpf 0x6 0 0 0x00040000, bpf 0x6 0 0 0x00000000])"

section \<open>Crafted packets\<close>

text \<open>A \<open>net.Addr\<close> by its dynamic type; the layers a writer puts together, with the fields the code sets.\<close>

datatype net_addr = TCPAddrOf IP int | UDPAddrOf IP int | OtherAddr

datatype ethertype = EthernetTypeIPv4 | EthernetTypeIPv6 | EthernetTypeARP
datatype ip_proto = IPProtocolTCP | IPProtocolUDP

datatype pkt_layer =
    Ethernet (eth_Src: bytes) (eth_Dst: bytes) (eth_Type: ethertype)
  | IPv4Layer (ip_TTL: u8) (ip_Proto: ip_proto) (ip_Src: IP) (ip_Dst: IP)
  | IPv6Layer (ip_TTL: u8) (ip_Proto: ip_proto) (ip_Src: IP) (ip_Dst: IP)
  | TCPLayer (l4_Src: u16) (l4_Dst: u16) (tcp_Seq: u32) (tcp_Ack: u32) (tcp_Window: u16)
  | UDPLayer (l4_Src: u16) (l4_Dst: u16)
  | ARPRequest (arq_SrcHw: bytes) (arq_SrcIP: IP) (arq_DstIP: IP)
  | Payload bytes

datatype 'e write_error = NotTCPAddr | NotUDPAddr | Lib 'e

text \<open>
  What the writers use of \<open>gopacket\<close> and of the handle: the checksum set-up of the transport layer, the
  serialization and the injection of the frame, each with an error or none.
\<close>

record 'e raw_io =
  io_Checksum :: "pkt_layer \<Rightarrow> pkt_layer \<Rightarrow> 'e option"
  io_Serialize :: "pkt_layer list \<Rightarrow> 'e + bytes"
  io_WritePacketData :: "bytes \<Rightarrow> 'e option"

record pkt_writer =
  pw_iface_MAC :: "bytes option"
  pw_gatewayMAC :: "bytes option"

definition ethernet :: "pkt_writer \<Rightarrow> ethertype \<Rightarrow> pkt_layer list" where
  "ethernet w ty =
     (case (pw_iface_MAC w, pw_gatewayMAC w) of
        (Some srcMAC, Some dstMAC) \<Rightarrow> [Ethernet srcMAC dstMAC ty]
      | _ \<Rightarrow> [])"

definition with_checksum ::
    "'e raw_io \<Rightarrow> pkt_layer list \<Rightarrow> pkt_layer \<Rightarrow> pkt_layer \<Rightarrow> ('e write_error, pkt_layer list) res" where
  "with_checksum io eth l3 l4 =
     (case io_Checksum io l4 l3 of Some e \<Rightarrow> Inl (Err (Lib e)) | None \<Rightarrow> Inr (eth @ [l3, l4]))"

text \<open>The two random words are drawn for the sequence and the acknowledgement number, in this order.\<close>

definition TCP_createIPv4Layers ::
    "'e raw_io \<Rightarrow> pkt_writer \<Rightarrow> u32 \<Rightarrow> u32 \<Rightarrow> IP \<Rightarrow> IP \<Rightarrow> int \<Rightarrow> int \<Rightarrow> u8 \<Rightarrow> ('e write_error, pkt_layer list) res" where
  "TCP_createIPv4Layers io w seq ack srcIP dstIP srcPort dstPort ttl =
     with_checksum io (ethernet w EthernetTypeIPv4) (IPv4Layer ttl IPProtocolTCP srcIP dstIP)
       (TCPLayer (of_int srcPort) (of_int dstPort) seq ack 12345)"

definition TCP_createIPv6Layers ::
    "'e raw_io \<Rightarrow> pkt_writer \<Rightarrow> u32 \<Rightarrow> u32 \<Rightarrow> IP \<Rightarrow> IP \<Rightarrow> int \<Rightarrow> int \<Rightarrow> u8 \<Rightarrow> ('e write_error, pkt_layer list) res" where
  "TCP_createIPv6Layers io w seq ack srcIP dstIP srcPort dstPort ttl =
     with_checksum io (ethernet w EthernetTypeIPv6) (IPv6Layer ttl IPProtocolTCP srcIP dstIP)
       (TCPLayer (of_int srcPort) (of_int dstPort) seq ack 12345)"

definition UDP_createIPv4Layers ::
    "'e raw_io \<Rightarrow> pkt_writer \<Rightarrow> IP \<Rightarrow> IP \<Rightarrow> int \<Rightarrow> int \<Rightarrow> u8 \<Rightarrow> ('e write_error, pkt_layer list) res" where
  "UDP_createIPv4Layers io w srcIP dstIP srcPort dstPort ttl =
     with_checksum io (ethernet w EthernetTypeIPv4) (IPv4Layer ttl IPProtocolUDP srcIP dstIP)
       (UDPLayer (of_int srcPort) (of_int dstPort))"

definition UDP_createIPv6Layers ::
    "'e raw_io \<Rightarrow> pkt_writer \<Rightarrow> IP \<Rightarrow> IP \<Rightarrow> int \<Rightarrow> int \<Rightarrow> u8 \<Rightarrow> ('e write_error, pkt_layer list) res" where
  "UDP_createIPv6Layers io w srcIP dstIP srcPort dstPort ttl =
     with_checksum io (ethernet w EthernetTypeIPv6) (IPv6Layer ttl IPProtocolUDP srcIP dstIP)
       (UDPLayer (of_int srcPort) (of_int dstPort))"

text \<open>The end of both \<open>WriteCraftedPacket\<close> methods: serialize, inject, report the payload length; the frame that
  was handed to the handle is returned beside the result.\<close>

definition inject :: "'e raw_io \<Rightarrow> bytes \<Rightarrow> pkt_layer list \<Rightarrow> ('e write_error, nat \<times> bytes) res" where
  "inject io payload packetLayers =
     (case io_Serialize io (packetLayers @ [Payload payload]) of
        Inl e \<Rightarrow> Inl (Err (Lib e))
      | Inr buf \<Rightarrow>
          (case io_WritePacketData io buf of
             Some e \<Rightarrow> Inl (Err (Lib e))
           | None \<Rightarrow> Inr (length payload, buf)))"

definition TCP_WriteCraftedPacket ::
    "'e raw_io \<Rightarrow> pkt_writer \<Rightarrow> u32 \<Rightarrow> u32 \<Rightarrow> net_addr \<Rightarrow> net_addr \<Rightarrow> u8 \<Rightarrow> bytes \<Rightarrow> ('e write_error, nat \<times> bytes) res" where
  "TCP_WriteCraftedPacket io w seq ack src dst ttl payload =
     (case src of
        TCPAddrOf srcIP srcPort \<Rightarrow>
          (case dst of
             TCPAddrOf dstIP dstPort \<Rightarrow>
               bindR (if To4 dstIP \<noteq> None
                      then TCP_createIPv4Layers io w seq ack srcIP dstIP srcPort dstPort ttl
                      else TCP_createIPv6Layers io w seq ack srcIP srcIP srcPort dstPort ttl)
                 (inject io payload)
           | _ \<Rightarrow> Inl (Err NotTCPAddr))
      | _ \<Rightarrow> Inl (Err NotTCPAddr))"

definition UDP_WriteCraftedPacket ::
    "'e raw_io \<Rightarrow> pkt_writer \<Rightarrow> net_addr \<Rightarrow> net_addr \<Rightarrow> u8 \<Rightarrow> bytes \<Rightarrow> ('e write_error, nat \<times> bytes) res" where
  "UDP_WriteCraftedPacket io w src dst ttl payload =
     (case src of
        UDPAddrOf srcIP srcPort \<Rightarrow>
          (case dst of
             UDPAddrOf dstIP dstPort \<Rightarrow>
               bindR (if To4 dstIP \<noteq> None
                      then UDP_createIPv4Layers io w srcIP dstIP srcPort dstPort ttl
                      else UDP_createIPv6Layers io w srcIP dstIP srcPort dstPort ttl)
                 (inject io payload)
           | _ \<Rightarrow> Inl (Err NotUDPAddr))
      | _ \<Rightarrow> Inl (Err NotUDPAddr))"

section \<open>The gateway\<close>

record interface =
  if_Name :: string
  if_MAC :: "bytes option"
  if_Addrs :: "IP list option"

record Route =
  route_Iface :: interface
  route_Gateway :: IP
  route_GatewayMAC :: "bytes option"

datatype 'e route_error = DiscoverGateway 'e | DiscoverInterface 'e | Interfaces 'e | NoInterface IP | NonIPv4Gateway
  | OpenHandle 'e | CtxErr | MACTimeout

text \<open>\<open>if_Addrs\<close> is None where \<open>iface.Addrs()\<close> fails; such an interface is skipped.\<close>

definition findIfaceByIP :: "'e + interface list \<Rightarrow> IP \<Rightarrow> ('e route_error, interface) res" where
  "findIfaceByIP ifaces localIP =
     (case ifaces of
        Inl e \<Rightarrow> Inl (Err (Interfaces e))
      | Inr l \<Rightarrow>
          (case find (\<lambda>i. case if_Addrs i of None \<Rightarrow> False | Some as \<Rightarrow> list_ex (\<lambda>a. IP_Equal a localIP) as) l of
             Some i \<Rightarrow> Inr i
           | None \<Rightarrow> Inl (Err (NoInterface localIP))))"

text \<open>The capture loop over the packets that arrive before the context ends or the source closes.\<close>

fun captureARPReply :: "IP \<Rightarrow> captured list \<Rightarrow> bytes option" where
  "captureARPReply gwIP [] = None"
| "captureARPReply gwIP (pkt # pkts) =
     (case pk_ARP pkt of
        None \<Rightarrow> captureARPReply gwIP pkts
      | Some arp \<Rightarrow>
          if \<not> arp_Reply arp then captureARPReply gwIP pkts
          else if IP_Equal (arp_SourceProt arp) gwIP then Some (arp_SourceHw arp)
          else captureARPReply gwIP pkts)"

text \<open>
  The waiting loop of \<open>resolveGatewayMAC\<close>: each event is the case its \<open>select\<close> takes, the arrival of the captured
  address, the end of the context or a tick of the 500 ms ticker. The result carries the number of requests sent.
\<close>

datatype mac_event = MacArrives bytes | CtxDone | Tick

fun mac_loop :: "mac_event list \<Rightarrow> nat \<Rightarrow> ('e route_error, bytes) res option \<times> nat" where
  "mac_loop [] sent = (None, sent)"
| "mac_loop (MacArrives mac # es) sent = (Some (Inr mac), sent)"
| "mac_loop (CtxDone # es) sent = (Some (Inl (Err MACTimeout)), sent)"
| "mac_loop (Tick # es) sent = mac_loop es (Suc sent)"

text \<open>\<open>early\<close> says that the context ended within the first 100 ms, before the first request. No result
  (None) means that the loop still waits after the given events.\<close>

definition resolveGatewayMAC ::
    "'e option \<Rightarrow> bool \<Rightarrow> mac_event list \<Rightarrow> IP \<Rightarrow> IP \<Rightarrow> ('e route_error, bytes) res option \<times> nat" where
  "resolveGatewayMAC handleErr early events localIP gwIP =
     (if To4 localIP = None \<or> To4 gwIP = None then (Some (Inl (Err NonIPv4Gateway)), 0)
      else (case handleErr of
              Some e \<Rightarrow> (Some (Inl (Err (OpenHandle e))), 0)
            | None \<Rightarrow> if early then (Some (Inl (Err CtxErr)), 0) else mac_loop events 1))"

definition DiscoverRoute ::
    "'e + IP \<Rightarrow> 'e + IP \<Rightarrow> 'e + interface list \<Rightarrow> (interface \<Rightarrow> IP \<Rightarrow> IP \<Rightarrow> ('e route_error, bytes) res) \<Rightarrow> Config \<Rightarrow>
     ('e route_error, Route) res" where
  "DiscoverRoute gateway iface_ip ifaces resolveMAC cfg =
     (case gateway of
        Inl e \<Rightarrow> Inl (Err (DiscoverGateway e))
      | Inr gwIP \<Rightarrow>
          (case iface_ip of
             Inl e \<Rightarrow> Inl (Err (DiscoverInterface e))
           | Inr localIP \<Rightarrow>
               bindR (findIfaceByIP ifaces localIP) (\<lambda>iface.
               if NeedsPcap cfg then
                 bindR (resolveMAC iface localIP gwIP) (\<lambda>mac.
                 Inr \<lparr>route_Iface = iface, route_Gateway = gwIP, route_GatewayMAC = Some mac\<rparr>)
               else Inr \<lparr>route_Iface = iface, route_Gateway = gwIP, route_GatewayMAC = None\<rparr>)))"

text \<open>\<open>sendARPRequest\<close>: a broadcast frame asking for the gateway's address.\<close>

definition sendARPRequest :: "'e raw_io \<Rightarrow> bytes \<Rightarrow> IP \<Rightarrow> IP \<Rightarrow> ('e write_error, bytes) res" where
  "sendARPRequest io srcMAC srcIP dstIP =
     (case io_Serialize io [Ethernet srcMAC (replicate 6 0xff) EthernetTypeARP,
         ARPRequest srcMAC (case To4 srcIP of Some a \<Rightarrow> a | None \<Rightarrow> []) (case To4 dstIP of Some a \<Rightarrow> a | None \<Rightarrow> [])] of
        Inl e \<Rightarrow> Inl (Err (Lib e))
      | Inr buf \<Rightarrow> (case io_WritePacketData io buf of Some e \<Rightarrow> Inl (Err (Lib e)) | None \<Rightarrow> Inr buf))"


section \<open>Learning the distance of a server\<close>

text \<open>
  What the sniffers need of the cache beyond its contract: a plain \<open>Set\<close> stores, and a \<open>Set\<close> that skips existing
  keys leaves a tracked address alone.
\<close>

locale hop_cache = cache ok lookup get put del has other
  for ok :: "'c \<Rightarrow> bool" and lookup :: "'c \<Rightarrow> IPKey \<rightharpoonup> u8" and get :: "'c get" and put :: "'c put"
    and del :: "IPKey \<Rightarrow> 'c \<Rightarrow> 'c" and has :: "IPKey \<Rightarrow> 'c \<Rightarrow> bool" and other :: "'x \<Rightarrow> 'c \<Rightarrow> 'c" +
  assumes put_stores: "ok c \<Longrightarrow> lookup (snd (put k v None c)) k = Some v"
    and put_skips: "ok c \<Longrightarrow> lookup c k \<noteq> None \<Longrightarrow> snd (put k v (Some (WithSkipExisting True Options)) c) = c"
begin

lemma learn_ok: "ok c \<Longrightarrow> ok (learn get put ip ttl c)"
  by (auto simp: learn_def Let_def case_prod_beta put_ok get_ok split: option.splits)

lemma learn_tracked:
  assumes "ok c" and "lookup c (NewIPKey ip) \<noteq> None"
  shows "lookup (learn get put ip ttl c) (NewIPKey ip) = Some (estimateHops ttl)"
  using assms by (auto simp: learn_def Let_def case_prod_beta get_lookup get_ok put_stores split: option.splits)

lemma learn_untracked:
  assumes "ok c" and "lookup c (NewIPKey ip) = None"
  shows "lookup (learn get put ip ttl c) = lookup c"
  using assms by (simp add: learn_def Let_def case_prod_beta get_lookup get_keeps)

lemma register_tracked: "ok c \<Longrightarrow> lookup c (NewIPKey ip) \<noteq> None \<Longrightarrow> register_all put ttl [ip] c = c"
  by (simp add: put_skips)

lemma optimal_after:
  assumes "ok c" and "lookup c (NewIPKey ip) \<noteq> None"
  shows "fst (get (NewIPKey ip) (register_all put d [ip] (learn get put ip ttl c))) = Some (estimateHops ttl)"
  using learn_tracked [OF assms, of ttl] learn_ok [OF assms(1)] by (simp add: put_skips get_lookup)

end

lemma LRU_Set_default: "fst (LRU_Set Bytes k v None c)"
  by (simp add: LRU_Set_def Let_def case_prod_beta shard_Set_def optsOrDefault_def Options_def split: option.splits)

lemma LRU_Set_skip:
  assumes "lru_ok Bytes c" and "lru_lookup Bytes c k \<noteq> None"
  shows "\<not> fst (LRU_Set Bytes k v (Some (WithSkipExisting True Options)) c)"
proof -
  have "ls_items (lru_shards c ! lru_shard Bytes c k) k \<noteq> None"
    using LRU_Has_lookup [OF assms(1), of k] assms(2) by (simp add: LRU_Has_def)
  then show ?thesis
    by (auto simp: LRU_Set_def Let_def case_prod_beta shard_Set_def optsOrDefault_def WithSkipExisting_def
        split: option.splits)
qed

interpretation hops: hop_cache "lru_ok IPKey_Bytes" "lru_lookup IPKey_Bytes" "LRU_Get IPKey_Bytes" "LRU_put IPKey_Bytes"
    "LRU_del IPKey_Bytes" "LRU_Has IPKey_Bytes" "\<lambda>(_ :: unit) c. c"
  by unfold_locales (simp_all add: LRU_put_def LRU_Set_eqs LRU_Set_default LRU_Set_skip)

lemma estimateHops_exact:
  assumes "initial \<in> {64, 128, 255}" and "h < 64"
  shows "estimateHops (of_nat (initial - h)) = of_nat h"
proof -
  define k where "k = initial - h"
  have k: "k < 256" "initial = h + k"
    using assms by (auto simp: k_def)
  then have u: "unat (of_nat k :: u8) = k"
    by (simp add: unat_of_nat take_bit_nat_eq_self)
  have "of_nat initial - of_nat k = (of_nat h :: u8)"
    by (simp add: k(2))
  moreover have "initial = 64 \<and> k \<le> 64 \<or> initial = 128 \<and> 64 < k \<and> k \<le> 128 \<or> initial = 255 \<and> 128 < k"
    using assms k(2) by auto
  ultimately show ?thesis
    unfolding k_def [symmetric] by (auto simp: estimateHops_def word_le_nat_alt u)
qed

lemma optimal_bounds: "0 < optimal r \<and> optimal r < 255"
proof (cases r)
  case (Some t)
  have "unat (max t 2 - 1) = unat (max t 2) - 1"
    by (rule unat_minus_one) (auto simp: max_def word_le_nat_alt split: if_splits)
  moreover have "2 \<le> unat (max t 2)" "unat (max t 2) < 256"
    using unat_byte_less [of "max t 2"] by (auto simp: max_def word_le_nat_alt split: if_splits)
  ultimately have "0 < unat (max t 2 - 1)" "unat (max t 2 - 1) < 255"
    by linarith+
  then show ?thesis
    by (simp add: Some optimal_def word_less_nat_alt)
qed (simp add: optimal_def)


text \<open>
  C29: the sniffer learns distances. When a SYN/ACK arrives from a tracked server that is \<open>h\<close> hops away and
  starts with one of the usual TTLs, the TTL for fake packets to that server becomes \<open>h - 1\<close>, one short of the
  server, and registering the address again does not undo this. A packet from an address nobody registered leaves
  the cache as it is, and the TTL handed out is never 0.
\<close>

theorem sniffer_learns:
  fixes c :: "(IPKey, u8) LRUCache" and d :: u8
  assumes "lru_ok IPKey_Bytes c" and "initial \<in> {64, 128, 255}" and "2 \<le> h" and "h < 64"
    and "tcp_source p = Some (ip, of_nat (initial - h))"
  shows "let ts = TCP_processPacket (LRU_Get IPKey_Bytes) (LRU_put IPKey_Bytes) p \<lparr>ts_nhopCache = c, ts_defaultTTL = d\<rparr>;
      ttl = fst (TCP_GetOptimalTTL (LRU_Get IPKey_Bytes) (NewIPKey ip) (TCP_Register (LRU_put IPKey_Bytes) [ip] ts)) in
    0 < ttl \<and>
    (if lru_lookup IPKey_Bytes c (NewIPKey ip) = None
     then lru_lookup IPKey_Bytes (ts_nhopCache ts) = lru_lookup IPKey_Bytes c
     else unat ttl = h - 1)"
proof -
  define ttl0 :: u8 where "ttl0 = of_nat (initial - h)"
  have e: "estimateHops ttl0 = of_nat h"
    using assms(2,4) by (simp add: ttl0_def estimateHops_exact)
  have h: "unat (of_nat h :: u8) = h"
    using assms(4) by (simp add: unat_of_nat take_bit_nat_eq_self)
  then have "2 \<le> (of_nat h :: u8)"
    using assms(3) by (simp add: word_le_nat_alt)
  then have "optimal (Some (of_nat h)) = of_nat h - 1"
    by (simp add: optimal_def max_def)
  moreover have "unat (of_nat h - 1 :: u8) = h - 1"
    using assms(3) h by (subst unat_minus_one) (auto simp: unat_eq_zero [symmetric])
  ultimately show ?thesis
    using hops.optimal_after [OF assms(1), of ip d ttl0] hops.learn_untracked [OF assms(1), of ip ttl0] optimal_bounds assms(5)
    by (auto simp: TCP_processPacket_def TCP_Register_def TCP_GetOptimalTTL_def Let_def case_prod_beta ttl0_def [symmetric] e)
qed

definition sample_hops :: "(IPKey, u8) LRUCache" where
  "sample_hops = snd (LRU_put IPKey_Bytes (NewIPKey [1, 2, 3, 4]) 8 None
     \<lparr>lru_shards = [newShard 4], lru_mask = 0, lru_onInvalidate = False\<rparr>)"

lemma sample_hops_ok: "lru_ok IPKey_Bytes sample_hops \<and> lru_lookup IPKey_Bytes sample_hops (NewIPKey [1, 2, 3, 4]) = Some 8"
proof -
  let ?c = "\<lparr>lru_shards = [newShard 4], lru_mask = 0, lru_onInvalidate = False\<rparr> :: (IPKey, u8) LRUCache"
  have "NewLRUCache 1 4 False = (Inr ?c :: (unit, (IPKey, u8) LRUCache) res)"
    by (simp add: NewLRUCache_def)
  then have "lru_ok IPKey_Bytes ?c"
    using NewLRUCache_ok by fastforce
  then show ?thesis
    by (simp add: sample_hops_def hops.put_stores lru.put_ok)
qed

theorem sniffer_learns_witness:
  "let p = \<lparr>pk_TCP = Some \<lparr>tl_SYN = True, tl_ACK = True\<rparr>, pk_UDP = False,
        pk_IPv4 = Some \<lparr>il_Src = [1, 2, 3, 4], il_Dst = [10, 0, 0, 1], il_TTL = 54\<rparr>, pk_IPv6 = None, pk_ARP = None\<rparr>;
      ts = TCP_processPacket (LRU_Get IPKey_Bytes) (LRU_put IPKey_Bytes) p \<lparr>ts_nhopCache = sample_hops, ts_defaultTTL = 8\<rparr> in
    unat (fst (TCP_GetOptimalTTL (LRU_Get IPKey_Bytes) (NewIPKey [1, 2, 3, 4])
      (TCP_Register (LRU_put IPKey_Bytes) [[1, 2, 3, 4]] ts))) = 9"
  using sniffer_learns [of sample_hops 64 10 "\<lparr>pk_TCP = Some \<lparr>tl_SYN = True, tl_ACK = True\<rparr>, pk_UDP = False,
        pk_IPv4 = Some \<lparr>il_Src = [1, 2, 3, 4], il_Dst = [10, 0, 0, 1], il_TTL = 54\<rparr>, pk_IPv6 = None, pk_ARP = None\<rparr>"
        "[1, 2, 3, 4]" 8]
  by (simp add: sample_hops_ok tcp_source_def isLocalIP_def Let_def)


section \<open>What the filters accept\<close>

text \<open>
  The classic BPF machine, as far as the two programs use it: loads at a fixed offset (\<open>0x28\<close> two bytes, \<open>0x30\<close>
  one byte) and relative to the index register (\<open>0x50\<close>), the header-length load \<open>0xb1\<close>, the mask \<open>0x54\<close>, the
  jumps \<open>0x15\<close> and \<open>0x45\<close>, and the return \<open>0x06\<close>. A load outside the packet rejects it. Jumps only go forward, so
  the machine walks down the program. The packet is captured when the returned length is not 0.
\<close>

definition byte_at :: "bytes \<Rightarrow> nat \<Rightarrow> u32 option" where
  "byte_at p i = (if i < length p then Some (ucast (p ! i)) else None)"

definition half_at :: "bytes \<Rightarrow> nat \<Rightarrow> u32 option" where
  "half_at p i = (if i + 1 < length p then Some (256 * ucast (p ! i) + ucast (p ! (i + 1))) else None)"

function bpf_run :: "BPFInstruction list \<Rightarrow> u32 \<Rightarrow> u32 \<Rightarrow> bytes \<Rightarrow> u32" where
  "bpf_run [] a x p = 0"
| "bpf_run (i # is) a x p =
     (if bpf_Op i = 0x28 then (case half_at p (unat (bpf_K i)) of None \<Rightarrow> 0 | Some v \<Rightarrow> bpf_run is v x p)
      else if bpf_Op i = 0x30 then (case byte_at p (unat (bpf_K i)) of None \<Rightarrow> 0 | Some v \<Rightarrow> bpf_run is v x p)
      else if bpf_Op i = 0x50 then (case byte_at p (unat (bpf_K i + x)) of None \<Rightarrow> 0 | Some v \<Rightarrow> bpf_run is v x p)
      else if bpf_Op i = 0xb1 then
        (case byte_at p (unat (bpf_K i)) of None \<Rightarrow> 0 | Some v \<Rightarrow> bpf_run is a (4 * (v AND 0xf)) p)
      else if bpf_Op i = 0x54 then bpf_run is (a AND bpf_K i) x p
      else if bpf_Op i = 0x15 then bpf_run (drop (unat (if a = bpf_K i then bpf_Jt i else bpf_Jf i)) is) a x p
      else if bpf_Op i = 0x45 then bpf_run (drop (unat (if a AND bpf_K i \<noteq> 0 then bpf_Jt i else bpf_Jf i)) is) a x p
      else if bpf_Op i = 0x06 then bpf_K i
      else 0)"
  by pat_completeness auto
termination
  by (relation "measure (\<lambda>(is, _). length is)") auto

definition bpf_accepts :: "BPFInstruction list \<Rightarrow> bytes \<Rightarrow> bool" where
  "bpf_accepts prog p \<longleftrightarrow> bpf_run prog 0 0 p \<noteq> 0"

text \<open>The fields the filters are meant to look at.\<close>

definition frame_ipv4 :: "LinkType \<Rightarrow> bytes \<Rightarrow> bool" where
  "frame_ipv4 lt p \<longleftrightarrow>
     (if lt = LinkTypeEthernet then p ! 12 = 0x08 \<and> p ! 13 = 0x00 else p ! unat (baseOffset lt) AND 0xf0 = 0x40)"

definition frame_proto :: "LinkType \<Rightarrow> bytes \<Rightarrow> byte" where
  "frame_proto lt p = p ! (unat (baseOffset lt) + 9)"

definition frame_fragment :: "LinkType \<Rightarrow> bytes \<Rightarrow> bool" where
  "frame_fragment lt p \<longleftrightarrow>
     (256 * unat (p ! (unat (baseOffset lt) + 6)) + unat (p ! (unat (baseOffset lt) + 7))) mod 8192 \<noteq> 0"

definition frame_tcp :: "LinkType \<Rightarrow> bytes \<Rightarrow> nat" where
  "frame_tcp lt p = unat (baseOffset lt) + 4 * unat (p ! unat (baseOffset lt) AND 0xf)"

lemma unat_u32: "n < 65536 \<Longrightarrow> unat (of_nat n :: u32) = n"
  by (simp add: unat_of_nat take_bit_nat_eq_self)

lemma u32_eq: "n < 65536 \<Longrightarrow> k < 65536 \<Longrightarrow> (of_nat n :: u32) = of_nat k \<longleftrightarrow> n = k"
  using unat_u32 by metis

lemma half_of_nat: "(256 * ucast a + ucast b :: u32) = of_nat (256 * unat a + unat (b :: byte))" for a :: byte
  by simp

lemma half_less: "256 * unat a + unat b < 65536" for a b :: byte
  using unat_byte_less [of a] unat_byte_less [of b] by linarith

lemma half_eq_ipv4: "(256 * ucast a + ucast b :: u32) = 0x0800 \<longleftrightarrow> a = (0x08 :: byte) \<and> b = (0 :: byte)"
proof -
  have "(256 * ucast a + ucast b :: u32) = 0x0800 \<longleftrightarrow> 256 * unat a + unat b = 2048"
    using u32_eq [OF half_less [of a b], of 2048] by simp
  also have "\<dots> \<longleftrightarrow> unat a = 8 \<and> unat b = 0"
    using unat_byte_less [of b] by presburger
  also have "\<dots> \<longleftrightarrow> a = 8 \<and> b = 0"
    by (simp add: word_unat_eq_iff)
  finally show ?thesis .
qed

lemma half_mask: "(256 * ucast a + ucast b :: u32) AND 0x1fff = 0 \<longleftrightarrow> (256 * unat a + unat b) mod 8192 = 0"
  for a b :: byte
proof -
  have m: "(0x1fff :: u32) = mask 13"
    by (simp add: mask_eq_exp_minus_1)
  have "(of_nat n :: u32) AND 0x1fff = of_nat (n mod 8192)" for n
    unfolding m by (simp only: take_bit_eq_mask [symmetric] take_bit_of_nat) (simp add: take_bit_eq_mod)
  moreover have "(256 * unat a + unat b) mod 8192 < 65536"
    by (rule less_trans [OF mod_less_divisor]) simp_all
  ultimately show ?thesis
    unfolding half_of_nat using u32_eq [of "(256 * unat a + unat b) mod 8192" 0] by (simp del: of_nat_add of_nat_mult)
qed

lemma byte_and: "(ucast b :: u32) AND ucast m = ucast (b AND m)" for b m :: byte
  by (simp add: unsigned_and_eq)

lemma byte_eq: "(ucast b :: u32) = ucast m \<longleftrightarrow> b = m" for b m :: byte
  using u32_eq [of "unat b" "unat m"] unat_byte_less [of b] unat_byte_less [of m] by (simp add: word_unat_eq_iff)

lemma byte_consts:
  "(ucast b :: u32) = 6 \<longleftrightarrow> b = 6" "(ucast b :: u32) = 17 \<longleftrightarrow> b = 17" "(ucast b :: u32) = 18 \<longleftrightarrow> b = 18"
  "(ucast b :: u32) = 0x40 \<longleftrightarrow> b = 0x40" "(ucast b :: u32) AND 0xf = ucast (b AND 0xf)"
  "(ucast b :: u32) AND 0xf0 = ucast (b AND 0xf0)" "(ucast b :: u32) AND 18 = ucast (b AND 18)" for b :: byte
  using byte_eq [where b = b and m = 6] byte_eq [where b = b and m = 17] byte_eq [where b = b and m = 18]
    byte_eq [where b = b and m = "0x40"] byte_and [where b = b and m = "0xf"]
    byte_and [where b = b and m = "0xf0"] byte_and [where b = b and m = 18] by simp_all

lemmas frame_defs = frame_ipv4_def frame_proto_def frame_fragment_def frame_tcp_def baseOffset_def

text \<open>One equation per opcode.\<close>

lemma bpf_steps:
  "bpf_run (bpf 0x28 jt jf k # is) a x p = (case half_at p (unat k) of None \<Rightarrow> 0 | Some v \<Rightarrow> bpf_run is v x p)"
  "bpf_run (bpf 0x30 jt jf k # is) a x p = (case byte_at p (unat k) of None \<Rightarrow> 0 | Some v \<Rightarrow> bpf_run is v x p)"
  "bpf_run (bpf 0x50 jt jf k # is) a x p = (case byte_at p (unat (k + x)) of None \<Rightarrow> 0 | Some v \<Rightarrow> bpf_run is v x p)"
  "bpf_run (bpf 0xb1 jt jf k # is) a x p =
     (case byte_at p (unat k) of None \<Rightarrow> 0 | Some v \<Rightarrow> bpf_run is a (4 * (v AND 0xf)) p)"
  "bpf_run (bpf 0x54 jt jf k # is) a x p = bpf_run is (a AND k) x p"
  "bpf_run (bpf 0x15 jt jf k # is) a x p =
     (if a = k then bpf_run (drop (unat jt) is) a x p else bpf_run (drop (unat jf) is) a x p)"
  "bpf_run (bpf 0x45 jt jf k # is) a x p =
     (if a AND k = 0 then bpf_run (drop (unat jf) is) a x p else bpf_run (drop (unat jt) is) a x p)"
  "bpf_run (bpf 0x06 jt jf k # is) a x p = k"
  by (simp_all add: bpf_def)

declare bpf_run.simps(2) [simp del]

lemmas bpf_eval = bpf_accepts_def bpf_steps Let_def byte_at_def half_at_def frame_defs half_eq_ipv4 byte_consts

lemma filter_udp_run:
  assumes "unat (baseOffset lt) + 20 \<le> length p"
  shows "bpf_accepts (generateUdpFilter lt) p \<longleftrightarrow> frame_ipv4 lt p \<and> frame_proto lt p = 17"
  using assms by (cases lt) (auto simp: generateUdpFilter_def bpf_eval)

lemma flags_offset:
  fixes b :: byte
  assumes "k < 1000"
  shows "unat (of_nat k + 4 * ucast (b AND 0xf) :: u32) = k + 4 * unat (b AND 0xf)"
proof -
  have "k + 4 * unat (b AND 0xf) < 65536"
    using assms unat_byte_less [of "b AND 0xf"] by linarith
  from unat_u32 [OF this] show ?thesis
    by simp
qed

lemmas flags_offsets = flags_offset [of 27, simplified] flags_offset [of 17, simplified] flags_offset [of 13, simplified]

lemma version_not_flags: "b AND 0xf0 \<noteq> 18" for b :: byte
proof
  assume "b AND 0xf0 = 18"
  then have "bit (b AND 0xf0) 1 = bit (18 :: byte) 1"
    by simp
  then show False
    by (simp add: bit_simps)
qed

lemma filter_synack_run:
  assumes "unat (baseOffset lt) + 20 \<le> length p" and "13 + frame_tcp lt p < length p"
  shows "bpf_accepts (generateSynAckFilter lt) p \<longleftrightarrow>
    (if frame_ipv4 lt p
     then frame_proto lt p \<noteq> 6 \<or> frame_fragment lt p \<or> p ! (13 + frame_tcp lt p) AND 18 = 18
     else lt = LinkTypeEthernet)"
proof -
  have "p \<noteq> []"
    using assms(1) by auto
  then show ?thesis
    using assms
    by (cases lt)
      (simp_all add: generateSynAckFilter_def bpf_eval half_mask flags_offsets version_not_flags)
qed

text \<open>
  C30: what the capture filters let through, for frames that hold the headers. The UDP filter passes exactly
  the IPv4/UDP frames. The SYN/ACK filter passes every IPv4/TCP first fragment with SYN and ACK set and, of the
  IPv4/TCP first fragments, no other; but its rejecting jumps land one instruction short, on the accepting
  return, so on Ethernet it also passes all frames that are not IPv4, and on every link type all IPv4 frames that
  are not TCP or are later fragments.
\<close>

theorem filters_accept:
  assumes "unat (baseOffset lt) + 20 \<le> length p" and "13 + frame_tcp lt p < length p"
  shows "(bpf_accepts (generateUdpFilter lt) p \<longleftrightarrow> frame_ipv4 lt p \<and> frame_proto lt p = 17) \<and>
    (bpf_accepts (generateSynAckFilter lt) p \<longleftrightarrow>
      (if frame_ipv4 lt p
       then frame_proto lt p \<noteq> 6 \<or> frame_fragment lt p \<or> p ! (13 + frame_tcp lt p) AND 18 = 18
       else lt = LinkTypeEthernet))"
  using filter_udp_run [OF assms(1)] filter_synack_run [OF assms] by blast

theorem filters_accept_witness:
  "let p = replicate 12 0 @ [0x86, 0xdd] @ replicate 40 0 in
   bpf_accepts (generateSynAckFilter LinkTypeEthernet) p \<and> \<not> bpf_accepts (generateUdpFilter LinkTypeEthernet) p"
  using filters_accept [of LinkTypeEthernet "replicate 12 0 @ [0x86, 0xdd] @ replicate 40 0"]
  by (simp add: frame_defs nth_append)

section \<open>Addresses of crafted packets\<close>

definition addressed :: "pkt_layer list \<Rightarrow> ip_proto \<Rightarrow> u8 \<Rightarrow> IP \<Rightarrow> IP \<Rightarrow> bool" where
  "addressed ls proto ttl src dst \<longleftrightarrow>
     IPv4Layer ttl proto src dst \<in> set ls \<or> IPv6Layer ttl proto src dst \<in> set ls"

lemma with_checksum_Inr: "with_checksum io eth l3 l4 = Inr ls \<Longrightarrow> ls = eth @ [l3, l4]"
  by (auto simp: with_checksum_def split: option.splits)

lemma inject_Inr:
  "inject io payload ls = Inr (n, frame) \<longleftrightarrow>
     io_Serialize io (ls @ [Payload payload]) = Inr frame \<and> io_WritePacketData io frame = None \<and> n = length payload"
  by (auto simp: inject_def split: sum.splits option.splits)



end
