(* ===== verification/NetText.thy ===== *)
theory NetText
  imports GoStd
begin

text \<open>
  The textual forms of the standard library that the servers hand to the rule set and to the resolver:
  \<open>strconv.FormatUint\<close>, \<open>net.IP.String\<close> with the compressed IPv6 form of \<open>net/netip\<close>, and \<open>net.JoinHostPort\<close>.
\<close>

section \<open>Numbers\<close>

fun FormatUint :: "nat \<Rightarrow> string" where
  "FormatUint n = (if n < 10 then [char_of (48 + n)] else FormatUint (n div 10) @ [char_of (48 + n mod 10)])"

declare FormatUint.simps [simp del]

definition hexChar :: "nat \<Rightarrow> char" where
  "hexChar d = (if d < 10 then char_of (48 + d) else char_of (87 + d))"

text \<open>Lower-case hexadecimal without leading zeros.\<close>

fun FormatHex :: "nat \<Rightarrow> string" where
  "FormatHex n = (if n < 16 then [hexChar n] else FormatHex (n div 16) @ [hexChar (n mod 16)])"

declare FormatHex.simps [simp del]

section \<open>Addresses\<close>

definition v6Group :: "bytes \<Rightarrow> nat \<Rightarrow> nat" where
  "v6Group ip i = unat (be16 (ip ! (2 * i)) (ip ! (2 * i + 1)))"

text \<open>
  The scan of \<open>appendTo6\<close> for the longest run of at least two zero groups, the first of that length. No run is the
  empty interval.
\<close>

fun zeroRun :: "nat list \<Rightarrow> nat" where
  "zeroRun [] = 0"
| "zeroRun (g # gs) = (if g = 0 then Suc (zeroRun gs) else 0)"

definition longestZeros :: "nat list \<Rightarrow> nat \<times> nat" where
  "longestZeros gs =
     fold (\<lambda>i best. let l = zeroRun (drop i gs) in
                    if l \<ge> 2 \<and> l > snd best - fst best then (i, i + l) else best) [0..<8] (0, 0)"

definition v6String :: "bytes \<Rightarrow> string" where
  "v6String ip =
     (let gs = map (v6Group ip) [0..<8]; (s, e) = longestZeros gs; text = strJoin '':'' \<circ> map FormatHex in
      if s = e then text gs else text (take s gs) @ ''::'' @ text (drop e gs))"

definition hexString :: "bytes \<Rightarrow> string" where
  "hexString b = concat (map (\<lambda>x. [hexChar (unat x div 16), hexChar (unat x mod 16)]) b)"

definition v4String :: "bytes \<Rightarrow> string" where
  "v4String ip4 = strJoin ''.'' (map (FormatUint \<circ> unat) ip4)"

definition IP_String :: "IP \<Rightarrow> string" where
  "IP_String ip =
     (if ip = [] then ''<nil>''
      else if length ip \<noteq> 4 \<and> length ip \<noteq> 16 then ''?'' @ hexString ip
      else (case To4 ip of Some ip4 \<Rightarrow> v4String ip4 | None \<Rightarrow> v6String ip))"

definition JoinHostPort :: "string \<Rightarrow> string \<Rightarrow> string" where
  "JoinHostPort host port =
     (if CHR '':'' \<in> set host then ''['' @ host @ '']:'' @ port else host @ '':'' @ port)"

section \<open>Reading the text back\<close>

lemma digit_char: "d < 10 \<Longrightarrow> isDigit (char_of (48 + d :: nat)) \<and> digitVal (char_of (48 + d :: nat)) = d"
  by (simp add: isDigit_def digitVal_def)

lemma decVal_snoc: "decVal (s @ [c]) = 10 * decVal s + digitVal c"
  by (simp add: decVal_def)

lemma FormatUint_digits: "list_all isDigit (FormatUint n) \<and> FormatUint n \<noteq> []"
proof (induction n rule: FormatUint.induct)
  case (1 n)
  then show ?case
    using digit_char [of n] digit_char [of "n mod 10"] by (subst (1 2) FormatUint.simps) auto
qed

lemma decVal_FormatUint: "decVal (FormatUint n) = n"
proof (induction n rule: FormatUint.induct)
  case (1 n)
  show ?case
  proof (cases "n < 10")
    case True
    then show ?thesis
      using digit_char [of n] decVal_snoc [of "[]"] by (simp add: FormatUint.simps decVal_def)
  next
    case False
    then show ?thesis
      using 1 digit_char [of "n mod 10"] by (subst FormatUint.simps) (simp add: decVal_snoc)
  qed
qed

lemma FormatUint_no_leading_zero: "hd (FormatUint n) = CHR ''0'' \<Longrightarrow> n = 0"
proof (induction n rule: FormatUint.induct)
  case (1 n)
  show ?case
  proof (cases "n < 10")
    case True
    then have "char_of (48 + n) = CHR ''0''"
      using 1(2) by (simp add: FormatUint.simps)
    then have "(of_char (char_of (48 + n)) :: nat) = of_char CHR ''0''" by (rule arg_cong)
    then show ?thesis using True by simp
  next
    case False
    have "FormatUint n = FormatUint (n div 10) @ [char_of (48 + n mod 10)]"
      using False by (subst FormatUint.simps) simp
    then have "hd (FormatUint (n div 10)) = CHR ''0''"
      using 1(2) FormatUint_digits [of "n div 10"] by simp
    then show ?thesis using 1(1) [OF False] False by simp
  qed
qed

lemma parseOctet_FormatUint: "parseOctet (FormatUint (unat b)) = Some b"
proof -
  have "unat b \<le> 255" using unat_byte_less [of b] by linarith
  moreover have "\<not> (HasPrefix (FormatUint (unat b)) ''0'' \<and> length (FormatUint (unat b)) > 1)"
  proof
    assume a: "HasPrefix (FormatUint (unat b)) ''0'' \<and> length (FormatUint (unat b)) > 1"
    then have "hd (FormatUint (unat b)) = CHR ''0''"
      by (cases "FormatUint (unat b)") auto
    then have "unat b = 0" by (rule FormatUint_no_leading_zero)
    with a show False by (simp add: FormatUint.simps)
  qed
  ultimately show ?thesis
    using FormatUint_digits [of "unat b"] by (simp add: parseOctet_def decVal_FormatUint)
qed
lemma FormatUint_no_dot: "CHR ''.'' \<notin> set (FormatUint n)" "CHR '':'' \<notin> set (FormatUint n)"
  using FormatUint_digits [of n] by (auto simp: list_all_iff isDigit_def)

lemma v4String_fields: "length ip4 = 4 \<Longrightarrow> strSplit CHR ''.'' (v4String ip4) = map (FormatUint \<circ> unat) ip4"
  unfolding v4String_def using FormatUint_no_dot(1) by (intro strSplit_strJoin) auto

lemma find_v4String:
  assumes "length ip4 = 4"
  shows "find (\<lambda>c. c = CHR ''.'' \<or> c = CHR '':'' \<or> c = CHR ''%'') (v4String ip4) = Some CHR ''.''"
proof -
  obtain a b c d where ip: "ip4 = [a, b, c, d]"
    using assms by (auto simp: length_Suc_conv numeral_eq_Suc)
  have "list_all (\<lambda>c. \<not> (c = CHR ''.'' \<or> c = CHR '':'' \<or> c = CHR ''%'')) (FormatUint (unat a))"
    using FormatUint_digits [of "unat a"] by (auto simp: list_all_iff isDigit_def)
  moreover have "list_all (\<lambda>c. \<not> P c) xs \<Longrightarrow> P x \<Longrightarrow> find P (xs @ x # ys) = Some x" for P and xs ys :: string and x
    by (induction xs) auto
  ultimately show ?thesis
    by (simp add: ip v4String_def)
qed

lemma ParseIP_v4String:
  assumes "length ip4 = 4"
  shows "ParseIP (v4String ip4) = v4InV6Prefix @ ip4"
  using assms find_v4String [OF assms] v4String_fields [OF assms]
  by (simp add: ParseIP_def ParseAddr_def parseIPv4Fields_def parseOctet_FormatUint comp_def)

text \<open>The printed form of an IPv4 address, plain or mapped, is parsed back to its 16-byte form.\<close>

lemma ParseIP_IP_String:
  assumes "To4 ip = Some ip4"
  shows "ParseIP (IP_String ip) = v4InV6Prefix @ ip4"
proof -
  have "ip \<noteq> []" "length ip = 4 \<or> length ip = 16"
    using assms by (auto simp: To4_def split: if_splits)
  then show ?thesis
    using assms ParseIP_v4String [OF To4_length [OF assms]] by (auto simp: IP_String_def)
qed

end
