(* ===== verification/Dns.thy ===== *)
theory Dns
  imports Cache Addrselect ConfigTypes NetText
begin

text \<open>
  Name resolution, \<open>src/internal/dns\<close>: the client with its cache, the three back ends, and the concurrent look-up
  of several record types. The DNS library, the HTTP client and the system resolver are parameters: what they
  return is an argument. The goroutines of one look-up, the channel they share and the context form a step
  relation, so every interleaving the Go scheduler can choose is a run of it.
\<close>

section \<open>Messages\<close>

definition TypeA :: u16 where "TypeA = 1"
definition TypeAAAA :: u16 where "TypeAAAA = 28"

datatype rr = RR_A bytes u32 | RR_AAAA bytes u32 | RR_Other u32

record Msg =
  msg_Answer :: "rr list"
  msg_Rcode :: int

text \<open>A question is the queried name with its type; \<open>dns.Fqdn\<close> is applied to the name by the library.\<close>

type_synonym question = "string \<times> u16"

datatype 'e dns_error =
    FailedToResolve string string 'e
  | Joined "'e dns_error list"
  | RecordNotFound
  | ContextDone
  | Backend 'e

definition parseQueryTypes :: "DNSQueryType \<Rightarrow> u16 list" where
  "parseQueryTypes qtype =
     (case qtype of
        DNSQueryIPv4 \<Rightarrow> [TypeA]
      | DNSQueryIPv6 \<Rightarrow> [TypeAAAA]
      | DNSQueryAll \<Rightarrow> [TypeA, TypeAAAA])"

definition newMsg :: "string \<Rightarrow> u16 \<Rightarrow> question" where
  "newMsg domain qType = (domain, qType)"

definition recordTypeIDToName :: "u16 \<Rightarrow> string" where
  "recordTypeIDToName i = (if i = TypeA then ''A'' else if i = TypeAAAA then ''AAAA'' else FormatUint (unat i))"

text \<open>The exchange function returns an error or a message, which may be nil.\<close>

type_synonym ('e, 'u) exchange = "question \<Rightarrow> 'u \<Rightarrow> 'e + Msg option"

definition lookupType :: "string \<Rightarrow> 'u \<Rightarrow> u16 \<Rightarrow> ('e, 'u) exchange \<Rightarrow> 'e dns_error + Msg option" where
  "lookupType domain upstream queryType exch =
     (case exch (newMsg domain queryType) upstream of
        Inl e \<Rightarrow> Inl (FailedToResolve domain (recordTypeIDToName queryType) e)
      | Inr resMsg \<Rightarrow> Inr resMsg)"

definition AddrFromSlice_ok :: "bytes \<Rightarrow> bool" where
  "AddrFromSlice_ok b \<longleftrightarrow> length b = 4 \<or> length b = 16"

fun usable :: "rr \<Rightarrow> (Addr \<times> u32) option" where
  "usable (RR_A b ttl) = (if AddrFromSlice_ok b then Some (AddrFromSlice b, ttl) else None)"
| "usable (RR_AAAA b ttl) = (if AddrFromSlice_ok b then Some (AddrFromSlice b, ttl) else None)"
| "usable (RR_Other ttl) = None"

fun parse_loop :: "rr list \<Rightarrow> Addr list \<times> u32 \<times> bool \<Rightarrow> Addr list \<times> u32 \<times> bool" where
  "parse_loop [] st = st"
| "parse_loop (record # rs) (addrs, minTTL, ok) =
     (case usable record of
        Some (a, ttl) \<Rightarrow> parse_loop rs (addrs @ [a], min minTTL ttl, True)
      | None \<Rightarrow> parse_loop rs (addrs, minTTL, ok))"

definition parseMsg :: "Msg \<Rightarrow> Addr list \<times> u32 \<times> bool" where
  "parseMsg msg = parse_loop (msg_Answer msg) ([], - 1, False)"

section \<open>Concurrent look-up\<close>

text \<open>
  \<open>lookupAllTypes\<close> starts one goroutine per query type; each sends its result on an unbuffered channel or leaves
  when the context is done, and the channel is closed when all have left. \<open>processMessages\<close> receives until the
  channel is closed or the context is done. \<open>lk_left\<close> holds the goroutines that have neither sent nor left.
\<close>

record 'e lookup =
  lk_left :: "u16 list"
  lk_done :: bool
  lk_errs :: "'e dns_error list"
  lk_addrs :: "Addr list"
  lk_minTTL :: u32
  lk_result :: "('e dns_error, Addr list \<times> u32) res option"

definition lookupAllTypes :: "u16 list \<Rightarrow> 'e lookup" where
  "lookupAllTypes qTypes =
     \<lparr>lk_left = qTypes, lk_done = False, lk_errs = [], lk_addrs = [], lk_minTTL = - 1, lk_result = None\<rparr>"

text \<open>The body of the receive case.\<close>

definition receive :: "'e dns_error + Msg option \<Rightarrow> 'e lookup \<Rightarrow> 'e lookup" where
  "receive result st =
     (case result of
        Inl e \<Rightarrow> st\<lparr>lk_errs := lk_errs st @ [e]\<rparr>
      | Inr None \<Rightarrow> st
      | Inr (Some msg) \<Rightarrow>
          let (resultAddrs, ttl, ok) = parseMsg msg in
          if ok then st\<lparr>lk_addrs := lk_addrs st @ resultAddrs, lk_minTTL := min (lk_minTTL st) ttl\<rparr> else st)"

text \<open>The code after the loop.\<close>

definition conclude :: "(bytes \<Rightarrow> bytes option) \<Rightarrow> 'e lookup \<Rightarrow> ('e dns_error, Addr list \<times> u32) res" where
  "conclude route st =
     (if lk_addrs st \<noteq> [] then bindR (SortByRFC6724 route (lk_addrs st)) (\<lambda>addrs. Inr (addrs, lk_minTTL st))
      else if lk_errs st \<noteq> [] then Inl (Err (Joined (lk_errs st)))
      else Inl (Err RecordNotFound))"

inductive processMessages ::
    "(u16 \<Rightarrow> 'e dns_error + Msg option) \<Rightarrow> (bytes \<Rightarrow> bytes option) \<Rightarrow> 'e lookup \<Rightarrow> 'e lookup \<Rightarrow> bool"
  for answer :: "u16 \<Rightarrow> 'e dns_error + Msg option" and route :: "bytes \<Rightarrow> bytes option" where
  expire: "\<not> lk_done st \<Longrightarrow> processMessages answer route st (st\<lparr>lk_done := True\<rparr>)"
| deliver: "lk_result st = None \<Longrightarrow> q \<in> set (lk_left st) \<Longrightarrow>
    processMessages answer route st ((receive (answer q) st)\<lparr>lk_left := remove1 q (lk_left st)\<rparr>)"
| leave: "lk_done st \<Longrightarrow> q \<in> set (lk_left st) \<Longrightarrow>
    processMessages answer route st (st\<lparr>lk_left := remove1 q (lk_left st)\<rparr>)"
| cancel: "lk_done st \<Longrightarrow> lk_result st = None \<Longrightarrow>
    processMessages answer route st (st\<lparr>lk_result := Some (Inl (Err ContextDone))\<rparr>)"
| finish: "lk_left st = [] \<Longrightarrow> lk_result st = None \<Longrightarrow>
    processMessages answer route st (st\<lparr>lk_result := Some (conclude route st)\<rparr>)"

inductive_cases processMessages_cases: "processMessages answer route st st'"

abbreviation lookup_run ::
    "(u16 \<Rightarrow> 'e dns_error + Msg option) \<Rightarrow> (bytes \<Rightarrow> bytes option) \<Rightarrow> 'e lookup \<Rightarrow> 'e lookup \<Rightarrow> bool" where
  "lookup_run answer route \<equiv> (processMessages answer route)\<^sup>*\<^sup>*"

section \<open>Back ends\<close>

text \<open>The UDP and the HTTPS resolver look up through their exchange functions.\<close>

definition udp_resolve ::
    "('e, 'u) exchange \<Rightarrow> (bytes \<Rightarrow> bytes option) \<Rightarrow> 'u \<Rightarrow> string \<Rightarrow> u16 list \<Rightarrow> ('e dns_error, Addr list \<times> u32) res \<Rightarrow> bool" where
  "udp_resolve exch route server domain qTypes r \<longleftrightarrow>
     (\<exists>st. lookup_run (\<lambda>q. lookupType domain server q exch) route (lookupAllTypes qTypes) st \<and> lk_result st = Some r)"

text \<open>
  The HTTPS exchange. \<open>pack\<close> is the packed query or an error; \<open>req\<close> the error of building a request; \<open>Do i\<close> the
  outcome of attempt \<open>i\<close>: an error text, or a status with the body (or the error of reading it); \<open>unpack\<close> decodes.
\<close>

record 'e http_env =
  he_pack :: "'e + bytes"
  he_req :: "'e option"
  he_Do :: "nat \<Rightarrow> 'e + (int \<times> ('e + bytes))"
  he_unpack :: "bytes \<Rightarrow> 'e + Msg"
  he_Error :: "'e \<Rightarrow> string"

datatype 'e https_error = HttpErr 'e | StatusCode int | Rcode int

definition maxRetries :: nat where "maxRetries = 2"
definition StatusOK :: int where "StatusOK = 200"
definition RcodeSuccess :: int where "RcodeSuccess = 0"
definition RcodeNameError :: int where "RcodeNameError = 3"

definition isRetryableError :: "string \<Rightarrow> bool" where
  "isRetryableError msg \<longleftrightarrow>
     strContains msg ''unexpected EOF'' \<or> strContains msg ''connection reset'' \<or> strContains msg ''broken pipe''"

text \<open>The loop from attempt \<open>i\<close> on, with the outcome \<open>prev\<close> so far; both branches after a failure go on.\<close>

function retry_loop :: "'e http_env \<Rightarrow> nat \<Rightarrow> ('e + (int \<times> ('e + bytes))) option \<Rightarrow>
    'e https_error + ('e + (int \<times> ('e + bytes))) option" where
  "retry_loop env i prev =
     (if i < maxRetries then
        (case he_req env of
           Some e \<Rightarrow> Inl (HttpErr e)
         | None \<Rightarrow>
             (case he_Do env i of
                Inr resp \<Rightarrow> Inr (Some (Inr resp))
              | Inl reqErr \<Rightarrow>
                  if i < maxRetries - 1 \<and> isRetryableError (he_Error env reqErr)
                  then retry_loop env (Suc i) (Some (Inl reqErr))
                  else retry_loop env (Suc i) (Some (Inl reqErr))))
      else Inr prev)"
  by pat_completeness auto
termination
  by (relation "measure (\<lambda>(env, i, prev). maxRetries - i)") auto

declare retry_loop.simps [simp del]

definition https_exchange :: "'e http_env \<Rightarrow> 'e https_error + Msg option" where
  "https_exchange env =
     (case he_pack env of
        Inl e \<Rightarrow> Inl (HttpErr e)
      | Inr pack \<Rightarrow>
          (case retry_loop env 0 None of
             Inl e \<Rightarrow> Inl e
           | Inr None \<Rightarrow> Inr None
           | Inr (Some (Inl reqErr)) \<Rightarrow> Inl (HttpErr reqErr)
           | Inr (Some (Inr (status, body))) \<Rightarrow>
               (case body of
                  Inl e \<Rightarrow> Inl (HttpErr e)
                | Inr b \<Rightarrow>
                    if status \<noteq> StatusOK then Inl (StatusCode status)
                    else (case he_unpack env b of
                            Inl e \<Rightarrow> Inl (HttpErr e)
                          | Inr m \<Rightarrow>
                              if msg_Rcode m \<noteq> RcodeSuccess \<and> msg_Rcode m \<noteq> RcodeNameError then Inl (Rcode (msg_Rcode m))
                              else Inr (Some m)))))"

text \<open>
  The system resolver keeps the families asked for and drops repeated addresses. Addresses are repeated when
  \<open>ip.String()\<close> is the same, that is when they are the same address in 4-byte or 16-byte form.
\<close>

definition ip_text :: "IP \<Rightarrow> bytes" where
  "ip_text ip = (case To4 ip of Some a \<Rightarrow> a | None \<Rightarrow> ip)"

fun filter_loop :: "bool \<Rightarrow> bool \<Rightarrow> IP list \<Rightarrow> bytes set \<Rightarrow> Addr list" where
  "filter_loop wantsA wantsAAAA [] seen = []"
| "filter_loop wantsA wantsAAAA (ip # ips) seen =
     (if ip_text ip \<in> seen then filter_loop wantsA wantsAAAA ips seen
      else
        let isIPv4 = (To4 ip \<noteq> None) in
        if wantsA \<and> isIPv4 then
          (if AddrFromSlice_ok (the (To4 ip))
           then AddrFromSlice (the (To4 ip)) # filter_loop wantsA wantsAAAA ips (insert (ip_text ip) seen)
           else filter_loop wantsA wantsAAAA ips seen)
        else if wantsAAAA \<and> \<not> isIPv4 then
          (if AddrFromSlice_ok ip
           then AddrFromSlice ip # filter_loop wantsA wantsAAAA ips (insert (ip_text ip) seen)
           else filter_loop wantsA wantsAAAA ips seen)
        else filter_loop wantsA wantsAAAA ips seen)"

definition filtterAddrs :: "IP list \<Rightarrow> u16 list \<Rightarrow> Addr list" where
  "filtterAddrs ips qTypes =
     (let wantsA = (TypeA \<in> set qTypes); wantsAAAA = (TypeAAAA \<in> set qTypes) in
      if \<not> wantsA \<and> \<not> wantsAAAA then [] else filter_loop wantsA wantsAAAA ips {})"

definition system_resolve :: "(string \<Rightarrow> 'e + IP list) \<Rightarrow> string \<Rightarrow> u16 list \<Rightarrow> ('e dns_error, Addr list \<times> u32) res" where
  "system_resolve LookupIP domain qTypes =
     (case LookupIP domain of
        Inl e \<Rightarrow> Inl (Err (Backend e))
      | Inr ips \<Rightarrow> Inr (filtterAddrs ips qTypes, 0))"

section \<open>The client\<close>

type_synonym hostname = string

definition hostname_Bytes :: "hostname \<Rightarrow> bytes" where
  "hostname_Bytes h = map (\<lambda>c. of_nat (of_char c)) h"

datatype backend = HTTPSBackend | UDPBackend | SystemBackend

definition pick :: "DNSModeType \<Rightarrow> backend" where
  "pick mode =
     (case mode of
        DNSModeHTTPS \<Rightarrow> HTTPSBackend
      | DNSModeUDP \<Rightarrow> UDPBackend
      | DNSModeSystem \<Rightarrow> SystemBackend)"

text \<open>The server string; for UDP it is the printed form of the configured address, kept as the address here.\<close>

datatype server = ServerURL string | ServerAddr TCPAddr | NoServer

definition serverFor :: "RuntimeConfig \<Rightarrow> server" where
  "serverFor cfg =
     (case dns_Mode (rt_DNS cfg) of
        DNSModeHTTPS \<Rightarrow>
          (let upstream = dns_HTTPSURL (rt_DNS cfg) in
           ServerURL (if \<not> HasPrefix upstream ''https://'' then ''https://'' @ upstream @ ''/dns-query'' else upstream))
      | DNSModeUDP \<Rightarrow> ServerAddr (dns_Addr (rt_DNS cfg))
      | DNSModeSystem \<Rightarrow> NoServer)"

definition Second :: int where "Second = 1000 * Millisecond"

type_synonym dns_cache = "(hostname, Addr list) TTLCache"

text \<open>
  \<open>resolve b server domain qTypes\<close> is what the picked back end returns, \<open>tGet\<close> and \<open>tSet\<close> the clock at the two
  uses of the cache.
\<close>

definition Client_Resolve ::
    "(backend \<Rightarrow> server \<Rightarrow> string \<Rightarrow> u16 list \<Rightarrow> ('e dns_error, Addr list \<times> u32) res) \<Rightarrow> RuntimeConfig \<Rightarrow> int \<Rightarrow> int \<Rightarrow>
     Rule option \<Rightarrow> string \<Rightarrow> dns_cache \<Rightarrow> ('e dns_error, Addr list) res \<times> dns_cache" where
  "Client_Resolve resolve base tGet tSet rule domain c =
     (let cfg = (case rule of None \<Rightarrow> base | Some r \<Rightarrow> rule_Config r) in
      case ParseAddr domain of
        Some ip \<Rightarrow> (Inr [ip], c)
      | None \<Rightarrow>
          let useCache = (dns_Cache (rt_DNS cfg) \<and> dns_Mode (rt_DNS cfg) \<noteq> DNSModeSystem);
              (hit, c) = (if useCache then TTL_Get hostname_Bytes tGet domain c else (None, c)) in
          (case hit of
             Some addrs \<Rightarrow> (Inr addrs, c)
           | None \<Rightarrow>
               (case resolve (pick (dns_Mode (rt_DNS cfg))) (serverFor cfg) domain (parseQueryTypes (dns_QType (rt_DNS cfg))) of
                  Inl e \<Rightarrow> (Inl e, c)
                | Inr (addrs, ttl) \<Rightarrow>
                    (Inr addrs,
                     if useCache
                     then snd (TTL_Set hostname_Bytes tSet domain addrs (Some (WithTTL (int (unat ttl) * Second) Options)) c)
                     else c))))"

section \<open>Properties of the look-up\<close>

text \<open>What an answer contributes: its usable addresses and their TTLs.\<close>

definition contributes :: "'e dns_error + Msg option \<Rightarrow> (Addr \<times> u32) list" where
  "contributes r = (case r of Inr (Some m) \<Rightarrow> List.map_filter usable (msg_Answer m) | _ \<Rightarrow> [])"

lemma parse_loop_eq:
  "parse_loop rs (as, t, ok) =
     (as @ map fst (List.map_filter usable rs), fold min (map snd (List.map_filter usable rs)) t,
      ok \<or> List.map_filter usable rs \<noteq> [])"
  by (induction rs arbitrary: as t ok) (auto simp: List.map_filter_simps min.commute split: option.splits)

lemma receive_eq:
  "lk_addrs (receive r st) = lk_addrs st @ map fst (contributes r)"
  "lk_minTTL (receive r st) = min (lk_minTTL st) (fold min (map snd (contributes r)) (- 1))"
  "lk_result (receive r st) = lk_result st" "lk_done (receive r st) = lk_done st" "lk_left (receive r st) = lk_left st"
  "lk_errs (receive r st) = lk_errs st @ (case r of Inl e \<Rightarrow> [e] | Inr _ \<Rightarrow> [])"
  by (auto simp: receive_def contributes_def parseMsg_def parse_loop_eq Let_def min_def
      split: sum.splits option.splits)

lemma fold_min_le: "fold min ts t \<le> (t :: 'a :: linorder)" "x \<in> set ts \<Longrightarrow> fold min ts t \<le> x"
proof -
  show le: "fold min ts t \<le> t" for ts and t :: 'a
  proof (induction ts arbitrary: t)
    case (Cons a ts)
    then have "fold min ts (min a t) \<le> min a t" .
    then show ?case by simp
  qed simp
  show "x \<in> set ts \<Longrightarrow> fold min ts t \<le> x"
  proof (induction ts arbitrary: t)
    case (Cons a ts)
    then show ?case using le [of ts "min a t"] by auto
  qed simp
qed

text \<open>
  The invariant of a run, with the queries \<open>got\<close> received so far: nothing is received twice, nothing is lost
  while the context lives, and the accumulated addresses and TTL are those of the received answers.
\<close>

definition lookup_inv :: "(u16 \<Rightarrow> 'e dns_error + Msg option) \<Rightarrow> (bytes \<Rightarrow> bytes option) \<Rightarrow> u16 list \<Rightarrow> u16 list \<Rightarrow> 'e lookup \<Rightarrow> bool" where
  "lookup_inv answer route qs got st \<longleftrightarrow>
     mset got + mset (lk_left st) \<subseteq># mset qs \<and>
     (\<not> lk_done st \<longrightarrow> mset got + mset (lk_left st) = mset qs) \<and>
     lk_addrs st = concat (map (\<lambda>q. map fst (contributes (answer q))) got) \<and>
     (\<forall>q \<in> set got. \<forall>(a, t) \<in> set (contributes (answer q)). lk_minTTL st \<le> t) \<and>
     (case lk_result st of
        None \<Rightarrow> True
      | Some r \<Rightarrow> lk_left st = [] \<and> r = conclude route st \<or> lk_done st \<and> r = Inl (Err ContextDone))"


lemma lookup_inv_deliver:
  assumes "lookup_inv answer route qs got st" and "lk_result st = None" and "q \<in> set (lk_left st)"
  shows "lookup_inv answer route qs (got @ [q]) ((receive (answer q) st)\<lparr>lk_left := remove1 q (lk_left st)\<rparr>)"
proof -
  define m where "m = min (lk_minTTL st) (fold min (map snd (contributes (answer q))) (- 1))"
  have eq: "add_mset q (mset got + (mset (lk_left st) - {#q#})) = mset got + mset (lk_left st)"
    using assms(3) by (metis insert_DiffM set_mset_mset union_mset_add_mset_right)
  have "\<forall>r \<in> set (got @ [q]). \<forall>(a, t) \<in> set (contributes (answer r)). m \<le> t"
  proof (clarsimp, intro conjI ballI)
    fix x assume "x \<in> set (contributes (answer q))"
    then show "case x of (a, t) \<Rightarrow> m \<le> t"
      using fold_min_le(2) [of "snd x" "map snd (contributes (answer q))" "- 1"]
      by (auto simp: m_def intro: min.coboundedI2)
  next
    fix r x assume "r \<in> set got" "x \<in> set (contributes (answer r))"
    then show "case x of (a, t) \<Rightarrow> m \<le> t"
      using assms(1) by (fastforce simp: lookup_inv_def m_def intro: min.coboundedI1)
  qed
  then show ?thesis
    using assms(1,2) unfolding lookup_inv_def
    by (simp add: receive_eq m_def [symmetric] eq)
qed

lemma lookup_inv_leave:
  assumes "lookup_inv answer route qs got st" and "lk_done st" and "q \<in> set (lk_left st)"
  shows "lookup_inv answer route qs got (st\<lparr>lk_left := remove1 q (lk_left st)\<rparr>)"
proof -
  have "mset got + (mset (lk_left st) - {#q#}) \<subseteq># mset got + mset (lk_left st)"
    by simp
  also have "mset got + mset (lk_left st) \<subseteq># mset qs"
    using assms(1) by (simp add: lookup_inv_def)
  finally show ?thesis
    using assms by (cases "lk_result st") (auto simp: lookup_inv_def)
qed

lemma conclude_cong [simp]:
  "conclude route (st\<lparr>lk_result := r\<rparr>) = conclude route st" "conclude route (st\<lparr>lk_done := b\<rparr>) = conclude route st"
  by (simp_all add: conclude_def)

lemma lookup_inv_step:
  assumes "processMessages answer route st st'" and "lookup_inv answer route qs got st"
  shows "\<exists>got'. lookup_inv answer route qs got' st'"
  using assms(1)
proof cases
  case expire
  then have "lookup_inv answer route qs got st'"
    using assms(2) by (cases "lk_result st") (auto simp: lookup_inv_def)
  then show ?thesis ..
next
  case (deliver q)
  then show ?thesis
    using lookup_inv_deliver [OF assms(2)] by blast
next
  case (leave q)
  then show ?thesis
    using lookup_inv_leave [OF assms(2)] by blast
next
  case cancel
  then have "lookup_inv answer route qs got st'"
    using assms(2) by (simp add: lookup_inv_def)
  then show ?thesis ..
next
  case finish
  then have "lookup_inv answer route qs got st'"
    using assms(2) by (simp add: lookup_inv_def)
  then show ?thesis ..
qed

lemma lookup_inv_run:
  assumes "lookup_run answer route (lookupAllTypes qs) st"
  shows "\<exists>got. lookup_inv answer route qs got st"
  using assms
proof (induction rule: rtranclp_induct)
  case base
  show ?case
    by (rule exI [of _ "[]"]) (simp add: lookup_inv_def lookupAllTypes_def)
next
  case (step y z)
  then show ?case
    using lookup_inv_step by blast
qed

lemma mset_insert_stable [simp]: "mset (insert_stable lt x xs) = add_mset x (mset xs)"
  by (induction xs) auto

lemma mset_Stable [simp]: "mset (Stable lt xs) = mset xs"
proof -
  have "mset (foldr (insert_stable lt) xs []) = mset xs"
    by (induction xs) auto
  then show ?thesis by (simp add: Stable_def)
qed

lemma SortByRFC6724_mset:
  "(SortByRFC6724 route addrs :: ('e, Addr list) res) = Inr ys \<Longrightarrow> mset ys = mset addrs"
  by (auto simp: SortByRFC6724_def sortByRFC6724withSrcs_def srcAddrs_def split: if_splits)
    (metis length_map map_fst_zip mset_Stable mset_map)



definition sample_answer :: "u16 \<Rightarrow> unit dns_error + Msg option" where
  "sample_answer q = Inr (Some \<lparr>msg_Answer = [RR_Other 5, RR_A [1, 2, 3, 4] 60], msg_Rcode = 0\<rparr>)"

definition sample_end :: "unit lookup" where
  "sample_end = \<lparr>lk_left = [], lk_done = False, lk_errs = [], lk_addrs = [Addr4 [1, 2, 3, 4]], lk_minTTL = 60,
     lk_result = Some (Inr ([Addr4 [1, 2, 3, 4]], 60))\<rparr>"

lemma sample_run: "lookup_run sample_answer (\<lambda>_. None) (lookupAllTypes [TypeA]) sample_end"
proof -
  let ?s0 = "lookupAllTypes [TypeA] :: unit lookup"
  let ?s1 = "(receive (sample_answer TypeA) ?s0)\<lparr>lk_left := remove1 TypeA (lk_left ?s0)\<rparr>"
  have s1: "?s1 = \<lparr>lk_left = [], lk_done = False, lk_errs = [], lk_addrs = [Addr4 [1, 2, 3, 4]], lk_minTTL = 60, lk_result = None\<rparr>"
    by (simp add: lookupAllTypes_def receive_def sample_answer_def parseMsg_def AddrFromSlice_ok_def AddrFromSlice_def
        min.absorb2)
  have "processMessages sample_answer (\<lambda>_. None) ?s0 ?s1"
    by (rule deliver) (simp_all add: lookupAllTypes_def)
  moreover have "processMessages sample_answer (\<lambda>_. None) ?s1 (?s1\<lparr>lk_result := Some (conclude (\<lambda>_. None) ?s1)\<rparr>)"
    by (rule finish) (simp_all add: s1)
  moreover have "?s1\<lparr>lk_result := Some (conclude (\<lambda>_. None) ?s1)\<rparr> = sample_end"
    unfolding s1 by (simp add: sample_end_def conclude_def SortByRFC6724_def)
  ultimately show ?thesis
    by (metis converse_rtranclp_into_rtranclp rtranclp.rtrancl_refl)
qed


text \<open>The steps a look-up can still take.\<close>

definition lookup_fuel :: "'e lookup \<Rightarrow> nat" where
  "lookup_fuel st = (if lk_done st then 0 else 1) + length (lk_left st) + (if lk_result st = None then 1 else 0)"

lemma lookup_fuel_decreases: "processMessages answer route st st' \<Longrightarrow> lookup_fuel st' < lookup_fuel st"
  by (erule processMessages_cases)
    (auto simp: lookup_fuel_def receive_eq length_remove1 dest: length_pos_if_in_set)

lemma lookup_fuel_run: "(processMessages answer route ^^ n) st st' \<Longrightarrow> n + lookup_fuel st' \<le> lookup_fuel st"
proof (induction n arbitrary: st')
  case (Suc n)
  then obtain y where "(processMessages answer route ^^ n) st y" "processMessages answer route y st'"
    by auto
  then show ?case
    using Suc.IH lookup_fuel_decreases by fastforce
qed simp

text \<open>
  C33: a look-up always ends and leaks no goroutine. No run is longer than the number of query types plus two,
  a look-up without a result can always make a step other than the context ending, and when it has a result
  while a goroutine is still there, the context is done, so that the goroutine can leave.
\<close>

theorem lookup_ends:
  assumes "(processMessages answer route ^^ n) (lookupAllTypes qs) st"
  shows "n \<le> length qs + 2 \<and>
    (lk_result st = None \<longrightarrow> (\<exists>st'. processMessages answer route st st' \<and> lk_done st' = lk_done st)) \<and>
    (lk_result st \<noteq> None \<and> lk_left st \<noteq> [] \<longrightarrow> lk_done st)"
proof -
  have "n \<le> length qs + 2"
    using lookup_fuel_run [OF assms] by (simp add: lookup_fuel_def lookupAllTypes_def)
  moreover have "\<exists>st'. processMessages answer route st st' \<and> lk_done st' = lk_done st" if "lk_result st = None"
  proof (cases "lk_left st")
    case Nil
    then show ?thesis
      using finish [OF Nil that] by fastforce
  next
    case (Cons q qs)
    then show ?thesis
      using deliver [OF that, of q] by (fastforce simp: receive_eq)
  qed
  moreover have "lookup_run answer route (lookupAllTypes qs) st"
    using assms by (rule relpowp_imp_rtranclp)
  then obtain got where "lookup_inv answer route qs got st"
    using lookup_inv_run by blast
  then have "lk_result st \<noteq> None \<Longrightarrow> lk_left st \<noteq> [] \<Longrightarrow> lk_done st"
    by (auto simp: lookup_inv_def)
  ultimately show ?thesis
    by blast
qed

theorem lookup_ends_witness:
  "\<exists>n. (processMessages sample_answer (\<lambda>_. None) ^^ n) (lookupAllTypes [TypeA]) sample_end \<and> n \<le> 3"
proof -
  obtain n where "(processMessages sample_answer (\<lambda>_. None) ^^ n) (lookupAllTypes [TypeA]) sample_end"
    using rtranclp_imp_relpowp [OF sample_run] by blast
  then show ?thesis
    using lookup_ends [of n sample_answer "\<lambda>_. None" "[TypeA]" sample_end] by auto
qed


section \<open>Properties of the client\<close>

text \<open>What a caching client answers for a name: the live cache entry, or the back end.\<close>

definition caches :: "RuntimeConfig \<Rightarrow> Rule option \<Rightarrow> bool" where
  "caches base rule \<longleftrightarrow>
     (let cfg = (case rule of None \<Rightarrow> base | Some r \<Rightarrow> rule_Config r) in
      dns_Cache (rt_DNS cfg) \<and> dns_Mode (rt_DNS cfg) \<noteq> DNSModeSystem)"

lemma seconds_pos: "(ttl :: u32) \<noteq> 0 \<Longrightarrow> 0 < int (unat ttl) * Second"
proof (rule mult_pos_pos)
  assume "ttl \<noteq> 0"
  then have "0 < unat ttl"
    by (simp add: unat_gt_0)
  then show "0 < int (unat ttl)"
    by linarith
qed (simp add: Second_def Millisecond_def)

lemma Resolve_hit:
  assumes "ParseAddr domain = None" and "caches base rule" and "ttl_shards c \<noteq> []"
    and "live tGet (TTL_read hostname_Bytes domain c) = Some addrs"
  shows "fst (Client_Resolve resolve base tGet tSet rule domain c) = Inr addrs"
  using assms TTL_Get_lookup(1) [OF assms(3), of hostname_Bytes tGet domain]
  by (auto simp: Client_Resolve_def caches_def Let_def split: prod.splits option.splits)

lemma Resolve_stores:
  assumes "ParseAddr domain = None" and "caches base rule" and "ttl_shards c \<noteq> []"
    and "live tGet (TTL_read hostname_Bytes domain c) = None"
    and "resolve (pick (dns_Mode (rt_DNS (case rule of None \<Rightarrow> base | Some r \<Rightarrow> rule_Config r))))
       (serverFor (case rule of None \<Rightarrow> base | Some r \<Rightarrow> rule_Config r)) domain
       (parseQueryTypes (dns_QType (rt_DNS (case rule of None \<Rightarrow> base | Some r \<Rightarrow> rule_Config r)))) = Inr (addrs, ttl)"
    and "ttl \<noteq> 0" and "Client_Resolve resolve base tGet tSet rule domain c = (r, c')"
  shows "r = Inr addrs \<and> ttl_shards c' \<noteq> [] \<and>
    TTL_read hostname_Bytes domain c' = Some \<lparr>item_value = addrs, item_expiresAt = tSet + int (unat ttl) * Second\<rparr>"
proof -
  let ?o = "Some (WithTTL (int (unat ttl) * Second) Options)"
  define c1 where "c1 = snd (TTL_Get hostname_Bytes tGet domain c)"
  have ne: "ttl_shards c1 \<noteq> []"
    using TTL_shards_nonempty(2) [OF assms(3)] by (simp add: c1_def)
  have miss: "TTL_Get hostname_Bytes tGet domain c = (None, c1)"
    using TTL_Get_lookup(1) [OF assms(3), of hostname_Bytes tGet domain] assms(4) by (simp add: c1_def prod_eq_iff)
  have rc: "r = Inr addrs" "c' = snd (TTL_Set hostname_Bytes tSet domain addrs ?o c1)"
    using assms(1,2,5,7) miss by (auto simp: Client_Resolve_def caches_def Let_def)
  have "int (unat ttl) * Second \<noteq> 0"
    using seconds_pos [OF assms(6)] by linarith
  then have "fst (TTL_Set hostname_Bytes tSet domain addrs ?o c1)"
    by (auto simp: TTL_Set_def Let_def optsOrDefault_def WithTTL_def Options_def)
  then have set: "TTL_Set hostname_Bytes tSet domain addrs ?o c1 = (True, c')"
    by (simp add: rc(2) prod_eq_iff)
  show ?thesis
    using TTL_Set_read [OF ne set, of domain] TTL_shards_nonempty(1) [OF ne] rc
    by (simp add: optsOrDefault_def WithTTL_def Options_def)
qed



definition sample_rules :: "Rule \<times> Rule" where
  "sample_rules =
     (let rc = cfg_Runtime (DefaultConfig 0); d = (rt_DNS rc)\<lparr>dns_Cache := True\<rparr>;
          r = \<lparr>rule_Name = ''r'', rule_Priority = 0, rule_Block = False, rule_Match = None, rule_Config = rc\<lparr>rt_DNS := d\<rparr>\<rparr> in
      (r, r\<lparr>rule_Config := rc\<lparr>rt_DNS := d\<lparr>dns_QType := DNSQueryIPv6\<rparr>\<rparr>\<rparr>))"


lemma retry_steps:
  assumes "he_req env = None"
  shows "he_Do env 0 = Inl e \<Longrightarrow> retry_loop env 0 None = retry_loop env 1 (Some (Inl e))"
    and "he_Do env 0 = Inr x \<Longrightarrow> retry_loop env 0 None = Inr (Some (Inr x))"
    and "retry_loop env 1 p = Inr (Some (he_Do env 1))"
  using assms
  by (simp_all add: retry_loop.simps [of env 0] retry_loop.simps [of env 1] retry_loop.simps [of env "Suc (Suc 0)"]
      retry_loop.simps [of env "Suc 0"] maxRetries_def split: sum.splits)

text \<open>
  C35: the HTTPS exchange makes at most two attempts, and it makes the second after any failure of the first:
  the test for a retryable error has no effect, since both of its branches continue the loop.
\<close>

theorem https_retries:
  assumes "he_pack env = Inr q" and "he_req env = None" and "he_Do env 0 = Inl e"
  shows "https_exchange env = https_exchange (env\<lparr>he_Do := (\<lambda>_. he_Do env 1)\<rparr>) \<and>
    (he_Do env 1 = Inl e' \<longrightarrow> https_exchange env = Inl (HttpErr e'))"
proof -
  have l: "retry_loop env 0 None = Inr (Some (he_Do env 1))"
    using retry_steps(1) [OF assms(2,3)] retry_steps(3) [OF assms(2)] by simp
  have "retry_loop (env\<lparr>he_Do := (\<lambda>_. he_Do env 1)\<rparr>) 0 None = Inr (Some (he_Do env 1))"
    using retry_steps [of "env\<lparr>he_Do := (\<lambda>_. he_Do env 1)\<rparr>"] assms(2) by (cases "he_Do env 1") auto
  then show ?thesis
    using assms(1) l by (simp add: https_exchange_def split: sum.split prod.split)
qed

theorem https_retries_witness:
  "https_exchange \<lparr>he_pack = Inr [], he_req = None,
     he_Do = (\<lambda>i. if i = 0 then Inl ''no such host'' else Inr (200, Inr [])),
     he_unpack = (\<lambda>_. Inr \<lparr>msg_Answer = [], msg_Rcode = 0\<rparr>), he_Error = (\<lambda>s. s)\<rparr> =
   Inr (Some \<lparr>msg_Answer = [], msg_Rcode = 0\<rparr>) \<and> \<not> isRetryableError ''no such host''"
proof -
  let ?e = "\<lparr>he_pack = Inr [], he_req = None, he_Do = (\<lambda>i. if i = 0 then Inl ''no such host'' else Inr (200, Inr [])),
     he_unpack = (\<lambda>_. Inr \<lparr>msg_Answer = [], msg_Rcode = 0\<rparr>), he_Error = (\<lambda>s. s)\<rparr> :: string http_env"
  have "https_exchange ?e = https_exchange (?e\<lparr>he_Do := (\<lambda>_. Inr (200, Inr []))\<rparr>)"
    using https_retries [of ?e "[]" "''no such host''"] by simp
  also have "\<dots> = Inr (Some \<lparr>msg_Answer = [], msg_Rcode = 0\<rparr>)"
    by (simp add: https_exchange_def retry_steps(2) StatusOK_def RcodeSuccess_def)
  finally show ?thesis
    by (simp add: isRetryableError_def)
qed

section \<open>The system resolver\<close>

lemma filter_loop_family:
  "a \<in> set (filter_loop wantsA wantsAAAA ips seen) \<Longrightarrow> wantsA \<and> Is4 a \<or> wantsAAAA \<and> Is6 a"
proof (induction ips arbitrary: seen)
  case (Cons ip ips)
  have "Is4 (AddrFromSlice x)" if "To4 ip = Some x" for x
    using To4_length [OF that] by (simp add: AddrFromSlice_def)
  moreover have "Is6 (AddrFromSlice ip)" if "To4 ip = None" "AddrFromSlice_ok ip"
    using that by (auto simp: AddrFromSlice_ok_def AddrFromSlice_def To4_def split: if_splits)
  ultimately show ?case
    using Cons by (auto simp: Let_def split: if_splits)
qed simp

lemma system_resolve_family:
  "system_resolve L domain qTypes = Inr (addrs, ttl) \<Longrightarrow> a \<in> set addrs \<Longrightarrow>
     TypeA \<in> set qTypes \<and> Is4 a \<or> TypeAAAA \<in> set qTypes \<and> Is6 a"
  by (auto simp: system_resolve_def filtterAddrs_def Let_def dest!: filter_loop_family split: sum.splits if_splits)

end
