(* ===== verification/Dial.thy ===== *)
theory Dial
  imports ConfigTypes "HOL-Library.Multiset"
begin

text \<open>
  Reaching a destination, \<open>dst.go\<close>, \<open>dial.go\<close> and \<open>network_job.go\<close> of \<open>src/internal/netutil\<close>: the check against
  dialling the proxy itself, the race of several dials as a step relation over all interleavings, and the jobs
  that change and restore the system's network configuration. What a dial or a command does is a parameter.
\<close>

section \<open>Destinations\<close>

record Destination =
  dst_Host :: string
  dst_Addrs :: "IP list"
  dst_Port :: int

definition IP_IsLoopback :: "IP \<Rightarrow> bool" where
  "IP_IsLoopback ip =
     (case To4 ip of
        Some ip4 \<Rightarrow> ip4 ! 0 = 127
      | None \<Rightarrow> IP_Equal ip (replicate 15 0 @ [1]))"

datatype 'e dst_error = InterfaceAddrs 'e | LoopbackDetected IP | InterfaceDetected IP

text \<open>\<open>ifAddrs\<close>: the addresses of the local interfaces, or the error of listing them.\<close>

fun addrs_loop :: "IP list \<Rightarrow> IP list \<Rightarrow> 'e dst_error option" where
  "addrs_loop ifAddrs [] = None"
| "addrs_loop ifAddrs (ip # ips) =
     (if IP_IsLoopback ip then Some (LoopbackDetected ip)
      else (case find (\<lambda>a. IP_Equal a ip) ifAddrs of
              Some a \<Rightarrow> Some (InterfaceDetected a)
            | None \<Rightarrow> addrs_loop ifAddrs ips))"

definition Destination_IsValid :: "'e + IP list \<Rightarrow> TCPAddr \<Rightarrow> Destination \<Rightarrow> bool \<times> 'e dst_error option" where
  "Destination_IsValid ifAddrs listenAddr d =
     (if dst_Port d \<noteq> addr_Port listenAddr then (True, None)
      else (case ifAddrs of
              Inl e \<Rightarrow> (False, Some (InterfaceAddrs e))
            | Inr l \<Rightarrow>
                (case addrs_loop l (dst_Addrs d) of
                   Some e \<Rightarrow> (False, Some e)
                 | None \<Rightarrow> (True, None))))"

section \<open>The fastest dial\<close>

text \<open>
  The addresses are numbered. The launcher goroutine starts one goroutine per address while fewer than ten are
  running (\<open>ds_todo\<close>, \<open>ds_running\<close>); a finished dial puts its result into the channel, which has room for all
  (\<open>ds_chan\<close>), or, once the context is done, may drop it and close the connection. The main loop takes results
  until one succeeds or all have failed. The context is done when the caller's context is (\<open>ds_parent\<close>) or when
  \<open>DialFastest\<close> has returned and its deferred \<open>cancel\<close> has run. \<open>ds_recv\<close> and \<open>ds_drop\<close> record the numbers of the
  received and the dropped results, \<open>ds_closed\<close> the connections closed by their dialler.
\<close>

datatype 'e dial_error = DialErr 'e | Canceled
datatype 'e fastest_error = NoAddresses | AllFailed nat "'e dial_error" | FastestCtx

record ('e, 'c) dial_state =
  ds_todo :: "nat list"
  ds_running :: "nat list"
  ds_chan :: "(nat \<times> ('e dial_error + 'c)) list"
  ds_recv :: "nat list"
  ds_drop :: "nat list"
  ds_firstError :: "'e dial_error option"
  ds_parent :: bool
  ds_closed :: "nat list"
  ds_result :: "('e fastest_error + nat) option"

definition maxConcurrency :: nat where "maxConcurrency = 10"

definition dial_start :: "nat \<Rightarrow> ('e, 'c) dial_state" where
  "dial_start n =
     \<lparr>ds_todo = [0..<n], ds_running = [], ds_chan = [], ds_recv = [], ds_drop = [], ds_firstError = None,
      ds_parent = False, ds_closed = [], ds_result = (if n = 0 then Some (Inl NoAddresses) else None)\<rparr>"

definition ctx_done :: "('e, 'c) dial_state \<Rightarrow> bool" where
  "ctx_done st \<longleftrightarrow> ds_parent st \<or> ds_result st \<noteq> None"

text \<open>What a goroutine's dial can return: its own outcome, or the cancellation once the context is done.\<close>

definition outcome :: "(nat \<Rightarrow> 'e + 'c) \<Rightarrow> ('e, 'c) dial_state \<Rightarrow> nat \<Rightarrow> 'e dial_error + 'c \<Rightarrow> bool" where
  "outcome dial st i r \<longleftrightarrow>
     (case dial i of Inl e \<Rightarrow> r = Inl (DialErr e) | Inr c \<Rightarrow> r = Inr c) \<or> ctx_done st \<and> r = Inl Canceled"

text \<open>The receive case of the main loop.\<close>

definition take_result :: "nat \<Rightarrow> nat \<times> ('e dial_error + 'c) \<Rightarrow> ('e, 'c) dial_state \<Rightarrow> ('e, 'c) dial_state" where
  "take_result n res st =
     (let st = st\<lparr>ds_recv := fst res # ds_recv st\<rparr> in
      case snd res of
        Inr c \<Rightarrow> st\<lparr>ds_result := Some (Inr (fst res))\<rparr>
      | Inl e \<Rightarrow>
          let firstError = (case ds_firstError st of None \<Rightarrow> e | Some e0 \<Rightarrow> e0);
              failureCount = length (ds_recv st) in
          st\<lparr>ds_firstError := Some firstError,
             ds_result := (if failureCount = n then Some (Inl (AllFailed failureCount firstError)) else None)\<rparr>)"

inductive DialFastest :: "nat \<Rightarrow> (nat \<Rightarrow> 'e + 'c) \<Rightarrow> ('e, 'c) dial_state \<Rightarrow> ('e, 'c) dial_state \<Rightarrow> bool"
  for n :: nat and dial :: "nat \<Rightarrow> 'e + 'c" where
  launch: "ds_todo st = i # rest \<Longrightarrow> length (ds_running st) < maxConcurrency \<Longrightarrow>
    DialFastest n dial st (st\<lparr>ds_todo := rest, ds_running := i # ds_running st\<rparr>)"
| stop: "ctx_done st \<Longrightarrow> ds_todo st \<noteq> [] \<Longrightarrow>
    DialFastest n dial st (st\<lparr>ds_todo := [], ds_drop := ds_todo st @ ds_drop st\<rparr>)"
| send: "i \<in> set (ds_running st) \<Longrightarrow> outcome dial st i r \<Longrightarrow>
    DialFastest n dial st (st\<lparr>ds_running := remove1 i (ds_running st), ds_chan := ds_chan st @ [(i, r)]\<rparr>)"
| drop: "i \<in> set (ds_running st) \<Longrightarrow> ctx_done st \<Longrightarrow> outcome dial st i r \<Longrightarrow>
    DialFastest n dial st (st\<lparr>ds_running := remove1 i (ds_running st), ds_drop := i # ds_drop st,
      ds_closed := (case r of Inr c \<Rightarrow> i # ds_closed st | Inl e \<Rightarrow> ds_closed st)\<rparr>)"
| recv: "ds_result st = None \<Longrightarrow> ds_chan st = res # rest \<Longrightarrow>
    DialFastest n dial st (take_result n res (st\<lparr>ds_chan := rest\<rparr>))"
| cancel: "\<not> ds_parent st \<Longrightarrow> DialFastest n dial st (st\<lparr>ds_parent := True\<rparr>)"
| give_up: "ds_parent st \<Longrightarrow> ds_result st = None \<Longrightarrow>
    DialFastest n dial st (st\<lparr>ds_result := Some (Inl FastestCtx)\<rparr>)"

inductive_cases DialFastest_cases: "DialFastest n dial st st'"

abbreviation dial_run :: "nat \<Rightarrow> (nat \<Rightarrow> 'e + 'c) \<Rightarrow> ('e, 'c) dial_state \<Rightarrow> ('e, 'c) dial_state \<Rightarrow> bool" where
  "dial_run n dial \<equiv> (DialFastest n dial)\<^sup>*\<^sup>*"

text \<open>The connections that are open and that nobody but the channel refers to.\<close>

definition unclaimed :: "('e, 'c) dial_state \<Rightarrow> nat list" where
  "unclaimed st = map fst (filter (\<lambda>(i, r). \<not> isl r) (ds_chan st))"

section \<open>Network jobs\<close>

record NetworkJob =
  job_Description :: string
  job_Apply :: string
  job_Reset :: string

datatype 'e job_file = JobsMissing | JobsError 'e | JobsFile "NetworkJob list"

datatype 'e job_error = LoadState 'e | JobFailed string 'e

text \<open>
  The state file is what reading and decoding the path yields; the commands run so far are the log. \<open>run cmd\<close> is
  the error of a command, if any.
\<close>

definition LoadJobs :: "string \<Rightarrow> 'e job_file \<Rightarrow> 'e + NetworkJob list option" where
  "LoadJobs path file =
     (if path = [] then Inr None
      else (case file of JobsMissing \<Rightarrow> Inr None | JobsError e \<Rightarrow> Inl e | JobsFile jobs \<Rightarrow> Inr (Some jobs)))"

text \<open>\<open>SaveJobs\<close> writes the jobs to the path; \<open>writeErr\<close> is the error of encoding or writing.\<close>

definition SaveJobs :: "'e option \<Rightarrow> string \<Rightarrow> NetworkJob list \<Rightarrow> 'e job_file \<Rightarrow> 'e option \<times> 'e job_file" where
  "SaveJobs writeErr path jobs file =
     (if path = [] then (None, file)
      else (case writeErr of Some e \<Rightarrow> (Some e, file) | None \<Rightarrow> (None, JobsFile jobs)))"

definition reset_commands :: "NetworkJob list \<Rightarrow> string list" where
  "reset_commands jobs = filter (\<lambda>c. c \<noteq> []) (map job_Reset (rev jobs))"

text \<open>The file and the commands run. Failing reset commands are ignored; \<open>removed\<close> says whether \<open>os.Remove\<close> succeeds.\<close>

definition ResetJobs :: "bool \<Rightarrow> string \<Rightarrow> 'e job_file \<Rightarrow> string list \<times> 'e job_file" where
  "ResetJobs removed path file =
     (if path = [] then ([], file)
      else (case LoadJobs path file of
              Inl e \<Rightarrow> ([], file)
            | Inr None \<Rightarrow> ([], file)
            | Inr (Some jobs) \<Rightarrow> (reset_commands jobs, if removed then JobsMissing else file)))"

fun apply_loop :: "(string \<Rightarrow> 'e option) \<Rightarrow> NetworkJob list \<Rightarrow> string list \<times> 'e job_error option" where
  "apply_loop run [] = ([], None)"
| "apply_loop run (job # jobs) =
     (let cmd = job_Apply job in
      if cmd \<noteq> [] then
        (case run cmd of
           Some e \<Rightarrow> ([cmd], Some (JobFailed (job_Description job) e))
         | None \<Rightarrow> let (cmds, r) = apply_loop run jobs in (cmd # cmds, r))
      else apply_loop run jobs)"

definition ApplyJobs ::
    "(string \<Rightarrow> 'e option) \<Rightarrow> bool \<Rightarrow> string \<Rightarrow> 'e job_file \<Rightarrow> string list \<times> 'e job_file \<times> 'e job_error option" where
  "ApplyJobs run removed path file =
     (if path = [] then ([], file, None)
      else (case LoadJobs path file of
              Inl e \<Rightarrow> ([], file, Some (LoadState e))
            | Inr None \<Rightarrow> ([], file, None)
            | Inr (Some jobs) \<Rightarrow>
                (case apply_loop run jobs of
                   (cmds, None) \<Rightarrow> (cmds, file, None)
                 | (cmds, Some e) \<Rightarrow>
                     let (resets, file) = ResetJobs removed path file in (cmds @ resets, file, Some e))))"

section \<open>Every run of the dial race\<close>

text \<open>
  The numbers of the addresses are moved around and never lost or copied; a result in the channel is the outcome of
  its dial, or a cancellation that has a cause; the answer agrees with the outcomes.
\<close>

definition dial_ids :: "('e, 'c) dial_state \<Rightarrow> nat list" where
  "dial_ids st = ds_todo st @ ds_running st @ map fst (ds_chan st) @ ds_recv st @ ds_drop st"

definition chan_ok :: "(nat \<Rightarrow> 'e + 'c) \<Rightarrow> ('e, 'c) dial_state \<Rightarrow> bool" where
  "chan_ok dial st \<longleftrightarrow>
     (\<forall>(i, r) \<in> set (ds_chan st). (\<not> isl r \<longrightarrow> \<not> isl (dial i)) \<and> (isl r \<longrightarrow> isl (dial i) \<or> ctx_done st))"

definition result_ok :: "nat \<Rightarrow> (nat \<Rightarrow> 'e + 'c) \<Rightarrow> ('e, 'c) dial_state \<Rightarrow> bool" where
  "result_ok n dial st \<longleftrightarrow>
     (case ds_result st of
        None \<Rightarrow> length (ds_recv st) < n \<and> (\<not> ds_parent st \<longrightarrow> ds_drop st = [] \<and> (\<forall>i \<in> set (ds_recv st). isl (dial i)))
      | Some (Inr i) \<Rightarrow> i < n \<and> \<not> isl (dial i) \<and> i \<in> set (ds_recv st)
      | Some (Inl NoAddresses) \<Rightarrow> n = 0
      | Some (Inl (AllFailed k e)) \<Rightarrow> k = n \<and> 0 < n \<and> (\<not> ds_parent st \<longrightarrow> (\<forall>i < n. isl (dial i)))
      | Some (Inl FastestCtx) \<Rightarrow> ds_parent st)"

definition dial_inv :: "nat \<Rightarrow> (nat \<Rightarrow> 'e + 'c) \<Rightarrow> ('e, 'c) dial_state \<Rightarrow> bool" where
  "dial_inv n dial st \<longleftrightarrow>
     mset (dial_ids st) = mset [0..<n] \<and> length (ds_running st) \<le> maxConcurrency \<and> chan_ok dial st \<and>
     result_ok n dial st"

lemma dial_inv_ids: "dial_inv n dial st \<Longrightarrow> set (dial_ids st) = {0..<n}"
  by (metis dial_inv_def mset_eq_setD set_upt)

lemma isl_iff: "isl x \<longleftrightarrow> (\<exists>e. x = Inl e)"
  by (cases x) simp_all

lemma not_isl_iff: "(\<forall>e. x \<noteq> Inl e) \<longleftrightarrow> (\<exists>c. x = Inr c)"
  by (cases x) simp_all

lemma outcome_ok: "outcome dial st i r \<Longrightarrow> (\<not> isl r \<longrightarrow> \<not> isl (dial i)) \<and> (isl r \<longrightarrow> isl (dial i) \<or> ctx_done st)"
  by (auto simp: outcome_def split: sum.splits)

lemma dial_inv_start: "dial_inv n dial (dial_start n)"
  by (auto simp: dial_inv_def dial_start_def dial_ids_def chan_ok_def result_ok_def)

lemma remove1_ids: "i \<in> set xs \<Longrightarrow> mset (remove1 i xs) + add_mset i M = mset xs + M"
  by simp

lemma recv_all:
  assumes "mset (dial_ids st) = mset [0..<n]" and "length (ds_recv st) = n"
  shows "set (ds_recv st) = {0..<n}"
proof -
  have "length (dial_ids st) = n"
    using arg_cong [OF assms(1), of size] by simp
  then have "dial_ids st = ds_recv st"
    using assms(2) by (simp add: dial_ids_def)
  then show ?thesis
    by (metis assms(1) mset_eq_setD set_upt)
qed

lemma take_result_simps [simp]:
  "ds_todo (take_result n res st) = ds_todo st"
  "ds_running (take_result n res st) = ds_running st"
  "ds_chan (take_result n res st) = ds_chan st"
  "ds_drop (take_result n res st) = ds_drop st"
  "ds_parent (take_result n res st) = ds_parent st"
  "ds_closed (take_result n res st) = ds_closed st"
  "ds_recv (take_result n res st) = fst res # ds_recv st"
  by (simp_all add: take_result_def Let_def split: sum.split)

lemma dial_inv_recv:
  assumes "dial_inv n dial st" and none: "ds_result st = None" and chan: "ds_chan st = res # rest"
  shows "dial_inv n dial (take_result n res (st\<lparr>ds_chan := rest\<rparr>))"
proof -
  let ?st = "take_result n res (st\<lparr>ds_chan := rest\<rparr>)"
  obtain i r where res: "res = (i, r)" by fastforce
  have ids: "mset (dial_ids ?st) = mset [0..<n]"
    using assms(1) chan by (simp add: dial_inv_def dial_ids_def)
  have i: "i < n"
    using dial_inv_ids [OF assms(1)] chan res by (auto simp: dial_ids_def)
  have ok: "(\<not> isl r \<longrightarrow> \<not> isl (dial i)) \<and> (isl r \<longrightarrow> isl (dial i) \<or> ds_parent st)"
    using assms(1) none chan res by (auto simp: dial_inv_def chan_ok_def ctx_done_def)
  have chan': "chan_ok dial ?st"
    using assms(1) none chan by (fastforce simp: dial_inv_def chan_ok_def ctx_done_def)
  have old: "length (ds_recv st) < n"
      "\<not> ds_parent st \<Longrightarrow> ds_drop st = [] \<and> (\<forall>i \<in> set (ds_recv st). isl (dial i))"
    using assms(1) none by (auto simp: dial_inv_def result_ok_def)
  have all: "length (ds_recv ?st) = n \<Longrightarrow> set (ds_recv ?st) = {0..<n}"
    using ids by (rule recv_all)
  have "result_ok n dial ?st"
  proof (cases r)
    case (Inr c)
    then show ?thesis using ok i res by (simp add: result_ok_def take_result_def)
  next
    case (Inl e)
    then have "isl (dial i) \<or> ds_parent st" using ok by simp
    then have recv: "\<not> ds_parent st \<Longrightarrow> \<forall>j \<in> set (ds_recv ?st). isl (dial j)"
      using old(2) res by auto
    have "Suc (length (ds_recv st)) = n \<Longrightarrow> \<not> ds_parent st \<Longrightarrow> \<forall>j < n. isl (dial j)"
      using all recv by simp
    then show ?thesis
      using old recv Inl i res by (simp add: result_ok_def take_result_def Let_def)
  qed
  then show ?thesis
    using assms(1) ids chan' by (simp add: dial_inv_def)
qed

lemma result_ok_frame:
  assumes "result_ok n dial st" and "ds_result st' = ds_result st" and "ds_recv st' = ds_recv st"
    and "ds_parent st \<longrightarrow> ds_parent st'" and "\<not> ctx_done st' \<longrightarrow> ds_drop st' = ds_drop st"
  shows "result_ok n dial st'"
  using assms by (auto simp: result_ok_def ctx_done_def split: option.splits sum.splits fastest_error.splits)

lemma chan_ok_frame:
  "chan_ok dial st \<Longrightarrow> set (ds_chan st') \<subseteq> set (ds_chan st) \<Longrightarrow> (ctx_done st \<longrightarrow> ctx_done st') \<Longrightarrow> chan_ok dial st'"
  by (fastforce simp: chan_ok_def)

lemma dial_inv_frame:
  assumes "dial_inv n dial st" and "mset (dial_ids st') = mset (dial_ids st)"
    and "length (ds_running st') \<le> maxConcurrency" and "chan_ok dial st'" and "ds_result st' = ds_result st"
    and "ds_recv st' = ds_recv st" and "ds_parent st \<longrightarrow> ds_parent st'"
    and "\<not> ctx_done st' \<longrightarrow> ds_drop st' = ds_drop st"
  shows "dial_inv n dial st'"
  using assms result_ok_frame [of n dial st st'] by (simp add: dial_inv_def)

lemma dial_inv_step:
  assumes "DialFastest n dial st st'" and "dial_inv n dial st"
  shows "dial_inv n dial st'"
  using assms
proof (cases rule: DialFastest.cases)
  case (launch i rest)
  then have "chan_ok dial st'"
    using assms(2) chan_ok_frame [of dial st st'] by (simp add: dial_inv_def ctx_done_def)
  then show ?thesis
    using launch by (intro dial_inv_frame [OF assms(2)]) (simp_all add: dial_ids_def)
next
  case stop
  then have "chan_ok dial st'"
    using assms(2) chan_ok_frame [of dial st st'] by (simp add: dial_inv_def ctx_done_def)
  then show ?thesis
    using stop assms(2)
    by (intro dial_inv_frame [OF assms(2)]) (auto simp: dial_ids_def dial_inv_def ctx_done_def ac_simps)
next
  case (send i r)
  have "chan_ok dial st'"
    using assms(2) send outcome_ok [OF send(3)] by (auto simp: dial_inv_def chan_ok_def ctx_done_def)
  then show ?thesis
    using send assms(2)
    by (intro dial_inv_frame [OF assms(2)]) (auto simp: dial_ids_def dial_inv_def length_remove1)
next
  case (drop i r)
  have "chan_ok dial st'"
    using assms(2) drop chan_ok_frame [of dial st st'] by (simp add: dial_inv_def ctx_done_def)
  then show ?thesis
    using drop assms(2)
    by (intro dial_inv_frame [OF assms(2)]) (auto simp: dial_ids_def dial_inv_def length_remove1 ctx_done_def)
next
  case (recv res rest)
  then show ?thesis using assms(2) dial_inv_recv by blast
next
  case cancel
  have "chan_ok dial st'"
    using assms(2) cancel chan_ok_frame [of dial st st'] by (simp add: dial_inv_def ctx_done_def)
  then show ?thesis
    using cancel assms(2)
    by (intro dial_inv_frame [OF assms(2)]) (auto simp: dial_ids_def dial_inv_def ctx_done_def)
next
  case give_up
  then show ?thesis
    using assms(2) by (auto simp: dial_inv_def dial_ids_def chan_ok_def ctx_done_def result_ok_def)
qed

lemma dial_inv_run:
  assumes "dial_run n dial (dial_start n) st"
  shows "dial_inv n dial st"
  using assms by induction (auto intro: dial_inv_start dial_inv_step)

text \<open>Every step, the caller's cancellation included, makes this number smaller.\<close>

definition dial_measure :: "('e, 'c) dial_state \<Rightarrow> nat" where
  "dial_measure st =
     3 * length (ds_todo st) + 2 * length (ds_running st) + length (ds_chan st) + of_bool (\<not> ds_parent st) +
     of_bool (ds_result st = None)"

lemma take_result_measure:
  "ds_result st = None \<Longrightarrow> dial_measure (take_result n res st) \<le> dial_measure st"
  by (simp add: dial_measure_def)

lemma dial_measure_step:
  assumes "DialFastest n dial st st'"
  shows "dial_measure st' < dial_measure st"
  using assms
proof cases
  case (recv res rest)
  have "dial_measure st' \<le> dial_measure (st\<lparr>ds_chan := rest\<rparr>)"
    using recv by (simp add: take_result_measure)
  also have "\<dots> < dial_measure st"
    using recv by (simp add: dial_measure_def)
  finally show ?thesis .
next
  case (send i r)
  then show ?thesis
    using length_pos_if_in_set [OF send(2)]
    by (simp add: dial_measure_def length_remove1 del: length_greater_0_conv)
next
  case (drop i r)
  then show ?thesis
    using length_pos_if_in_set [OF drop(2)] by (simp add: dial_measure_def length_remove1)
qed (auto simp: dial_measure_def)

lemma dial_progress:
  assumes "dial_inv n dial st" and "ds_result st = None"
  shows "\<exists>st'. DialFastest n dial st st' \<and> ds_parent st' = ds_parent st"
proof -
  have recv: "length (ds_recv st) < n" and drop: "\<not> ds_parent st \<Longrightarrow> ds_drop st = []"
    using assms by (auto simp: dial_inv_def result_ok_def)
  have n: "length (dial_ids st) = n"
    using assms(1) by (metis dial_inv_def length_upt diff_zero size_mset)
  consider "ds_parent st" | res rest where "ds_chan st = res # rest" | i where "i \<in> set (ds_running st)"
    | i rest where "ds_todo st = i # rest" "ds_running st = []"
    using recv drop n
    by (cases "ds_parent st"; cases "ds_chan st"; cases "ds_running st"; cases "ds_todo st") (auto simp: dial_ids_def)
  then show ?thesis
  proof cases
    case 1
    then show ?thesis using DialFastest.give_up [OF 1 assms(2)] by fastforce
  next
    case (2 res rest)
    then show ?thesis using DialFastest.recv [OF assms(2) 2] by fastforce
  next
    case (3 i)
    have "outcome dial st i (case dial i of Inl e \<Rightarrow> Inl (DialErr e) | Inr c \<Rightarrow> Inr c)"
      by (simp add: outcome_def split: sum.split)
    from DialFastest.send [OF 3 this] show ?thesis by fastforce
  next
    case (4 i rest)
    then show ?thesis using DialFastest.launch [OF 4(1)] by (fastforce simp: maxConcurrency_def)
  qed
qed

text \<open>A fresh state of the race of two, and the run in which both dials succeed before the main loop looks.\<close>

definition race :: "nat list \<Rightarrow> nat list \<Rightarrow> (nat \<times> ('e dial_error + 'c)) list \<Rightarrow> ('e, 'c) dial_state" where
  "race todo running chan =
     \<lparr>ds_todo = todo, ds_running = running, ds_chan = chan, ds_recv = [], ds_drop = [], ds_firstError = None,
      ds_parent = False, ds_closed = [], ds_result = None\<rparr>"

lemma race_send:
  assumes "dial i = Inr c" and "i \<in> set running"
  shows "DialFastest 2 dial (race todo running chan) (race todo (remove1 i running) (chan @ [(i, Inr c)]))"
  using DialFastest.send [of i "race todo running chan" dial "Inr c" 2] assms
  by (simp add: race_def outcome_def)

lemma race_both:
  fixes dial :: "nat \<Rightarrow> 'e + 'c"
  assumes "dial 0 = Inr c" and "dial 1 = Inr d"
  shows "dial_run 2 dial (dial_start 2) (race [] [] [(0, Inr c), (1, Inr d)])"
proof -
  have "dial_start 2 = (race [0, 1] [] [] :: ('e, 'c) dial_state)"
    by (simp add: race_def dial_start_def upt_rec)
  moreover have "DialFastest 2 dial (race [0, 1] [] []) (race [1] [0] [])"
    using DialFastest.launch [of "race [0, 1] [] []" 0 "[1]" 2 dial] by (simp add: race_def maxConcurrency_def)
  moreover have "DialFastest 2 dial (race [1] [0] []) (race [] [1, 0] [])"
    using DialFastest.launch [of "race [1] [0] []" 1 "[]" 2 dial] by (simp add: race_def maxConcurrency_def)
  moreover have "DialFastest 2 dial (race [] [1, 0] []) (race [] [1] [(0, Inr c)])"
    using race_send [of dial 0 c "[1, 0]" "[]" "[]"] assms(1) by simp
  moreover have "DialFastest 2 dial (race [] [1] [(0, Inr c)]) (race [] [] [(0, Inr c), (1, Inr d)])"
    using race_send [of dial 1 d "[1]" "[]" "[(0, Inr c)]"] assms(2) by simp
  ultimately show ?thesis
    by (simp add: converse_rtranclp_into_rtranclp)
qed

lemma race_recv:
  "DialFastest 2 dial (race [] [] [(0, Inr c), (1, Inr d)]) (take_result 2 (0, Inr c) (race [] [] [(1, Inr d)]))"
  using DialFastest.recv [of "race [] [] [(0, Inr c), (1, Inr d)]" "(0, Inr c)" "[(1, Inr d)]" 2 dial]
  by (simp add: race_def)

text \<open>
  C36: \<open>DialFastest\<close> answers rightly in every interleaving of the launcher, the dialling goroutines, the main loop and
  a cancellation by the caller. At most ten dials run at once; a returned connection is the one of a dial of the
  list that succeeded; the error that all attempts failed counts every address and, unless the caller cancelled, is
  given only when every dial failed; the context error is given only after a cancellation.
\<close>

theorem DialFastest_safe:
  assumes "dial_run n dial (dial_start n) st"
  shows "length (ds_running st) \<le> 10 \<and>
    (case ds_result st of
       None \<Rightarrow> 0 < n
     | Some (Inr i) \<Rightarrow> i < n \<and> (\<exists>c. dial i = Inr c)
     | Some (Inl (AllFailed k e)) \<Rightarrow> k = n \<and> (ds_parent st \<or> (\<forall>i < n. \<exists>e. dial i = Inl e))
     | Some (Inl FastestCtx) \<Rightarrow> ds_parent st
     | Some (Inl NoAddresses) \<Rightarrow> n = 0)"
  using dial_inv_run [OF assms]
  by (auto simp: dial_inv_def result_ok_def maxConcurrency_def isl_iff not_isl_iff
      split: option.splits sum.splits fastest_error.splits)

theorem DialFastest_safe_witness:
  "case ds_result (take_result 2 (0, Inr 7) (race [] [] [(1, Inr 8)]) :: (unit, nat) dial_state) of
     Some (Inr i) \<Rightarrow> i < 2
   | _ \<Rightarrow> False"
proof -
  have "dial_run 2 (\<lambda>i. Inr (7 + i) :: unit + nat) (dial_start 2) (race [] [] [(0, Inr 7), (1, Inr 8)])"
    by (rule race_both) simp_all
  moreover have "DialFastest 2 (\<lambda>i. Inr (7 + i) :: unit + nat) (race [] [] [(0, Inr 7), (1, Inr 8)])
      (take_result 2 (0, Inr 7) (race [] [] [(1, Inr 8)]))"
    by (rule race_recv)
  ultimately have "dial_run 2 (\<lambda>i. Inr (7 + i) :: unit + nat) (dial_start 2)
      (take_result 2 (0, Inr 7) (race [] [] [(1, Inr 8)]))"
    by simp
  from DialFastest_safe [OF this] show ?thesis
    by (simp add: take_result_def race_def)
qed

text \<open>
  C37: \<open>DialFastest\<close> returns. No interleaving goes on for ever, since every step decreases a measure, and as long as
  there is no answer some goroutine can take a step of its own, so that a run that stops has an answer. If the
  caller does not cancel and some dial succeeds, the answer is a connection.
\<close>

theorem DialFastest_returns:
  "wfP (\<lambda>st' st. DialFastest n dial st st') \<and>
   (\<forall>st. dial_run n dial (dial_start n) st \<and> (\<nexists>st'. DialFastest n dial st st' \<and> ds_parent st' = ds_parent st) \<longrightarrow>
      ds_result st \<noteq> None \<and>
      (\<not> ds_parent st \<and> (\<exists>i < n. \<exists>c. dial i = Inr c) \<longrightarrow> (\<exists>j. ds_result st = Some (Inr j))))"
proof (intro conjI allI impI)
  show "wfP (\<lambda>st' st. DialFastest n dial st st')"
    by (rule wfp_if_convertible_to_nat [of _ dial_measure]) (rule dial_measure_step)
next
  fix st
  assume st: "dial_run n dial (dial_start n) st \<and> (\<nexists>st'. DialFastest n dial st st' \<and> ds_parent st' = ds_parent st)"
  then show "ds_result st \<noteq> None"
    using dial_inv_run dial_progress by blast
  then show "\<exists>j. ds_result st = Some (Inr j)" if "\<not> ds_parent st \<and> (\<exists>i < n. \<exists>c. dial i = Inr c)"
    using dial_inv_run [of n dial st] st that
    by (force simp: dial_inv_def result_ok_def split: sum.splits fastest_error.splits)
qed

theorem DialFastest_returns_witness:
  "\<exists>j. ds_result (take_result 2 (0, Inr 7) (race [] [] [(1, Inr 8)]) :: (unit, nat) dial_state) = Some (Inr j)"
proof -
  let ?dial = "\<lambda>i. Inr (7 + i) :: unit + nat"
  let ?st = "take_result 2 (0, Inr 7) (race [] [] [(1, Inr 8)]) :: (unit, nat) dial_state"
  have run: "dial_run 2 ?dial (dial_start 2) ?st"
    using race_both [of ?dial 7 8] race_recv [of ?dial 7 8] by simp
  have "\<nexists>st'. DialFastest 2 ?dial ?st st' \<and> ds_parent st' = ds_parent ?st"
    by (auto simp: take_result_def race_def elim!: DialFastest_cases)
  moreover have "\<not> ds_parent ?st"
    by (simp add: race_def)
  moreover have "\<exists>i < 2. \<exists>c. ?dial i = Inr c"
    by (rule exI [of _ 0]) simp
  ultimately show ?thesis
    using DialFastest_returns [of 2 ?dial] run by blast
qed

text \<open>After the answer nothing takes a result out of the channel.\<close>

lemma answered_channel:
  assumes "dial_run n dial st st'" and "ds_result st \<noteq> None"
  shows "ds_result st' = ds_result st \<and> (\<exists>rs. ds_chan st' = ds_chan st @ rs)"
  using assms
proof induction
  case (step st1 st2)
  from step.hyps(2) step.IH [OF step.prems] step.prems show ?case
    by cases auto
qed simp

text \<open>
  The connection of a dial that loses the race can be leaked, although the comment on \<open>DialFastest\<close> says that all
  other connections are cancelled. If the dials of the first two addresses both put their connections into the
  channel before the main loop looks, the first is returned and the second stays in the channel for ever: in every
  continuation nobody receives it and it is not closed.
\<close>

lemma DialFastest_leaks:
  fixes dial :: "nat \<Rightarrow> 'e + 'c"
  assumes "dial 0 = Inr c" and "dial 1 = Inr d"
  shows "\<exists>st. dial_run 2 dial (dial_start 2) st \<and> ds_result st = Some (Inr 0) \<and> \<not> ds_parent st \<and>
           (\<forall>st'. dial_run 2 dial st st' \<longrightarrow> 1 \<in> set (unclaimed st') \<and> 1 \<notin> set (ds_closed st'))"
proof -
  let ?st = "take_result 2 (0, Inr c) (race [] [] [(1, Inr d)]) :: ('e, 'c) dial_state"
  have run: "dial_run 2 dial (dial_start 2) ?st"
    using race_both [OF assms] race_recv [of dial c d] by simp
  have res: "ds_result ?st = Some (Inr 0)" "ds_closed ?st = []" "ds_running ?st = []" "ds_todo ?st = []"
      "ds_chan ?st = [(1, Inr d)]" "\<not> ds_parent ?st"
    by (simp_all add: take_result_def race_def dial_start_def)
  have idle: "ds_closed st' = [] \<and> ds_running st' = [] \<and> ds_todo st' = [] \<and> ds_result st' = Some (Inr 0)"
    if "dial_run 2 dial ?st st'" for st'
    using that by induction (use res in \<open>auto elim!: DialFastest.cases\<close>)
  have "1 \<in> set (unclaimed st') \<and> 1 \<notin> set (ds_closed st')" if run': "dial_run 2 dial ?st st'" for st'
  proof -
    have "ds_result ?st \<noteq> None" using res(1) by simp
    from answered_channel [OF run' this] obtain rs where "ds_chan st' = (1, Inr d) # rs"
      using res(5) by auto
    then show ?thesis using idle [OF run'] by (simp add: unclaimed_def)
  qed
  then show ?thesis using run res by blast
qed

lemma DialFastest_leaks_witness:
  "\<exists>st. dial_run 2 (\<lambda>i. Inr i :: unit + nat) (dial_start 2) st \<and> ds_result st = Some (Inr 0) \<and> \<not> ds_parent st \<and>
     (\<forall>st'. dial_run 2 (\<lambda>i. Inr i) st st' \<longrightarrow> 1 \<in> set (unclaimed st') \<and> 1 \<notin> set (ds_closed st'))"
  using DialFastest_leaks [of "\<lambda>i. Inr i :: unit + nat"] by blast

section \<open>Applying and rolling back network jobs\<close>

definition apply_commands :: "NetworkJob list \<Rightarrow> string list" where
  "apply_commands jobs = filter (\<lambda>c. c \<noteq> []) (map job_Apply jobs)"

lemma apply_loop_commands:
  "case apply_loop run jobs of
     (cmds, None) \<Rightarrow> cmds = apply_commands jobs \<and> list_all (\<lambda>c. run c = None) cmds
   | (cmds, Some err) \<Rightarrow> \<exists>done cmd e rest job. apply_commands jobs = done @ cmd # rest \<and> cmds = done @ [cmd] \<and>
       list_all (\<lambda>c. run c = None) done \<and> run cmd = Some e \<and> job \<in> set jobs \<and> job_Apply job = cmd \<and>
       err = JobFailed (job_Description job) e"
proof (induction jobs)
  case (Cons job jobs)
  obtain cmds r where rec: "apply_loop run jobs = (cmds, r)" by fastforce
  show ?case
  proof (cases "job_Apply job = []")
    case True
    then show ?thesis
      using Cons rec by (cases r) (fastforce simp: apply_commands_def)+
  next
    case ne: False
    show ?thesis
    proof (cases "run (job_Apply job)")
      case (Some e)
      then show ?thesis
        using ne by (auto simp: apply_commands_def intro!: exI [of _ "[]"] exI [of _ job])
    next
      case None
      show ?thesis
      proof (cases r)
        case r: (Some err)
        then obtain done' cmd e rest j where ih: "apply_commands jobs = done' @ cmd # rest" "cmds = done' @ [cmd]"
          "list_all (\<lambda>c. run c = None) done'" "run cmd = Some e" "j \<in> set jobs" "job_Apply j = cmd"
          "err = JobFailed (job_Description j) e"
          using Cons rec by auto
        then show ?thesis
          using ne None rec r
          by (auto simp: apply_commands_def intro!: exI [of _ "job_Apply job # done'"] exI [of _ j])
      next
        case r: None
        then show ?thesis using Cons rec ne None by (auto simp: apply_commands_def)
      qed
    qed
  qed
qed (simp add: apply_commands_def)

text \<open>
  Network jobs are applied in order and rolled back on failure. Saving jobs and applying the file runs exactly
  the non-empty apply commands in order when all succeed, and keeps the file for the reset at shutdown. When a
  command fails, nothing is run after it but all the non-empty reset commands in reverse order, whatever they
  return, the state file is removed, and the error names the job that failed. A later reset then runs nothing.
\<close>

lemma ApplyJobs_rollback:
  assumes "path \<noteq> []" and "SaveJobs None path jobs file = (w, file')"
    and "ApplyJobs run True path file' = (cmds, file'', r)"
  shows "w = None \<and>
    (case r of
       None \<Rightarrow> cmds = apply_commands jobs \<and> list_all (\<lambda>c. run c = None) cmds \<and>
         ResetJobs True path file'' = (reset_commands jobs, JobsMissing)
     | Some err \<Rightarrow> \<exists>done cmd e rest job. apply_commands jobs = done @ cmd # rest \<and>
         cmds = done @ [cmd] @ reset_commands jobs \<and> list_all (\<lambda>c. run c = None) done \<and> run cmd = Some e \<and>
         job \<in> set jobs \<and> job_Apply job = cmd \<and> err = JobFailed (job_Description job) e \<and>
         file'' = JobsMissing \<and> ResetJobs True path file'' = ([], JobsMissing))"
proof -
  have file': "w = None" "file' = JobsFile jobs"
    using assms(1,2) by (auto simp: SaveJobs_def)
  obtain cs res where loop: "apply_loop run jobs = (cs, res)" by fastforce
  have app: "ApplyJobs run True path file' = (case res of None \<Rightarrow> (cs, file', None)
      | Some e \<Rightarrow> (cs @ reset_commands jobs, JobsMissing, Some e))"
    using assms(1) file' loop by (simp add: ApplyJobs_def LoadJobs_def ResetJobs_def split: option.split)
  show ?thesis
  proof (cases res)
    case None
    then show ?thesis
      using apply_loop_commands [where run = run and jobs = jobs] loop assms(1,3) file' app by (auto simp: ResetJobs_def LoadJobs_def)
  next
    case (Some err)
    then show ?thesis
      using apply_loop_commands [where run = run and jobs = jobs] loop assms(1,3) file' app
      by (fastforce simp: ResetJobs_def LoadJobs_def)
  qed
qed

lemma ApplyJobs_rollback_sample:
  "\<exists>done cmd e rest. apply_commands [\<lparr>job_Description = ''a'', job_Apply = ''up'', job_Reset = ''down''\<rparr>,
      \<lparr>job_Description = ''b'', job_Apply = ''bad'', job_Reset = ''undo''\<rparr>] = done @ cmd # rest \<and>
    [''up'', ''bad'', ''undo'', ''down''] = done @ [cmd] @ [''undo'', ''down''] \<and>
    (if cmd = ''bad'' then Some () else None) = Some e"
proof -
  let ?jobs = "[\<lparr>job_Description = ''a'', job_Apply = ''up'', job_Reset = ''down''\<rparr>,
      \<lparr>job_Description = ''b'', job_Apply = ''bad'', job_Reset = ''undo''\<rparr>]"
  let ?run = "\<lambda>c. if c = ''bad'' then Some () else None"
  have save: "SaveJobs None ''p'' ?jobs JobsMissing = (None, JobsFile ?jobs :: unit job_file)"
    by (simp add: SaveJobs_def)
  have app: "ApplyJobs ?run True ''p'' (JobsFile ?jobs) =
      ([''up'', ''bad'', ''undo'', ''down''], JobsMissing, Some (JobFailed ''b'' ()))"
    by (simp add: ApplyJobs_def LoadJobs_def ResetJobs_def reset_commands_def)
  have resets: "reset_commands ?jobs = [''undo'', ''down'']"
    by (simp add: reset_commands_def)
  show ?thesis
    using ApplyJobs_rollback [OF _ save app] resets by (auto simp del: append.simps)
qed

end
