(* ===== verification/NetConn.thy ===== *)
theory NetConn
  imports Cache ConfigTypes
begin

text \<open>
  Connections of \<open>src/internal/netutil\<close>. \<open>conn.go\<close>: the connection wrappers, the tunnel between two connections, and
  the idle timeout; \<open>conn_registry.go\<close>: the registry of UDP connections over the LRU cache. A wrapper is an object
  that the registry, its clients and the hooks share, so it lives in an explicit heap; the connections underneath
  are numbers, and closing one is recorded.
\<close>

section \<open>Tunnels\<close>

datatype TunnelDirType = TunnelDirOut | TunnelDirIn | TunnelDirOther int

text \<open>The errors of a copy that the code tells apart.\<close>

datatype 'e copy_error = NetErrClosed | EOF | EPIPE | Timeout | CopyErr 'e

record 'e TransferResult =
  tr_Written :: int
  tr_Dir :: TunnelDirType
  tr_Err :: "'e copy_error option"

definition benign :: "'e copy_error option \<Rightarrow> bool" where
  "benign err \<longleftrightarrow> (case err of None \<Rightarrow> True | Some e \<Rightarrow> e = NetErrClosed \<or> e = EOF \<or> e = EPIPE \<or> e = Timeout)"

text \<open>\<open>CloseConns\<close> closes the connections that are not nil, in order.\<close>

definition CloseConns :: "'c option list \<Rightarrow> 'c list" where
  "CloseConns closers = List.map_filter id closers"

text \<open>
  \<open>TunnelConns\<close> with the outcome \<open>(n, err)\<close> of \<open>io.CopyBuffer\<close>: the result it sends, and the connections it closes
  when it returns. The hook on the context closes the same ones, once.
\<close>

definition TunnelConns :: "int \<times> 'e copy_error option \<Rightarrow> 'c \<Rightarrow> 'c \<Rightarrow> TunnelDirType \<Rightarrow> 'e TransferResult \<times> 'c list" where
  "TunnelConns copied src dst dir =
     (let (n, err) = copied in
      (if \<not> benign err then \<lparr>tr_Written = n, tr_Dir = dir, tr_Err = err\<rparr>
       else \<lparr>tr_Written = n, tr_Dir = dir, tr_Err = None\<rparr>,
       CloseConns [Some src, Some dst]))"

text \<open>The errors of a tunnel; \<open>ErrBlocked\<close> is the one that an error handler may return instead.\<close>

datatype 'e tunnel_error = InvalidTunnelDir | TunnelErr "'e copy_error" | ErrBlocked

text \<open>The body of the loop over the two results; the traced byte counts, and the errors so far.\<close>

fun wait_loop ::
    "'e TransferResult list \<Rightarrow> int \<times> int \<times> 'e copy_error list \<Rightarrow> 'e tunnel_error + int \<times> int \<times> 'e copy_error list" where
  "wait_loop [] st = Inr st"
| "wait_loop (res # rest) (outBytes, inBytes, errs) =
     (let errs' = (case tr_Err res of Some e \<Rightarrow> errs @ [e] | None \<Rightarrow> errs) in
      case tr_Dir res of
        TunnelDirOut \<Rightarrow> wait_loop rest (tr_Written res, inBytes, errs')
      | TunnelDirIn \<Rightarrow> wait_loop rest (outBytes, tr_Written res, errs')
      | TunnelDirOther d \<Rightarrow> Inl InvalidTunnelDir)"

definition WaitForTunnelCompletion ::
    "('e copy_error list \<Rightarrow> 'e tunnel_error option) option \<Rightarrow> 'e TransferResult \<Rightarrow> 'e TransferResult \<Rightarrow>
     'e tunnel_error option" where
  "WaitForTunnelCompletion errHandler res1 res2 =
     (case wait_loop [res1, res2] (0, 0, []) of
        Inl e \<Rightarrow> Some e
      | Inr (outBytes, inBytes, errs) \<Rightarrow>
          (case errHandler of
             Some h \<Rightarrow> h errs
           | None \<Rightarrow> (case errs of e # _ \<Rightarrow> Some (TunnelErr e) | [] \<Rightarrow> None)))"

section \<open>The TTL of a connection\<close>

datatype net_conn =
    TCPConn "IP option"    \<comment> \<open>with its remote address, if that is a TCP address\<close>
  | TrackingConn net_conn
  | OtherConn

datatype 'e ttl_error = CastFailed | SyscallConnErr 'e | ControlErr 'e | SockoptErr 'e

datatype sockopt = IP_TTL u8 | IPV6_UNICAST_HOPS u8

text \<open>The parameters are the results of the three calls below the standard library; the option set is recorded.\<close>

definition SetTTL ::
    "'e option \<Rightarrow> 'e option \<Rightarrow> (sockopt \<Rightarrow> 'e option) \<Rightarrow> net_conn \<Rightarrow> bool \<Rightarrow> u8 \<Rightarrow> 'e ttl_error option \<times> sockopt option" where
  "SetTTL syscallConn control setsockopt conn isIPv4 ttl =
     (let conn = (case conn of TrackingConn c \<Rightarrow> c | _ \<Rightarrow> conn) in
      case conn of
        TCPConn remote \<Rightarrow>
          (case syscallConn of
             Some e \<Rightarrow> (Some (SyscallConnErr e), None)
           | None \<Rightarrow>
               let actualIPv4 = (case remote of
                                   Some ip \<Rightarrow> (if To4 ip \<noteq> None then True else isIPv4)
                                 | None \<Rightarrow> isIPv4);
                   opt = (if actualIPv4 then IP_TTL ttl else IPV6_UNICAST_HOPS ttl) in
               case control of
                 Some e \<Rightarrow> (Some (ControlErr e), None)
               | None \<Rightarrow> (map_option SockoptErr (setsockopt opt), Some opt))
      | _ \<Rightarrow> (Some CastFailed, None))"

section \<open>Byte counters\<close>

text \<open>\<open>TrackingConn.Read\<close> and \<open>Write\<close> add to the process-wide counters, which wrap around.\<close>

record counters =
  txBytes :: u64
  rxBytes :: u64

definition TrackingConn_Read :: "int \<times> 'e option \<Rightarrow> counters \<Rightarrow> (int \<times> 'e option) \<times> counters" where
  "TrackingConn_Read r c =
     (let (n, err) = r in (r, if n > 0 then c\<lparr>rxBytes := rxBytes c + of_int n\<rparr> else c))"

definition TrackingConn_Write :: "int \<times> 'e option \<Rightarrow> counters \<Rightarrow> (int \<times> 'e option) \<times> counters" where
  "TrackingConn_Write r c =
     (let (n, err) = r in (r, if n > 0 then c\<lparr>txBytes := txBytes c + of_int n\<rparr> else c))"

section \<open>The idle timeout\<close>

text \<open>
  Times are nanoseconds. \<open>itc_deadline\<close> is the deadline last set on the connection for reads and writes;
  \<open>itc_hooked\<close> says that the registry has set the two hooks.
\<close>

record 'k IdleTimeoutConn =
  itc_Conn :: nat
  itc_Key :: "'k option"
  itc_Timeout :: int
  itc_lastActivity :: int
  itc_expiredAt :: int
  itc_deadline :: "int option"
  itc_hooked :: bool

definition NewIdleTimeoutConn :: "int \<Rightarrow> nat \<Rightarrow> int \<Rightarrow> 'k IdleTimeoutConn" where
  "NewIdleTimeoutConn now conn timeout =
     (let c = \<lparr>itc_Conn = conn, itc_Key = None, itc_Timeout = timeout, itc_lastActivity = now, itc_expiredAt = 0,
               itc_deadline = None, itc_hooked = False\<rparr> in
      if timeout > 0 then c\<lparr>itc_expiredAt := now + timeout, itc_deadline := Some (now + timeout)\<rparr> else c)"

definition second :: int where "second = 1000000000"

text \<open>
  \<open>ExtendDeadline\<close>: its result, the connection, and whether \<open>onActivity\<close> is due. The threshold is Go's truncating
  \<open>Timeout*7/10\<close>, which is the same as \<open>div\<close> for the positive timeouts it is computed for.
\<close>

definition ExtendDeadline :: "int \<Rightarrow> 'k IdleTimeoutConn \<Rightarrow> bool \<times> 'k IdleTimeoutConn \<times> bool" where
  "ExtendDeadline now c =
     (let exp = itc_expiredAt c in
      if exp \<noteq> 0 \<and> now > exp then (False, c, False)
      else
        let active = (now - itc_lastActivity c > second);
            c = (if active then c\<lparr>itc_lastActivity := now\<rparr> else c);
            c = (if itc_Timeout c > 0 \<and> (exp = 0 \<or> exp - now < itc_Timeout c * 7 div 10)
                 then c\<lparr>itc_expiredAt := now + itc_Timeout c, itc_deadline := Some (now + itc_Timeout c)\<rparr> else c) in
        (True, c, active))"

definition IsExpired :: "int \<Rightarrow> 'k IdleTimeoutConn \<Rightarrow> bool" where
  "IsExpired now c \<longleftrightarrow> itc_expiredAt c \<noteq> 0 \<and> now > itc_expiredAt c"

section \<open>The connection registry\<close>

record 'k ConnRegistry =
  reg_storage :: "('k, nat) LRUCache"
  reg_timeout :: int
  reg_heap :: "nat \<Rightarrow> 'k IdleTimeoutConn"
  reg_next :: nat
  reg_closed :: "nat list"

definition NewConnRegistry :: "int \<Rightarrow> int \<Rightarrow> (unit, 'k ConnRegistry) res" where
  "NewConnRegistry capacity timeout =
     bindR (NewLRUCache 16 capacity True) (\<lambda>s.
       Inr \<lparr>reg_storage = s, reg_timeout = timeout, reg_heap = (\<lambda>_. NewIdleTimeoutConn 0 0 0), reg_next = 0,
            reg_closed = []\<rparr>)"

text \<open>\<open>onInvalidate\<close> closes the connection under each wrapper the cache gave up.\<close>

definition onInvalidate :: "('k \<times> nat) list \<Rightarrow> 'k ConnRegistry \<Rightarrow> 'k ConnRegistry" where
  "onInvalidate calls p = p\<lparr>reg_closed := reg_closed p @ map (\<lambda>(_, w). itc_Conn (reg_heap p w)) calls\<rparr>"

definition Store :: "('k \<Rightarrow> bytes) \<Rightarrow> int \<Rightarrow> 'k \<Rightarrow> nat \<Rightarrow> 'k ConnRegistry \<Rightarrow> nat \<times> 'k ConnRegistry" where
  "Store Bytes now key rawConn p =
     (let w = reg_next p;
          wrapper = (NewIdleTimeoutConn now rawConn (reg_timeout p))\<lparr>itc_Key := Some key, itc_hooked := True\<rparr>;
          p = p\<lparr>reg_heap := (reg_heap p)(w := wrapper), reg_next := Suc w\<rparr>;
          (_, storage, calls) = LRU_Set Bytes key w None (reg_storage p) in
      (w, onInvalidate calls (p\<lparr>reg_storage := storage\<rparr>)))"

definition Fetch :: "('k \<Rightarrow> bytes) \<Rightarrow> 'k \<Rightarrow> 'k ConnRegistry \<Rightarrow> nat option \<times> 'k ConnRegistry" where
  "Fetch Bytes key p =
     (let (r, storage) = LRU_Get Bytes key (reg_storage p) in (r, p\<lparr>reg_storage := storage\<rparr>))"

definition Evict :: "('k \<Rightarrow> bytes) \<Rightarrow> 'k \<Rightarrow> 'k ConnRegistry \<Rightarrow> 'k ConnRegistry" where
  "Evict Bytes key p =
     (let (storage, calls) = LRU_Delete Bytes key (reg_storage p) in
      onInvalidate calls (p\<lparr>reg_storage := storage\<rparr>))"

definition Registry_Has :: "('k \<Rightarrow> bytes) \<Rightarrow> 'k \<Rightarrow> 'k ConnRegistry \<Rightarrow> bool" where
  "Registry_Has Bytes key p = LRU_Has Bytes key (reg_storage p)"

definition Registry_Size :: "'k ConnRegistry \<Rightarrow> nat" where
  "Registry_Size p = LRU_Size (reg_storage p)"

text \<open>The keys a \<open>ForEach\<close> collects; \<open>rng\<close> is the order in which Go ranges over a map.\<close>

definition collect :: "(('k \<rightharpoonup> nat) \<Rightarrow> nat list) \<Rightarrow> (nat \<Rightarrow> bool) \<Rightarrow> ('k, nat) LRUCache \<Rightarrow> 'k list" where
  "collect rng P c =
     snd (LRU_ForEach rng (\<lambda>key w toRemove. (None :: unit option, if P w then toRemove @ [key] else toRemove)) c [])"

definition CloseAll :: "('k \<Rightarrow> bytes) \<Rightarrow> (('k \<rightharpoonup> nat) \<Rightarrow> nat list) \<Rightarrow> 'k ConnRegistry \<Rightarrow> 'k ConnRegistry" where
  "CloseAll Bytes rng p = fold (Evict Bytes) (collect rng (\<lambda>_. True) (reg_storage p)) p"

definition evictExpired :: "('k \<Rightarrow> bytes) \<Rightarrow> (('k \<rightharpoonup> nat) \<Rightarrow> nat list) \<Rightarrow> int \<Rightarrow> 'k ConnRegistry \<Rightarrow> 'k ConnRegistry" where
  "evictExpired Bytes rng now p =
     fold (Evict Bytes) (collect rng (\<lambda>w. IsExpired now (reg_heap p w)) (reg_storage p)) p"

text \<open>The cleanup loop: the period of its ticker, and what it does on a tick and when the application ends.\<close>

definition cleanupInterval :: "int \<Rightarrow> int" where
  "cleanupInterval timeout = min (max (timeout div 2) (10 * second)) (60 * second)"

datatype cleanup_event = Ticker int | Done

definition RunCleanupLoop ::
    "('k \<Rightarrow> bytes) \<Rightarrow> (('k \<rightharpoonup> nat) \<Rightarrow> nat list) \<Rightarrow> cleanup_event \<Rightarrow> 'k ConnRegistry \<Rightarrow> 'k ConnRegistry" where
  "RunCleanupLoop Bytes rng ev p = (case ev of Done \<Rightarrow> CloseAll Bytes rng p | Ticker now \<Rightarrow> evictExpired Bytes rng now p)"

text \<open>What a client does with a wrapper: a read or a write extends the deadline, \<open>Close\<close> runs the hook first.\<close>

definition conn_activity :: "('k \<Rightarrow> bytes) \<Rightarrow> int \<Rightarrow> nat \<Rightarrow> 'k ConnRegistry \<Rightarrow> bool \<times> 'k ConnRegistry" where
  "conn_activity Bytes now w p =
     (let (r, c, active) = ExtendDeadline now (reg_heap p w);
          p = p\<lparr>reg_heap := (reg_heap p)(w := c)\<rparr> in
      (r, case itc_Key c of
            Some key \<Rightarrow> if active \<and> itc_hooked c then snd (Fetch Bytes key p) else p
          | None \<Rightarrow> p))"

definition conn_Close :: "('k \<Rightarrow> bytes) \<Rightarrow> nat \<Rightarrow> 'k ConnRegistry \<Rightarrow> 'k ConnRegistry" where
  "conn_Close Bytes w p =
     (let c = reg_heap p w;
          p = (case itc_Key c of Some key \<Rightarrow> if itc_hooked c then Evict Bytes key p else p | None \<Rightarrow> p) in
      p\<lparr>reg_closed := reg_closed p @ [itc_Conn c]\<rparr>)"

section \<open>A cache that owns its values\<close>

text \<open>
  What the registry relies on beyond the contract of a cache: a value that leaves the map, by replacement, eviction or
  deletion, is handed to the callback, and no other is.
\<close>

locale owning_cache = cache +
  fixes put_calls :: "'b \<Rightarrow> 'c \<Rightarrow> 'd \<Rightarrow> 'a \<Rightarrow> ('b \<times> 'c) list"
    and del_calls :: "'b \<Rightarrow> 'a \<Rightarrow> ('b \<times> 'c) list"
  assumes put_calls: "ok c \<Longrightarrow> lookup c k \<noteq> Some v \<Longrightarrow>
      set (put_calls k v o' c) = {(j, w). lookup c j = Some w \<and> lookup (snd (put k v o' c)) j \<noteq> Some w}"
    and del_calls: "ok c \<Longrightarrow> set (del_calls k c) = {(j, w). lookup c j = Some w \<and> j = k}"
begin

text \<open>
  \<open>owned\<close>: the values of the map are objects filed under their own key, and the objects ever filed and no longer in
  the map are the ones given up.
\<close>

definition owned :: "'a \<Rightarrow> ('c \<Rightarrow> 'b) \<Rightarrow> 'c set \<Rightarrow> 'c set \<Rightarrow> bool" where
  "owned c key filed gone \<longleftrightarrow>
     (\<forall>k w. lookup c k = Some w \<longrightarrow> w \<in> filed \<and> key w = k) \<and>
     gone \<inter> filed = {w \<in> filed. lookup c (key w) \<noteq> Some w}"

lemma owned_del:
  assumes "ok c" and "owned c key filed gone"
  shows "owned (del k c) key filed (gone \<union> snd ` set (del_calls k c))"
  unfolding owned_def del_calls [OF assms(1)] del_lookup [OF assms(1)]
  using assms(2) by (auto simp: owned_def image_iff)

lemma owned_put:
  assumes "ok c" and "owned c key filed gone" and "v \<notin> filed" and "v \<notin> gone" and "key v = k"
    and "lookup (snd (put k v o' c)) k = Some v"
  shows "owned (snd (put k v o' c)) key (insert v filed) (gone \<union> snd ` set (put_calls k v o' c))"
proof -
  let ?c = "snd (put k v o' c)"
  have new: "lookup c k \<noteq> Some v"
    using assms(2,3) by (auto simp: owned_def)
  have le: "lookup ?c \<subseteq>\<^sub>m (lookup c)(k \<mapsto> v)"
    using put_le [OF assms(1) map_le_refl, of k v o'] put_refused [OF assms(1), of k v o'] assms(6) new
    by (auto split: if_splits)
  have old: "lookup ?c j = Some w \<Longrightarrow> lookup c j = Some w \<or> j = k \<and> w = v" for j w
    using map_leD [OF le, of j w] by (auto split: if_splits)
  have "lookup ?c j = Some w \<Longrightarrow> w \<in> insert v filed \<and> key w = j" for j w
    using old assms(2,5) by (auto simp: owned_def)
  moreover have "w \<in> gone \<or> w \<in> snd ` set (put_calls k v o' c) \<longleftrightarrow> lookup ?c (key w) \<noteq> Some w"
    if w: "w \<in> filed" for w
  proof -
    have "w \<noteq> v" using w assms(3) by blast
    then have "w \<in> snd ` set (put_calls k v o' c) \<longleftrightarrow> lookup c (key w) = Some w \<and> lookup ?c (key w) \<noteq> Some w"
      using assms(2) by (auto simp: put_calls [OF assms(1) new] owned_def image_iff)
    moreover have "w \<in> gone \<longleftrightarrow> lookup c (key w) \<noteq> Some w"
      using assms(2) w by (auto simp: owned_def)
    ultimately show ?thesis
      using old [of "key w" w] \<open>w \<noteq> v\<close> by blast
  qed
  moreover have "v \<notin> snd ` set (put_calls k v o' c)"
    using assms(2,3) by (auto simp: put_calls [OF assms(1) new] owned_def image_iff)
  ultimately show ?thesis
    using assms(4-6) by (auto simp: owned_def)
qed

end

text \<open>The LRU cache with its callback set is such a cache.\<close>

lemma map_of_butlast_distinct:
  assumes "distinct (map fst l)" and "l \<noteq> []"
  shows "map_of l j = Some w \<and> map_of (butlast l) j \<noteq> Some w \<longleftrightarrow> last l = (j, w)"
  using assms
proof (induction l)
  case (Cons p l)
  show ?case
  proof (cases "l = []")
    case True
    then show ?thesis by (cases p) auto
  next
    case False
    have "fst p \<notin> fst ` set l" using Cons.prems by simp
    with False have "fst (last l) \<noteq> fst p" by (metis image_eqI last_in_set)
    then show ?thesis
      using Cons False by (cases p) (auto split: if_splits)
  qed
qed simp

lemma spec_set_calls:
  assumes "distinct (map fst l)" and "map_of l k \<noteq> Some v" and "spec_set cap opts k v l = (b, l', calls)"
    and "1 \<le> cap"
  shows "set calls = {(j, w). map_of l j = Some w \<and> map_of l' j \<noteq> Some w}"
proof (cases "map_of l k")
  case (Some v0)
  then show ?thesis
    using assms by (auto simp: spec_set_def simp del: map_of_eq_Some_iff Some_eq_map_of_iff split: if_splits)
next
  case None
  have d: "distinct (map fst ((k, v) # l))"
    using assms(1) None by (simp add: map_of_eq_None_iff)
  consider "opt_updateExistingOnly opts" | "int (length l) + 1 > cap" "\<not> opt_updateExistingOnly opts"
    | "\<not> int (length l) + 1 > cap" "\<not> opt_updateExistingOnly opts" by blast
  then show ?thesis
  proof cases
    case 2
    have ne: "l \<noteq> []" using 2(1) assms(4) by auto
    have l': "l' = butlast ((k, v) # l)" "calls = [last ((k, v) # l)]"
      using assms(3) None 2 by (auto simp: spec_set_def)
    have "fst (last l) \<noteq> k"
      using ne d by (auto simp del: last_in_set) (metis image_eqI last_in_set)
    then have "last ((k, v) # l) = (j, w) \<longleftrightarrow> map_of l j = Some w \<and> map_of l' j \<noteq> Some w" for j w
      using map_of_butlast_distinct [OF d, of j w] ne None l'(1) by (auto split: if_splits)
    note last_iff = this [symmetric]
    show ?thesis unfolding last_iff l'(2) by auto
  qed (use assms(3) None in \<open>auto simp: spec_set_def\<close>)
qed

lemma lru_shard_home:
  "lru_ok Bytes c \<Longrightarrow> i < length (lru_shards c) \<Longrightarrow> map_of (lru_abs (lru_shards c ! i)) j = Some w \<Longrightarrow>
    lru_shard Bytes c j = i"
  unfolding lru_ok_def by (metis option.distinct(1))

lemma LRU_Set_calls:
  assumes "lru_ok Bytes c" and "lru_onInvalidate c" and "lru_lookup Bytes c k \<noteq> Some v"
  shows "set (snd (snd (LRU_Set Bytes k v o' c))) =
    {(j, w). lru_lookup Bytes c j = Some w \<and> lru_lookup Bytes (fst (snd (LRU_Set Bytes k v o' c))) j \<noteq> Some w}"
proof -
  define i where "i = lru_shard Bytes c k"
  obtain b s' calls where e: "shard_Set (optsOrDefault o') k v (lru_shards c ! i) = (b, s', calls)"
    by (metis prod.exhaust)
  note inv = lru_ok_inv [OF assms(1), of k, folded i_def]
  have sp: "spec_set (ls_capacity (lru_shards c ! i)) (optsOrDefault o') k v (lru_abs (lru_shards c ! i)) = (b, lru_abs s', calls)"
    using shard_Set_refines [OF inv, of "optsOrDefault o'" k v] e by simp
  have calls: "set calls = {(j, w). map_of (lru_abs (lru_shards c ! i)) j = Some w \<and> map_of (lru_abs s') j \<noteq> Some w}"
    using spec_set_calls [OF distinct_keys_abs [OF inv] _ sp] inv assms(3)
    by (simp add: lru_lookup_def i_def lru_inv_def)
  have home: "map_of (lru_abs (lru_shards c ! i)) j = Some w \<Longrightarrow> lru_shard Bytes c j = i" for j w
    using lru_shard_home [OF assms(1) lru_shard_less [OF assms(1), of k, folded i_def]] by blast
  have set: "snd (snd (LRU_Set Bytes k v o' c)) = calls"
      "fst (snd (LRU_Set Bytes k v o' c)) = c\<lparr>lru_shards := (lru_shards c)[i := s']\<rparr>"
    using e assms(2) by (simp_all add: LRU_Set_def i_def)
  have "lru_lookup Bytes c j = Some w \<and> lru_lookup Bytes (fst (snd (LRU_Set Bytes k v o' c))) j \<noteq> Some w \<longleftrightarrow>
      map_of (lru_abs (lru_shards c ! i)) j = Some w \<and> map_of (lru_abs s') j \<noteq> Some w" for j w
    using home [of j w] lru_lookup_at [of Bytes c j i]
    by (cases "lru_shard Bytes c j = i") (auto simp: set lru_update_lookup [OF assms(1) i_def])
  then show ?thesis
    unfolding set(1) calls by blast
qed

lemma LRU_Delete_calls:
  assumes "lru_ok Bytes c" and "lru_onInvalidate c"
  shows "set (snd (LRU_Delete Bytes k c)) = {(j, w). lru_lookup Bytes c j = Some w \<and> j = k}"
proof -
  define i where "i = lru_shard Bytes c k"
  note inv = lru_ok_inv [OF assms(1), of k, folded i_def]
  have "snd (LRU_Delete Bytes k c) = snd (spec_delete k (lru_abs (lru_shards c ! i)))"
    using shard_Delete_refines [OF inv, of k] assms(2)
    by (simp add: LRU_Delete_def i_def case_prod_beta Let_def) (metis snd_conv)
  then show ?thesis
    by (auto simp: spec_delete_def lru_lookup_def i_def split: option.splits)
qed

lemma LRU_onInvalidate [simp]:
  "lru_onInvalidate (snd (LRU_Get Bytes k c)) = lru_onInvalidate c"
  "lru_onInvalidate (fst (snd (LRU_Set Bytes k v o' c))) = lru_onInvalidate c"
  "lru_onInvalidate (fst (LRU_Delete Bytes k c)) = lru_onInvalidate c"
  by (simp_all add: LRU_Get_def LRU_Set_def LRU_Delete_def Let_def case_prod_beta)

interpretation owner: owning_cache "\<lambda>c. lru_ok Bytes c \<and> lru_onInvalidate c" "lru_lookup Bytes" "LRU_Get Bytes"
    "LRU_put Bytes" "LRU_del Bytes" "LRU_Has Bytes" "\<lambda>(_ :: unit) c. c"
    "\<lambda>k v o' c. snd (snd (LRU_Set Bytes k v o' c))" "\<lambda>k c. snd (LRU_Delete Bytes k c)"
  for Bytes :: "'k \<Rightarrow> bytes"
  by unfold_locales
    (simp_all add: lru.get_ok lru.get_lookup lru.get_keeps lru.put_ok lru.put_refused lru.put_lookup lru.del_ok
      lru.del_lookup lru.has_lookup LRU_put_def LRU_del_def LRU_Set_calls LRU_Delete_calls LRU_Set_eqs LRU_Delete_eqs)

section \<open>The registry owns its connections\<close>

abbreviation raw_of :: "'k ConnRegistry \<Rightarrow> nat \<Rightarrow> nat" where
  "raw_of p w \<equiv> itc_Conn (reg_heap p w)"

abbreviation key_of :: "'k ConnRegistry \<Rightarrow> nat \<Rightarrow> 'k" where
  "key_of p w \<equiv> the (itc_Key (reg_heap p w))"

definition reg_inv :: "('k \<Rightarrow> bytes) \<Rightarrow> 'k ConnRegistry \<Rightarrow> bool" where
  "reg_inv Bytes p \<longleftrightarrow> lru_ok Bytes (reg_storage p) \<and> lru_onInvalidate (reg_storage p) \<and>
     inj_on (raw_of p) {..<reg_next p} \<and>
     (\<forall>w < reg_next p. itc_hooked (reg_heap p w) \<and> itc_Key (reg_heap p w) \<noteq> None) \<and>
     owner.owned Bytes (reg_storage p) (key_of p) {..<reg_next p} {w. raw_of p w \<in> set (reg_closed p)}"

lemma owned_cong:
  assumes "owner.owned Bytes c key filed gone" and "lru_lookup Bytes c' = lru_lookup Bytes c"
    and "\<And>w. w \<in> filed \<Longrightarrow> key' w = key w" and "gone' \<inter> filed = gone \<inter> filed"
  shows "owner.owned Bytes c' key' filed gone'"
proof -
  have "{w \<in> filed. lru_lookup Bytes c (key' w) \<noteq> Some w} = {w \<in> filed. lru_lookup Bytes c (key w) \<noteq> Some w}"
    using assms(3) by auto
  then show ?thesis
    using assms(1,3) unfolding owner.owned_def assms(2,4) by presburger
qed

lemma onInvalidate_simps [simp]:
  "reg_storage (onInvalidate calls p) = reg_storage p" "reg_timeout (onInvalidate calls p) = reg_timeout p"
  "reg_heap (onInvalidate calls p) = reg_heap p" "reg_next (onInvalidate calls p) = reg_next p"
  "set (reg_closed (onInvalidate calls p)) = set (reg_closed p) \<union> raw_of p ` snd ` set calls"
  by (simp_all add: onInvalidate_def image_image case_prod_beta)

lemma NewConnRegistry_inv:
  assumes "NewConnRegistry capacity timeout = Inr p"
  shows "reg_inv Bytes p \<and> reg_next p = 0"
proof -
  obtain s where s: "(NewLRUCache 16 capacity True :: (unit, _) res) = Inr s" and p: "reg_storage p = s" "reg_next p = 0"
    using assms by (auto simp: NewConnRegistry_def bindR_def split: sum.splits)
  have "lru_onInvalidate s"
    using s by (auto simp: NewLRUCache_def Let_def split: if_splits)
  then show ?thesis
    using NewLRUCache_ok [OF s, of Bytes] p by (simp add: reg_inv_def owner.owned_def)
qed

lemma Evict_simps [simp]:
  "reg_heap (Evict Bytes k p) = reg_heap p" "reg_next (Evict Bytes k p) = reg_next p"
  "reg_timeout (Evict Bytes k p) = reg_timeout p"
  by (simp_all add: Evict_def case_prod_beta Let_def)

lemma Evict_inv:
  assumes "reg_inv Bytes p"
  shows "reg_inv Bytes (Evict Bytes k p)"
    and "lru_lookup Bytes (reg_storage (Evict Bytes k p)) = (lru_lookup Bytes (reg_storage p))(k := None)"
proof -
  let ?calls = "snd (LRU_Delete Bytes k (reg_storage p))"
  have ok: "lru_ok Bytes (reg_storage p)" "lru_onInvalidate (reg_storage p)"
    and inj: "inj_on (raw_of p) {..<reg_next p}"
    using assms by (auto simp: reg_inv_def)
  have st: "reg_storage (Evict Bytes k p) = LRU_del Bytes k (reg_storage p)"
    and cl: "set (reg_closed (Evict Bytes k p)) = set (reg_closed p) \<union> raw_of p ` snd ` set ?calls"
    by (simp_all add: Evict_def LRU_del_def case_prod_beta Let_def)
  show "lru_lookup Bytes (reg_storage (Evict Bytes k p)) = (lru_lookup Bytes (reg_storage p))(k := None)"
    by (simp add: st lru.del_lookup [OF ok(1)])
  have filed: "snd ` set ?calls \<subseteq> {..<reg_next p}"
    using assms by (auto simp: reg_inv_def owner.owned_def LRU_Delete_calls [OF ok])
  have "owner.owned Bytes (LRU_del Bytes k (reg_storage p)) (key_of p) {..<reg_next p}
      ({w. raw_of p w \<in> set (reg_closed p)} \<union> snd ` set ?calls)"
    using owner.owned_del [of Bytes "reg_storage p" "key_of p"] assms by (simp add: reg_inv_def)
  moreover have "{w. raw_of p w \<in> set (reg_closed p) \<union> raw_of p ` snd ` set ?calls} \<inter> {..<reg_next p} =
      ({w. raw_of p w \<in> set (reg_closed p)} \<union> snd ` set ?calls) \<inter> {..<reg_next p}"
    using filed inj_onD [OF inj] by (auto simp: image_iff)
  ultimately have "owner.owned Bytes (reg_storage (Evict Bytes k p)) (key_of (Evict Bytes k p)) {..<reg_next p}
      {w. raw_of p w \<in> set (reg_closed (Evict Bytes k p))}"
    unfolding st cl using owned_cong by fastforce
  then show "reg_inv Bytes (Evict Bytes k p)"
    using assms ok by (simp add: reg_inv_def st lru.del_ok) (simp add: LRU_del_def)
qed

lemma Store_simps:
  assumes "Store Bytes now k raw p = (w, p')"
  shows "w = reg_next p" and "reg_next p' = Suc w"
    and "reg_heap p' = (reg_heap p)(w := (NewIdleTimeoutConn now raw (reg_timeout p))\<lparr>itc_Key := Some k, itc_hooked := True\<rparr>)"
    and "reg_storage p' = snd (LRU_put Bytes k w None (reg_storage p))"
    and "set (reg_closed p') =
      set (reg_closed p) \<union> raw_of p' ` snd ` set (snd (snd (LRU_Set Bytes k w None (reg_storage p))))"
proof -
  define p1 where "p1 = p\<lparr>reg_heap := (reg_heap p)(reg_next p :=
      (NewIdleTimeoutConn now raw (reg_timeout p))\<lparr>itc_Key := Some k, itc_hooked := True\<rparr>),
    reg_next := Suc (reg_next p), reg_storage := snd (LRU_put Bytes k (reg_next p) None (reg_storage p))\<rparr>"
  have w: "w = reg_next p"
    and p': "p' = onInvalidate (snd (snd (LRU_Set Bytes k (reg_next p) None (reg_storage p)))) p1"
    using assms by (auto simp: Store_def LRU_put_def case_prod_beta Let_def p1_def)
  show "w = reg_next p"
    by (rule w)
  show "reg_next p' = Suc w"
    "reg_heap p' = (reg_heap p)(w := (NewIdleTimeoutConn now raw (reg_timeout p))\<lparr>itc_Key := Some k, itc_hooked := True\<rparr>)"
    "reg_storage p' = snd (LRU_put Bytes k w None (reg_storage p))"
    "set (reg_closed p') =
      set (reg_closed p) \<union> raw_of p' ` snd ` set (snd (snd (LRU_Set Bytes k w None (reg_storage p))))"
    unfolding p' w onInvalidate_simps by (simp_all add: p1_def)
qed

lemma NewIdleTimeoutConn_simps [simp]: "itc_Conn (NewIdleTimeoutConn now raw t) = raw"
  by (simp add: NewIdleTimeoutConn_def Let_def)

text \<open>A set without options is never refused.\<close>

lemma LRU_put_default [simp]: "fst (LRU_put Bytes k v None c)"
  by (simp add: LRU_put_def LRU_Set_def shard_Set_def optsOrDefault_def Options_def Let_def case_prod_beta
      split: option.split)

lemma LRU_put_stored:
  "lru_ok Bytes c \<Longrightarrow> lru_lookup Bytes (snd (LRU_put Bytes k v None c)) k = Some v"
  using LRU_Set_eqs(4) [of Bytes c k v None] LRU_put_default [of Bytes k v c] by (simp add: LRU_put_def)

lemma Store_inv:
  assumes "reg_inv Bytes p" and "raw \<notin> set (reg_closed p)" and "\<forall>w < reg_next p. raw_of p w \<noteq> raw"
    and "Store Bytes now k raw p = (w, p')"
  shows "reg_inv Bytes p'" and "lru_lookup Bytes (reg_storage p') k = Some w"
proof -
  note st = Store_simps [OF assms(4)]
  let ?calls = "snd (snd (LRU_Set Bytes k w None (reg_storage p)))"
  let ?filed = "{..<reg_next p}" and ?gone = "{w. raw_of p w \<in> set (reg_closed p)} \<inter> {..<reg_next p}"
  have ok: "lru_ok Bytes (reg_storage p)" "lru_onInvalidate (reg_storage p)"
    and inj: "inj_on (raw_of p) ?filed"
    and own: "owner.owned Bytes (reg_storage p) (key_of p) ?filed {w. raw_of p w \<in> set (reg_closed p)}"
    using assms(1) by (auto simp: reg_inv_def)
  show look: "lru_lookup Bytes (reg_storage p') k = Some w"
    by (simp add: st LRU_put_stored [OF ok(1)])
  have "owner.owned Bytes (reg_storage p) (key_of p') ?filed ?gone"
    using own by (rule owned_cong) (auto simp: st)
  then have own': "owner.owned Bytes (reg_storage p') (key_of p') (insert w ?filed) (?gone \<union> snd ` set ?calls)"
    unfolding st(4) by (rule owner.owned_put [rotated]) (use ok LRU_put_stored [OF ok(1)] st(1,3) in auto)
  have "lru_lookup Bytes (reg_storage p) k \<noteq> Some w"
    using own st(1) by (auto simp: owner.owned_def)
  then have filed: "snd ` set ?calls \<subseteq> ?filed"
    using own by (auto simp: LRU_Set_calls [OF ok] owner.owned_def)
  have set: "insert w ?filed = {..<reg_next p'}"
    using st(1,2) by auto
  have inj': "inj_on (raw_of p') {..<reg_next p'}"
    unfolding set [symmetric] using inj assms(3) st(1) by (auto simp: inj_on_def st(3))
  have raw: "raw_of p' ` snd ` set ?calls = raw_of p ` snd ` set ?calls"
    using filed st(1) by (intro image_cong) (auto simp: st(3))
  have "(raw_of p' v \<in> set (reg_closed p')) = (v \<in> ?gone \<union> snd ` set ?calls)" if "v \<in> insert w ?filed" for v
  proof (cases "v = w")
    case True
    then show ?thesis
      using filed assms(2,3) st(1) unfolding st(5) raw by (auto simp: st(3) image_iff subset_iff)
  next
    case False
    then have "v \<in> ?filed" using that by blast
    then show ?thesis
      using filed inj_onD [OF inj, of v] False unfolding st(5) raw by (auto simp: st(3) image_iff subset_iff)
  qed
  then have "{v. raw_of p' v \<in> set (reg_closed p')} \<inter> insert w ?filed =
      (?gone \<union> snd ` set ?calls) \<inter> insert w ?filed"
    by blast
  then have "owner.owned Bytes (reg_storage p') (key_of p') {..<reg_next p'} {v. raw_of p' v \<in> set (reg_closed p')}"
    using owned_cong [OF own' refl refl] set by simp
  moreover have "lru_ok Bytes (reg_storage p')" "lru_onInvalidate (reg_storage p')"
    using ok by (simp_all add: st(4) lru.put_ok) (simp add: LRU_put_def)
  moreover have "\<forall>v < reg_next p'. itc_hooked (reg_heap p' v) \<and> itc_Key (reg_heap p' v) \<noteq> None"
    using assms(1) st(1) by (simp add: reg_inv_def st(2,3) less_Suc_eq)
  ultimately show "reg_inv Bytes p'"
    using inj' by (simp add: reg_inv_def)
qed

lemma reg_inv_owns:
  assumes "reg_inv Bytes p" and "w < reg_next p"
  shows "raw_of p w \<in> set (reg_closed p) \<longleftrightarrow> lru_lookup Bytes (reg_storage p) (key_of p w) \<noteq> Some w"
  using assms by (auto simp: reg_inv_def owner.owned_def)

lemma reg_inv_heap:
  assumes "reg_inv Bytes p" and "itc_Conn c = raw_of p w" and "itc_Key c = itc_Key (reg_heap p w)"
    and "itc_hooked c = itc_hooked (reg_heap p w)"
  shows "reg_inv Bytes (p\<lparr>reg_heap := (reg_heap p)(w := c)\<rparr>)"
proof -
  have "itc_Conn (((reg_heap p)(w := c)) v) = raw_of p v" "itc_Key (((reg_heap p)(w := c)) v) = itc_Key (reg_heap p v)"
      "itc_hooked (((reg_heap p)(w := c)) v) = itc_hooked (reg_heap p v)" for v
    using assms(2-4) by simp_all
  then show ?thesis
    using assms(1) by (simp add: reg_inv_def)
qed

lemma Fetch_inv:
  assumes "reg_inv Bytes p"
  shows "reg_inv Bytes (snd (Fetch Bytes k p))"
    and "fst (Fetch Bytes k p) = lru_lookup Bytes (reg_storage p) k"
    and "lru_lookup Bytes (reg_storage (snd (Fetch Bytes k p))) = lru_lookup Bytes (reg_storage p)"
proof -
  have ok: "lru_ok Bytes (reg_storage p)" using assms by (simp add: reg_inv_def)
  show "fst (Fetch Bytes k p) = lru_lookup Bytes (reg_storage p) k"
    and look: "lru_lookup Bytes (reg_storage (snd (Fetch Bytes k p))) = lru_lookup Bytes (reg_storage p)"
    by (simp_all add: Fetch_def case_prod_beta Let_def lru.get_lookup [OF ok] lru.get_keeps [OF ok])
  show "reg_inv Bytes (snd (Fetch Bytes k p))"
    using assms lru.get_ok [OF ok, of k] lru.get_keeps [OF ok, of k]
    by (simp add: reg_inv_def Fetch_def case_prod_beta Let_def owner.owned_def)
qed

lemma Fetch_simps [simp]:
  "reg_heap (snd (Fetch Bytes k p)) = reg_heap p" "reg_next (snd (Fetch Bytes k p)) = reg_next p"
  "reg_closed (snd (Fetch Bytes k p)) = reg_closed p"
  by (simp_all add: Fetch_def case_prod_beta Let_def)

lemma ExtendDeadline_keeps:
  assumes "ExtendDeadline now c = (r, c', active)"
  shows "itc_Conn c' = itc_Conn c" "itc_Key c' = itc_Key c" "itc_hooked c' = itc_hooked c" "itc_Timeout c' = itc_Timeout c"
  using assms by (auto simp: ExtendDeadline_def Let_def split: if_splits)

lemma conn_activity_inv:
  assumes "reg_inv Bytes p"
  shows "reg_inv Bytes (snd (conn_activity Bytes now w p))"
proof -
  obtain r c active where e: "ExtendDeadline now (reg_heap p w) = (r, c, active)" by (metis prod.exhaust)
  have inv: "reg_inv Bytes (p\<lparr>reg_heap := (reg_heap p)(w := c)\<rparr>)"
    using assms ExtendDeadline_keeps [OF e] by (intro reg_inv_heap) simp_all
  then show ?thesis
    using Fetch_inv(1) [OF inv] by (simp add: conn_activity_def e Let_def split: option.split)
qed

lemma conn_Close_inv:
  assumes "reg_inv Bytes p" and "w < reg_next p"
  shows "reg_inv Bytes (conn_Close Bytes w p)"
    and "lru_lookup Bytes (reg_storage (conn_Close Bytes w p)) = (lru_lookup Bytes (reg_storage p))(key_of p w := None)"
proof -
  obtain k where k: "itc_Key (reg_heap p w) = Some k" "itc_hooked (reg_heap p w)"
    using assms by (auto simp: reg_inv_def)
  note ev = Evict_inv [OF assms(1), of k]
  have cl: "conn_Close Bytes w p =
      (Evict Bytes k p)\<lparr>reg_closed := reg_closed (Evict Bytes k p) @ [raw_of p w]\<rparr>"
    by (simp add: conn_Close_def k Let_def)
  have "raw_of p w \<in> set (reg_closed (Evict Bytes k p))"
    using ev assms(2) k(1) by (auto simp: reg_inv_def owner.owned_def)
  then have "set (reg_closed (conn_Close Bytes w p)) = set (reg_closed (Evict Bytes k p))"
    by (auto simp: cl)
  then show "reg_inv Bytes (conn_Close Bytes w p)"
    using ev(1) by (simp add: reg_inv_def cl insert_absorb)
  show "lru_lookup Bytes (reg_storage (conn_Close Bytes w p)) =
      (lru_lookup Bytes (reg_storage p))(key_of p w := None)"
    by (simp add: cl ev(2) k(1))
qed

lemma Evict_fold:
  assumes "reg_inv Bytes p"
  shows "reg_inv Bytes (fold (Evict Bytes) ks p)"
    and "lru_lookup Bytes (reg_storage (fold (Evict Bytes) ks p)) =
      (\<lambda>k. if k \<in> set ks then None else lru_lookup Bytes (reg_storage p) k)"
    and "reg_heap (fold (Evict Bytes) ks p) = reg_heap p" and "reg_next (fold (Evict Bytes) ks p) = reg_next p"
  using assms by (induction ks arbitrary: p) (auto simp: Evict_inv fun_eq_iff)

text \<open>\<open>ForEach\<close> visits every entry, if Go's range over a map does.\<close>

definition ranges :: "(('k \<rightharpoonup> nat) \<Rightarrow> nat list) \<Rightarrow> bool" where
  "ranges rng \<longleftrightarrow> (\<forall>m. finite (dom m) \<longrightarrow> set (rng m) = ran m)"

lemma each_collect:
  "each (\<lambda>k w st. (None :: unit option, if P w then st @ [k] else st)) kvs st =
     (None, st @ map fst (filter (\<lambda>(k, w). P w) kvs))"
  by (induction kvs arbitrary: st) auto

lemma each_shard_collect:
  "each_shard entries (\<lambda>k w st. (None :: unit option, if P w then st @ [k] else st)) ss st =
     (None, st @ map fst (filter (\<lambda>(k, w). P w) (concat (map entries ss))))"
  by (induction ss arbitrary: st) (simp_all add: each_collect)

lemma shard_entries:
  assumes "lru_inv s" and "ranges rng"
  shows "set (map (\<lambda>e. (entry_key (deref s e), entry_value (deref s e))) (rng (ls_items s))) =
    {(k, w). map_of (lru_abs s) k = Some w}"
proof -
  have items: "ls_items s k = Some e \<longleftrightarrow> e \<in> set (ls_list s) \<and> fst (kv s e) = k" for k e
    by (rule lru_inv_items [OF assms(1)])
  have "dom (ls_items s) = (\<lambda>e. fst (kv s e)) ` set (ls_list s)" "ran (ls_items s) = set (ls_list s)"
    using items by (auto simp: ran_def dom_def)
  then have "set (rng (ls_items s)) = set (ls_list s)"
    using assms(2) by (simp add: ranges_def)
  then show ?thesis
    using items by (auto simp: map_of_abs [OF assms(1)] kv_def)
qed

lemma collect_keys:
  assumes "lru_ok Bytes c" and "ranges rng"
  shows "set (collect rng P c) = {k. \<exists>w. lru_lookup Bytes c k = Some w \<and> P w}"
proof -
  let ?entries = "\<lambda>s. map (\<lambda>e. (entry_key (deref s e), entry_value (deref s e))) (rng (ls_items s))"
  have sh: "s \<in> set (lru_shards c) \<Longrightarrow> set (?entries s) = {(k, w). map_of (lru_abs s) k = Some w}" for s
    using shard_entries [OF _ assms(2), of s] assms(1) by (simp add: lru_ok_def list_all_iff)
  have "(k, w) \<in> (\<Union>s \<in> set (lru_shards c). set (?entries s)) \<longleftrightarrow> lru_lookup Bytes c k = Some w" for k w
  proof
    assume "(k, w) \<in> (\<Union>s \<in> set (lru_shards c). set (?entries s))"
    then obtain s where s: "s \<in> set (lru_shards c)" "(k, w) \<in> set (?entries s)" by blast
    then have "map_of (lru_abs s) k = Some w" using sh [OF s(1)] by blast
    then obtain i where i: "i < length (lru_shards c)" "map_of (lru_abs (lru_shards c ! i)) k = Some w"
      using s(1) by (auto simp: in_set_conv_nth)
    then show "lru_lookup Bytes c k = Some w"
      using lru_shard_home [OF assms(1) i] by (simp add: lru_lookup_def)
  next
    assume look: "lru_lookup Bytes c k = Some w"
    let ?s = "lru_shards c ! lru_shard Bytes c k"
    have s: "?s \<in> set (lru_shards c)"
      by (rule nth_mem [OF lru_shard_less [OF assms(1)]])
    have "(k, w) \<in> set (?entries ?s)"
      unfolding sh [OF s] using look by (simp add: lru_lookup_def)
    with s show "(k, w) \<in> (\<Union>s \<in> set (lru_shards c). set (?entries s))" by (rule UN_I)
  qed
  note entry = this
  have "set (collect rng P c) = fst ` {(k, w) \<in> (\<Union>s \<in> set (lru_shards c). set (?entries s)). P w}"
    by (auto simp: collect_def LRU_ForEach_def each_shard_collect)
  then show ?thesis using entry by (auto simp: image_iff)
qed

text \<open>All runs of a registry; a stored connection is new and open, and clients use the wrappers they were given.\<close>

inductive registry :: "('k \<Rightarrow> bytes) \<Rightarrow> (('k \<rightharpoonup> nat) \<Rightarrow> nat list) \<Rightarrow> 'k ConnRegistry \<Rightarrow> bool"
  for Bytes :: "'k \<Rightarrow> bytes" and rng :: "('k \<rightharpoonup> nat) \<Rightarrow> nat list" where
  new: "NewConnRegistry capacity timeout = Inr p \<Longrightarrow> registry Bytes rng p"
| store: "registry Bytes rng p \<Longrightarrow> raw \<notin> set (reg_closed p) \<Longrightarrow> \<forall>w < reg_next p. raw_of p w \<noteq> raw \<Longrightarrow>
    Store Bytes now k raw p = (w, p') \<Longrightarrow> registry Bytes rng p'"
| fetch: "registry Bytes rng p \<Longrightarrow> registry Bytes rng (snd (Fetch Bytes k p))"
| evict: "registry Bytes rng p \<Longrightarrow> registry Bytes rng (Evict Bytes k p)"
| activity: "registry Bytes rng p \<Longrightarrow> w < reg_next p \<Longrightarrow> registry Bytes rng (snd (conn_activity Bytes now w p))"
| close: "registry Bytes rng p \<Longrightarrow> w < reg_next p \<Longrightarrow> registry Bytes rng (conn_Close Bytes w p)"
| cleanup: "registry Bytes rng p \<Longrightarrow> registry Bytes rng (RunCleanupLoop Bytes rng ev p)"

lemma RunCleanupLoop_fold:
  "\<exists>P. RunCleanupLoop Bytes rng ev p = fold (Evict Bytes) (collect rng P (reg_storage p)) p"
  by (cases ev) (auto simp: RunCleanupLoop_def CloseAll_def evictExpired_def)

lemma registry_inv: "registry Bytes rng p \<Longrightarrow> reg_inv Bytes p"
proof (induction rule: registry.induct)
  case (cleanup p ev)
  then show ?case using RunCleanupLoop_fold [of Bytes rng ev p] Evict_fold(1) by metis
qed (auto simp: NewConnRegistry_inv Fetch_inv Evict_inv conn_activity_inv conn_Close_inv intro: Store_inv)

lemma sample_registry:
  obtains p :: "'k ConnRegistry" where "NewConnRegistry 16 60 = Inr p" "reg_next p = 0" "reg_closed p = []"
proof -
  have "\<exists>s :: ('k, nat) LRUCache. (NewLRUCache 16 16 True :: (unit, _) res) = Inr s"
    by (simp add: NewLRUCache_def)
  then show ?thesis
    by (auto simp: NewConnRegistry_def bindR_def intro: that)
qed

text \<open>
  C38: the registry neither leaks nor hands out a closed connection. In every run of its operations, of reads, writes
  and closes of the wrappers it returned, and of the cleanup loop, a connection that was stored is either the one
  that its key finds, and then it has not been closed, or it is no longer found and has been closed.
\<close>

theorem registry_owns:
  assumes "registry Bytes rng p" and "w < reg_next p"
  shows "itc_Conn (reg_heap p w) \<in> set (reg_closed p) \<longleftrightarrow>
    fst (Fetch Bytes (the (itc_Key (reg_heap p w))) p) \<noteq> Some w"
proof -
  have inv: "reg_inv Bytes p" by (rule registry_inv [OF assms(1)])
  then show ?thesis
    using reg_inv_owns [OF inv assms(2)] Fetch_inv(2) [OF inv] by simp
qed

theorem registry_owns_witness:
  "case NewConnRegistry 16 60 of
     Inr p \<Rightarrow> (case Store (\<lambda>k. [k]) 0 (1 :: byte) 7 p of (w, p') \<Rightarrow>
       itc_Conn (reg_heap p' w) \<in> set (reg_closed p') \<longleftrightarrow> fst (Fetch (\<lambda>k. [k]) 1 p') \<noteq> Some w)
   | Inl _ \<Rightarrow> False"
proof -
  obtain p :: "byte ConnRegistry" where p: "NewConnRegistry 16 60 = Inr p" "reg_next p = 0" "reg_closed p = []"
    by (rule sample_registry)
  obtain w p' where st: "Store (\<lambda>k. [k]) 0 1 7 p = (w, p')" by fastforce
  have r: "registry (\<lambda>k. [k]) (\<lambda>m. []) p'"
    by (rule registry.store [OF registry.new [OF p(1)] _ _ st]) (simp_all add: p)
  have "w < reg_next p'" "itc_Key (reg_heap p' w) = Some 1"
    by (simp_all add: Store_simps(2,3) [OF st])
  with registry_owns [OF r] show ?thesis
    by (simp add: p(1) st)
qed

text \<open>
  A pass of the cleanup loop removes exactly the idle connections. After a tick at time \<open>now\<close> a key finds the
  connection it found before, unless that one's idle timeout has passed, and when the application ends no key finds
  any; by the ownership property the removed ones are closed.
\<close>

lemma cleanup_exact:
  assumes "registry Bytes rng p" and "ranges rng"
  shows "fst (Fetch Bytes k (RunCleanupLoop Bytes rng ev p)) =
    (case fst (Fetch Bytes k p) of
       None \<Rightarrow> None
     | Some w \<Rightarrow> (case ev of Done \<Rightarrow> None | Ticker now \<Rightarrow> if IsExpired now (reg_heap p w) then None else Some w))"
proof -
  have inv: "reg_inv Bytes p" by (rule registry_inv [OF assms(1)])
  then have ok: "lru_ok Bytes (reg_storage p)" by (simp add: reg_inv_def)
  show ?thesis
    using collect_keys [OF ok assms(2)]
    by (auto simp: RunCleanupLoop_def CloseAll_def evictExpired_def Fetch_inv(2) [OF inv]
        Fetch_inv(2) [OF Evict_fold(1) [OF inv]] Evict_fold(2) [OF inv] split: cleanup_event.split option.split)
qed

lemma cleanup_exact_sample:
  "case NewConnRegistry 16 60 of
     Inr p \<Rightarrow> fst (Fetch (\<lambda>k. [k]) 1 (RunCleanupLoop (\<lambda>k. [k]) (\<lambda>m. sorted_list_of_set (ran m)) Done
       (snd (Store (\<lambda>k. [k]) 0 (1 :: byte) 7 p)))) = None
   | Inl _ \<Rightarrow> False"
proof -
  let ?rng = "\<lambda>m :: byte \<rightharpoonup> nat. sorted_list_of_set (ran m)"
  obtain p :: "byte ConnRegistry" where p: "NewConnRegistry 16 60 = Inr p" "reg_next p = 0" "reg_closed p = []"
    by (rule sample_registry)
  obtain w p' where st: "Store (\<lambda>k. [k]) 0 1 7 p = (w, p')" by fastforce
  have r: "registry (\<lambda>k. [k]) ?rng p'"
    by (rule registry.store [OF registry.new [OF p(1)] _ _ st]) (simp_all add: p)
  have "ranges ?rng"
    by (auto simp: ranges_def finite_ran)
  from cleanup_exact [OF r this, of 1 Done] show ?thesis
    by (simp add: p(1) st split: option.splits)
qed

text \<open>
  Closing a wrapper that the registry has already replaced closes the connection that replaced it. Storing a
  second connection under the key of a first closes the first; if the client of the first then closes its wrapper,
  the hook evicts the key, and the second connection is closed and forgotten although nobody asked for that.
\<close>

lemma stale_close_evicts:
  assumes "registry Bytes rng p" and "a \<noteq> b" and "{a, b} \<inter> set (reg_closed p) = {}"
    and "\<forall>w < reg_next p. itc_Conn (reg_heap p w) \<notin> {a, b}"
    and "Store Bytes t1 k a p = (w1, p1)" and "Store Bytes t2 k b p1 = (w2, p2)"
  shows "fst (Fetch Bytes k p2) = Some w2 \<and> b \<notin> set (reg_closed p2) \<and>
    fst (Fetch Bytes k (conn_Close Bytes w1 p2)) = None \<and> b \<in> set (reg_closed (conn_Close Bytes w1 p2))"
proof -
  note s1 = Store_simps [OF assms(5)] and s2 = Store_simps [OF assms(6)]
  have r1: "registry Bytes rng p1"
    using registry.store [OF assms(1) _ _ assms(5)] assms(3,4) by auto
  have "b \<notin> set (reg_closed p1)"
  proof
    assume "b \<in> set (reg_closed p1)"
    then obtain c where "c \<in> snd ` set (snd (snd (LRU_Set Bytes k w1 None (reg_storage p))))" "raw_of p1 c = b"
      using assms(3) s1(5) by auto
    moreover have "lru_lookup Bytes (reg_storage p) k \<noteq> Some w1" "lru_ok Bytes (reg_storage p)"
        "lru_onInvalidate (reg_storage p)"
      using registry_inv [OF assms(1)] s1(1) by (auto simp: reg_inv_def owner.owned_def)
    ultimately obtain j where "lru_lookup Bytes (reg_storage p) j = Some c"
      by (auto simp: LRU_Set_calls)
    then have "c < reg_next p"
      using registry_inv [OF assms(1)] by (auto simp: reg_inv_def owner.owned_def)
    then show False
      using assms(4) s1(1,3) \<open>raw_of p1 c = b\<close> by auto
  qed
  moreover have "\<forall>w < reg_next p1. raw_of p1 w \<noteq> b"
    using assms(2,4) s1(1-3) by (auto simp: less_Suc_eq)
  ultimately have r2: "registry Bytes rng p2" and look: "lru_lookup Bytes (reg_storage p2) k = Some w2"
    using registry.store [OF r1 _ _ assms(6)] Store_inv(2) [OF registry_inv [OF r1] _ _ assms(6)] by auto
  note i2 = registry_inv [OF r2]
  have w1: "w1 < reg_next p2" "key_of p2 w1 = k" "raw_of p2 w2 = b" "key_of p2 w2 = k" "w2 < reg_next p2"
    using s1(1-3) s2(1-3) by auto
  note cl = conn_Close_inv [OF i2 w1(1)]
  have closed: "reg_heap (conn_Close Bytes w1 p2) = reg_heap p2" "reg_next (conn_Close Bytes w1 p2) = reg_next p2"
    by (simp_all add: conn_Close_def Let_def split: option.split)
  show ?thesis
    using reg_inv_owns [OF i2 w1(5)] reg_inv_owns [OF cl(1), of w2] cl(2) look w1 closed
    by (simp add: Fetch_inv(2) [OF i2] Fetch_inv(2) [OF cl(1)])
qed

lemma stale_close_evicts_witness:
  "case NewConnRegistry 16 60 of
     Inr p \<Rightarrow> (case Store (\<lambda>k. [k]) 0 (1 :: byte) 7 p of (w1, p1) \<Rightarrow> (case Store (\<lambda>k. [k]) 5 1 8 p1 of (w2, p2) \<Rightarrow>
       fst (Fetch (\<lambda>k. [k]) 1 (conn_Close (\<lambda>k. [k]) w1 p2)) = None \<and>
       8 \<in> set (reg_closed (conn_Close (\<lambda>k. [k]) w1 p2))))
   | Inl _ \<Rightarrow> False"
proof -
  obtain p :: "byte ConnRegistry" where p: "NewConnRegistry 16 60 = Inr p" "reg_next p = 0" "reg_closed p = []"
    by (rule sample_registry)
  obtain w1 p1 where s1: "Store (\<lambda>k. [k]) 0 1 7 p = (w1, p1)" by fastforce
  obtain w2 p2 where s2: "Store (\<lambda>k. [k]) 5 1 8 p1 = (w2, p2)" by fastforce
  have r: "registry (\<lambda>k. [k]) (\<lambda>m. []) p" by (rule registry.new [OF p(1)])
  from stale_close_evicts [OF r _ _ _ s1 s2] show ?thesis
    by (simp add: p s1 s2)
qed

section \<open>Idle connections\<close>

text \<open>The results of \<open>ExtendDeadline\<close> at a sequence of times.\<close>

fun activities :: "int list \<Rightarrow> 'k IdleTimeoutConn \<Rightarrow> bool list" where
  "activities [] c = []"
| "activities (t # ts) c = (let (r, c', _) = ExtendDeadline t c in r # activities ts c')"

definition alive :: "int \<Rightarrow> int \<Rightarrow> 'k IdleTimeoutConn \<Rightarrow> bool" where
  "alive timeout t c \<longleftrightarrow> itc_Timeout c = timeout \<and> 0 < itc_expiredAt c \<and> t + timeout * 7 div 10 \<le> itc_expiredAt c \<and>
     itc_expiredAt c \<le> t + timeout"

lemma ExtendDeadline_alive:
  assumes "alive timeout t c" and "t \<le> now" and "0 < timeout"
  shows "now \<le> itc_expiredAt c \<Longrightarrow> \<exists>c' a. ExtendDeadline now c = (True, c', a) \<and> alive timeout now c'"
    and "itc_expiredAt c < now \<Longrightarrow> ExtendDeadline now c = (False, c, False)"
  using assms by (auto simp: ExtendDeadline_def alive_def Let_def)

lemma activities_expired:
  "0 < itc_expiredAt c \<Longrightarrow> list_all (\<lambda>t. itc_expiredAt c < t) ts \<Longrightarrow> activities ts c = replicate (length ts) False"
  by (induction ts) (auto simp: ExtendDeadline_def)

text \<open>The gaps between consecutive times, from a start.\<close>

fun gaps :: "int \<Rightarrow> int list \<Rightarrow> int list" where
  "gaps t [] = []"
| "gaps t (u # us) = (u - t) # gaps u us"

lemma activities_alive:
  assumes "alive timeout t c" and "0 < timeout" and "sorted (t # ts)"
  shows "list_all (\<lambda>g. g \<le> timeout * 7 div 10) (gaps t ts) \<Longrightarrow> activities ts c = replicate (length ts) True"
    and "\<exists>n \<le> length ts. activities ts c = replicate n True @ replicate (length ts - n) False \<and>
      list_all (\<lambda>g. g \<le> timeout) (take n (gaps t ts))"
proof -
  show "list_all (\<lambda>g. g \<le> timeout * 7 div 10) (gaps t ts) \<Longrightarrow> activities ts c = replicate (length ts) True"
    using assms
  proof (induction ts arbitrary: t c)
    case (Cons u ts)
    have "u \<le> itc_expiredAt c" using Cons.prems by (simp add: alive_def)
    from ExtendDeadline_alive(1) [OF Cons.prems(2) _ assms(2) this] Cons show ?case by auto
  qed simp
  show "\<exists>n \<le> length ts. activities ts c = replicate n True @ replicate (length ts - n) False \<and>
      list_all (\<lambda>g. g \<le> timeout) (take n (gaps t ts))"
    using assms
  proof (induction ts arbitrary: t c)
    case (Cons u ts)
    show ?case
    proof (cases "u \<le> itc_expiredAt c")
      case True
      from ExtendDeadline_alive(1) [OF Cons.prems(1) _ assms(2) this] Cons.prems(3)
      obtain c' a where e: "ExtendDeadline u c = (True, c', a)" "alive timeout u c'" by auto
      from Cons.IH [OF e(2) assms(2)] Cons.prems(3) obtain n where n: "n \<le> length ts"
        "activities ts c' = replicate n True @ replicate (length ts - n) False"
        "list_all (\<lambda>g. g \<le> timeout) (take n (gaps u ts))" by auto
      have "u - t \<le> timeout" using True Cons.prems(1) by (simp add: alive_def)
      then show ?thesis using n e by (intro exI [of _ "Suc n"]) simp
    next
      case False
      then have "list_all (\<lambda>t. itc_expiredAt c < t) (u # ts)"
        using Cons.prems(3) by (auto simp: list_all_iff)
      then have "activities (u # ts) c = replicate (length (u # ts)) False"
        using activities_expired Cons.prems(1) unfolding alive_def by blast
      then show ?thesis by (intro exI [of _ 0]) simp
    qed
  qed simp
qed

text \<open>
  C39: an idle timeout of 70 to 100 percent. On a connection wrapped with a timeout and used at a sequence of times, the
  deadline extensions succeed up to some point and fail from there on, so an expired connection is never revived;
  no use that succeeds comes later than the timeout after the use before it; and if no gap exceeds seven tenths of
  the timeout, which is how far the code lets the deadline go unextended, none fails.
\<close>

theorem idle_timeout:
  assumes "0 \<le> now" and "0 < timeout" and "sorted (now # ts)" and "c = NewIdleTimeoutConn now raw timeout"
  shows "(\<exists>n \<le> length ts. activities ts c = replicate n True @ replicate (length ts - n) False \<and>
      list_all (\<lambda>g. g \<le> timeout) (take n (gaps now ts))) \<and>
    (list_all (\<lambda>g. g \<le> timeout * 7 div 10) (gaps now ts) \<longrightarrow> list_all (\<lambda>r. r) (activities ts c))"
proof -
  have "alive timeout now c"
    using assms(1,2,4) by (simp add: alive_def NewIdleTimeoutConn_def Let_def)
  from activities_alive [OF this assms(2,3)] show ?thesis by (auto simp: list_all_iff)
qed

theorem idle_timeout_witness:
  "list_all (\<lambda>r. r) (activities [7, 14, 20] (NewIdleTimeoutConn 0 3 10 :: nat IdleTimeoutConn))"
  using idle_timeout [of 0 10 "[7, 14, 20]" "NewIdleTimeoutConn 0 3 10 :: nat IdleTimeoutConn" 3] by simp

end
