(* ===== verification/Serve.thy ===== *)
theory Serve
  imports Desync Rules Dns Dial NetConn Proto NetText
begin

text \<open>
  The HTTP proxy, \<open>server.go\<close> and \<open>http/\<close> of \<open>src/internal/server\<close>: the path of a connection from the request to
  the tunnel, through the rule set, the DNS client, the dial and the desyncer. A handler returns its error and the
  list of its effects in order. The client's side of the connection is the bytes that are still to be read from it;
  the outcomes of dialling, of writing and of the tunnel's copies are parameters.
\<close>

section \<open>Effects and outcomes\<close>

datatype effect =
    WriteHTTP HTTPResponse       \<comment> \<open>a response to the client\<close>
  | WriteClient bytes            \<comment> \<open>bytes to the client\<close>
  | TrackHops "IP list"          \<comment> \<open>\<open>Register\<close> of the sniffer\<close>
  | DialTo Destination
  | InjectFakes "(u8 \<times> bytes) list"
  | SendRemote bytes             \<comment> \<open>bytes over the remote connection\<close>
  | SendRequest HTTPRequest      \<comment> \<open>\<open>WriteProxy\<close> on the remote connection\<close>
  | StartTunnel bytes            \<comment> \<open>the tunnel, with what is unread from the client\<close>
  | CloseRemote
  | CloseClient

text \<open>What \<open>errors.As\<close> finds in the chain of an error of a connection.\<close>

datatype errno = ECONNRESET | Errno int

datatype 'e conn_error = OpError "errno option" | ConnEOF | ConnErr 'e

definition IsConnectionResetByPeer :: "'e conn_error \<Rightarrow> bool" where
  "IsConnectionResetByPeer err =
     (case err of OpError (Some sysErr) \<Rightarrow> sysErr = ECONNRESET | _ \<Rightarrow> False)"

datatype 'e handler_error =
    HandshakeFailed "'e conn_error"
  | DialFailed "'e fastest_error"
  | RequestFailed "'e conn_error"
  | ReadFailed read_error
  | HelloFailed "'e conn_error"
  | NotClientHello
  | SNIFailed sni_error
  | TunnelFailed "'e conn_error tunnel_error"
  | BlockedByPolicy
  | InvalidDst "'e dst_error"
  | ReplyFailed "'e conn_error"

text \<open>
  The outcomes of one connection: \<open>io_write\<close> of the reply to the client, \<open>io_dial\<close> of \<open>DialFastest\<close> (the address of
  the peer reached), \<open>io_send\<close> of the writes to the remote, \<open>io_request\<close> of \<open>WriteProxy\<close>, \<open>io_tunnel\<close> of the two
  copies, and the randomness and the TTL failures that the desyncer meets.
\<close>

record 'e outcomes =
  io_write :: "'e conn_error option"
  io_dial :: "Destination \<Rightarrow> 'e fastest_error + IP"
  io_send :: "nat \<Rightarrow> bytes \<Rightarrow> nat \<times> 'e conn_error option"
  io_request :: "'e conn_error option"
  io_tunnel :: "'e conn_error TransferResult \<times> 'e conn_error TransferResult"
  io_fakeEnv :: split_env
  io_env :: split_env
  io_setFails :: "nat \<Rightarrow> bool"

type_synonym 'e handled = "'e handler_error option \<times> effect list"

definition fresh_wire :: wire where
  "fresh_wire = \<lparr>wr_ttl = getDefaultTTL, wr_out = [], wr_sets = 0, wr_writes = 0\<rparr>"

text \<open>The call of \<open>PrepareHopTrack\<close> as an effect.\<close>

definition track :: "('e conn_error) desyncer \<Rightarrow> IP list \<Rightarrow> HTTPSOptions \<Rightarrow> effect list" where
  "track d addrs opts =
     (case TLS_PrepareHopTrack (\<lambda>evs a. evs @ [TrackHops a]) (map_option (\<lambda>_. []) (d_sniffer d)) addrs opts of
        Some evs \<Rightarrow> evs
      | None \<Rightarrow> [])"

text \<open>\<open>cfg\<close> of a handler: the rule's configuration where a rule matched.\<close>

definition effective :: "RuntimeConfig \<Rightarrow> Rule option \<Rightarrow> RuntimeConfig" where
  "effective cfg rule = (case rule of None \<Rightarrow> cfg | Some r \<Rightarrow> rule_Config r)"

text \<open>
  The tail of every handler: two \<open>TunnelConns\<close> goroutines, \<open>WaitForTunnelCompletion\<close>, and the deferred close of the
  remote connection.
\<close>

definition run_tunnel ::
    "'e outcomes \<Rightarrow> ('e conn_error copy_error list \<Rightarrow> 'e conn_error tunnel_error option) option \<Rightarrow> bytes \<Rightarrow> 'e handled" where
  "run_tunnel io errHandler rest =
     (map_option TunnelFailed (WaitForTunnelCompletion errHandler (fst (io_tunnel io)) (snd (io_tunnel io))),
      [StartTunnel rest, CloseRemote])"

text \<open>Sending the Client Hello through the desyncer; \<open>next\<close> is what follows when it was sent.\<close>

definition send_hello ::
    "'e outcomes \<Rightarrow> ('e conn_error) desyncer \<Rightarrow> HTTPSOptions \<Rightarrow> IP \<Rightarrow> TLSMessage \<Rightarrow> 'e handled \<Rightarrow>
     ('e conn_error, 'e handled) res" where
  "send_hello io d opts ip msg next =
     bindR (TLS_Desync d (io_fakeEnv io) (io_env io) (io_setFails io) (io_send io) (Some ip) msg opts fresh_wire)
       (\<lambda>((n, err), fakes, w).
          let evs = [InjectFakes fakes, SendRemote (sent w)] in
          case err of
            Some e \<Rightarrow> Inr (Some (HelloFailed e), evs @ [CloseRemote])
          | None \<Rightarrow> Inr (fst next, evs @ snd next))"

section \<open>The HTTP handlers\<close>

definition HTTP_HandleRequest ::
    "'e outcomes \<Rightarrow> HTTPRequest \<Rightarrow> Destination \<Rightarrow> bytes \<Rightarrow> 'e handled" where
  "HTTP_HandleRequest io req dst rest =
     (case io_dial io dst of
        Inl e \<Rightarrow> (Some (DialFailed e), [DialTo dst, WriteHTTP HTTPBadGatewayResponse])
      | Inr ip \<Rightarrow>
          (case io_request io of
             Some e \<Rightarrow> (Some (RequestFailed e), [DialTo dst, SendRequest req, CloseRemote])
           | None \<Rightarrow>
               let (err, evs) = run_tunnel io None rest in (err, [DialTo dst, SendRequest req] @ evs)))"

definition handleErrs :: "'e conn_error copy_error list \<Rightarrow> 'e conn_error tunnel_error option" where
  "handleErrs errs =
     (case errs of
        [] \<Rightarrow> None
      | e # _ \<Rightarrow>
          if list_ex (\<lambda>e. case e of CopyErr c \<Rightarrow> IsConnectionResetByPeer c | _ \<Rightarrow> False) errs then Some ErrBlocked
          else Some (TunnelErr e))"

definition HTTPS_HandleRequest ::
    "'e outcomes \<Rightarrow> ('e conn_error) desyncer \<Rightarrow> RuntimeConfig \<Rightarrow> Destination \<Rightarrow> Rule option \<Rightarrow> bytes \<Rightarrow>
     ('e conn_error, 'e handled) res" where
  "HTTPS_HandleRequest io d cfg0 dst rule inp =
     (let cfg = effective cfg0 rule;
          evs = track d (dst_Addrs dst) (rt_HTTPS cfg) @ [WriteHTTP HTTPConnectionEstablishedResponse] in
      case io_write io of
        Some e \<Rightarrow>
          Inr (if \<not> IsConnectionResetByPeer e \<and> e \<noteq> ConnEOF then Some (HandshakeFailed e) else None, evs)
      | None \<Rightarrow>
          let evs = evs @ [DialTo dst] in
          (case io_dial io dst of
             Inl e \<Rightarrow> Inr (Some (DialFailed e), evs)
           | Inr ip \<Rightarrow>
               (case ReadTLSMessage inp of
                  Inl Panic \<Rightarrow> Inl Panic
                | Inl (Err e) \<Rightarrow>
                    Inr (if e = read_error.EOF \<or> e = UnexpectedEOF then None else Some (ReadFailed e), evs @ [CloseRemote])
                | Inr (tlsMsg, rest) \<Rightarrow>
                    if \<not> IsClientHello tlsMsg then Inr (None, evs @ [CloseRemote])
                    else
                      bindR (send_hello io d (rt_HTTPS cfg) ip tlsMsg (run_tunnel io (Some handleErrs) rest))
                        (\<lambda>(err, sent). Inr (err, evs @ sent)))))"
section \<open>The HTTP proxy\<close>

text \<open>
  What the servers share: the rule set over the parameter trees, the DNS client with its back ends and the two times
  at which it uses its cache, the addresses of the local interfaces, the listen address and the configuration.
\<close>

record ('t4, 't6, 'e) services =
  sv_P4 :: "(u32, 't4) patricia"
  sv_P6 :: "(bytes, 't6) patricia"
  sv_ruleSet :: "('t4, 't6) RuleSet"
  sv_backends :: "backend \<Rightarrow> server \<Rightarrow> string \<Rightarrow> u16 list \<Rightarrow> ('e dns_error, Addr list \<times> u32) res"
  sv_times :: "int \<times> int"
  sv_ifAddrs :: "'e + IP list"
  sv_listenAddr :: TCPAddr
  sv_cfg :: RuntimeConfig
  sv_desyncer :: "('e conn_error) desyncer"

text \<open>\<open>string(b)\<close>.\<close>

definition go_string :: "bytes \<Rightarrow> string" where
  "go_string b = map (\<lambda>x. char_of (unat x)) b"

text \<open>A search has no error value of its own; only a panic of the tree is passed on.\<close>

definition search :: "('t4, 't6, 'e) services \<Rightarrow> Query list \<Rightarrow> ('x, Rule option) res" where
  "search sv qs =
     (case RuleSet_Search (sv_P4 sv) (sv_P6 sv) (sv_ruleSet sv) qs of Inl _ \<Rightarrow> Inl Panic | Inr r \<Rightarrow> Inr r)"

definition domain_query :: "string \<Rightarrow> Query list" where
  "domain_query host = [\<lparr>q_Type = MatchTypeDomain, q_Value = host\<rparr>]"

definition addr_queries :: "IP list \<Rightarrow> Query list" where
  "addr_queries addrs = map (\<lambda>v. \<lparr>q_Type = MatchTypeAddr, q_Value = IP_String v\<rparr>) addrs"

text \<open>The look-up of a host name: the rule for the name, and the addresses under that rule's DNS options.\<close>

definition resolve_name ::
    "('t4, 't6, 'e) services \<Rightarrow> string \<Rightarrow> dns_cache \<Rightarrow>
     ('x, Rule option \<times> ('e dns_error + IP list) \<times> dns_cache) res" where
  "resolve_name sv host c =
     bindR (search sv (domain_query host)) (\<lambda>nameMatch.
     case Client_Resolve (sv_backends sv) (sv_cfg sv) (fst (sv_times sv)) (snd (sv_times sv)) nameMatch host c of
       (Inl Panic, c) \<Rightarrow> Inl Panic
     | (Inl (Err e), c) \<Rightarrow> Inr (nameMatch, Inl e, c)
     | (Inr netAddrs, c) \<Rightarrow> Inr (nameMatch, Inr (map AsSlice netAddrs), c))"

definition blocked :: "Rule option \<Rightarrow> bool" where
  "blocked rule \<longleftrightarrow> (case rule of Some r \<Rightarrow> rule_Block r | None \<Rightarrow> False)"

text \<open>The part of \<open>handleNewConnection\<close> after the addresses are known.\<close>

definition HTTP_dispatch ::
    "('t4, 't6, 'e) services \<Rightarrow> 'e outcomes \<Rightarrow> HTTPRequest \<Rightarrow> string \<Rightarrow> int \<Rightarrow> IP list \<Rightarrow> Rule option \<Rightarrow> bytes \<Rightarrow>
     ('e conn_error, effect list) res" where
  "HTTP_dispatch sv io req host dstPort addrs nameMatch rest =
     (let dst = \<lparr>dst_Host = host, dst_Addrs = addrs, dst_Port = dstPort\<rparr>;
          (ok, err) = Destination_IsValid (sv_ifAddrs sv) (sv_listenAddr sv) dst;
          evs = (if err \<noteq> None \<and> \<not> ok then [WriteHTTP HTTPForbiddenResponse] else []) in
      bindR (search sv (addr_queries addrs)) (\<lambda>addrMatch.
      let bestMatch = HigherPriority addrMatch nameMatch in
      if blocked bestMatch then Inr evs
      else
        bindR (if IsConnectMethod req then HTTPS_HandleRequest io (sv_desyncer sv) (sv_cfg sv) dst bestMatch rest
               else Inr (HTTP_HandleRequest io req dst rest)) (\<lambda>(handleErr, hevs).
        Inr (evs @ hevs))))"

text \<open>\<open>readReq\<close> is what \<open>ReadHttpRequest\<close> returns, with the bytes the connection still delivers.\<close>

definition HTTP_handleNewConnection ::
    "('t4, 't6, 'e) services \<Rightarrow> 'e outcomes \<Rightarrow> 'e + HTTPRequest \<times> bytes \<Rightarrow> dns_cache \<Rightarrow>
     ('e conn_error, effect list \<times> dns_cache) res" where
  "HTTP_handleNewConnection sv io readReq c =
     (case readReq of
        Inl e \<Rightarrow> Inr ([CloseClient], c)
      | Inr (req, rest) \<Rightarrow>
          if \<not> IsValidMethod req then Inr ([WriteHTTP HTTPNotImplementedResponse, CloseClient], c)
          else
            let host = ExtractHost req in
            (case ExtractPort req of
               None \<Rightarrow> Inr ([WriteHTTP HTTPBadRequestResponse, CloseClient], c)
             | Some dstPort \<Rightarrow>
                 if ParseIP host \<noteq> [] then
                   bindR (HTTP_dispatch sv io req host dstPort [ParseIP host] None rest) (\<lambda>evs.
                   Inr (evs @ [CloseClient], c))
                 else
                   bindR (resolve_name sv host c) (\<lambda>(nameMatch, r, c).
                   case r of
                     Inl e \<Rightarrow> Inr ([WriteHTTP HTTPBadGatewayResponse, CloseClient], c)
                   | Inr addrs \<Rightarrow>
                       bindR (HTTP_dispatch sv io req host dstPort addrs nameMatch rest) (\<lambda>evs.
                       Inr (evs @ [CloseClient], c)))))"

text \<open>The delay before the next \<open>Accept\<close> after one failed; durations are nanoseconds.\<close>

definition BackoffOnError :: "int \<Rightarrow> int" where
  "BackoffOnError delay = min (if delay = 0 then 5 else delay * 2) (10 * Second)"

text \<open>
  The accept loop of the HTTP proxy over the outcomes of \<open>Accept\<close>: the connections handed to
  \<open>handleNewConnection\<close> and the delays slept. The one of the SOCKS5 proxy does not keep the delay.
\<close>

datatype 'c accept = Accepted 'c | AcceptErr | ListenerClosed

fun HTTP_accept_loop :: "'c accept list \<Rightarrow> int \<Rightarrow> 'c list \<times> int list" where
  "HTTP_accept_loop [] delay = ([], [])"
| "HTTP_accept_loop (Accepted conn # rest) delay =
     (let (conns, slept) = HTTP_accept_loop rest delay in (conn # conns, slept))"
| "HTTP_accept_loop (ListenerClosed # rest) delay = ([], [])"
| "HTTP_accept_loop (AcceptErr # rest) delay =
     (let delay = BackoffOnError delay; (conns, slept) = HTTP_accept_loop rest delay in (conns, delay # slept))"

fun SOCKS5_accept_loop :: "'c accept list \<Rightarrow> int \<Rightarrow> 'c list \<times> int list" where
  "SOCKS5_accept_loop [] delay = ([], [])"
| "SOCKS5_accept_loop (Accepted conn # rest) delay =
     (let (conns, slept) = SOCKS5_accept_loop rest delay in (conn # conns, slept))"
| "SOCKS5_accept_loop (ListenerClosed # rest) delay = ([], [])"
| "SOCKS5_accept_loop (AcceptErr # rest) delay =
     (let (conns, slept) = SOCKS5_accept_loop rest delay in (conns, BackoffOnError delay # slept))"

text \<open>
  \<open>SetupNetworkJobs\<close> of both proxies: \<open>runPAC\<close> starts the PAC server for a script and gives its address or its error,
  \<open>build\<close> makes the platform's jobs. The result is the error or the state file's path, what the file then holds, and
  whether the PAC server runs.
\<close>

definition pacContent :: "string \<Rightarrow> int \<Rightarrow> string" where
  "pacContent scheme port =
     ''function FindProxyForURL(url, host) {'' @ [CHR 0x0A] @ ''    return '' @ [CHR 0x22] @ scheme @ '' 127.0.0.1:'' @
     FormatUint (nat port) @ ''; DIRECT'' @ [CHR 0x22] @ '';'' @ [CHR 0x0A] @ ''}''"

definition setup_jobs ::
    "string \<Rightarrow> 'e + string \<Rightarrow> (u16 \<Rightarrow> string \<Rightarrow> 'e + NetworkJob list) \<Rightarrow> 'e option \<Rightarrow> TCPAddr \<Rightarrow> 'e job_file \<Rightarrow>
     ('e + string) \<times> 'e job_file \<times> bool" where
  "setup_jobs stateFile pac build writeErr listenAddr file =
     (case pac of
        Inl e \<Rightarrow> (Inl e, file, False)
      | Inr pacURL \<Rightarrow>
          (case build (of_int (addr_Port listenAddr)) pacURL of
             Inl e \<Rightarrow> (Inl e, file, False)
           | Inr jobs \<Rightarrow>
               (case SaveJobs writeErr stateFile jobs file of
                  (Some e, file) \<Rightarrow> (Inl e, file, False)
                | (None, file) \<Rightarrow> (Inr stateFile, file, True))))"

definition HTTP_SetupNetworkJobs ::
    "string \<Rightarrow> (string \<Rightarrow> 'e + string) \<Rightarrow> (u16 \<Rightarrow> string \<Rightarrow> 'e + NetworkJob list) \<Rightarrow> 'e option \<Rightarrow> TCPAddr \<Rightarrow> 'e job_file \<Rightarrow>
     ('e + string) \<times> 'e job_file \<times> bool" where
  "HTTP_SetupNetworkJobs stateFile runPAC build writeErr listenAddr file =
     setup_jobs stateFile (runPAC (pacContent ''PROXY'' (addr_Port listenAddr))) build writeErr listenAddr file"

definition SOCKS5_SetupNetworkJobs ::
    "string \<Rightarrow> (string \<Rightarrow> 'e + string) \<Rightarrow> (u16 \<Rightarrow> string \<Rightarrow> 'e + NetworkJob list) \<Rightarrow> 'e option \<Rightarrow> TCPAddr \<Rightarrow> 'e job_file \<Rightarrow>
     ('e + string) \<times> 'e job_file \<times> bool" where
  "SOCKS5_SetupNetworkJobs stateFile runPAC build writeErr listenAddr file =
     setup_jobs stateFile (runPAC (pacContent ''SOCKS5'' (addr_Port listenAddr))) build writeErr listenAddr file"

section \<open>What reaches the server\<close>

fun remote_bytes :: "effect list \<Rightarrow> bytes" where
  "remote_bytes [] = []"
| "remote_bytes (SendRemote b # evs) = b @ remote_bytes evs"
| "remote_bytes (_ # evs) = remote_bytes evs"

fun tunnels :: "effect list \<Rightarrow> bytes list" where
  "tunnels [] = []"
| "tunnels (StartTunnel rest # evs) = rest # tunnels evs"
| "tunnels (_ # evs) = tunnels evs"

fun dials :: "effect list \<Rightarrow> Destination list" where
  "dials [] = []"
| "dials (DialTo dst # evs) = dst # dials evs"
| "dials (_ # evs) = dials evs"

lemma effects_append [simp]:
  "remote_bytes (evs @ evs') = remote_bytes evs @ remote_bytes evs'"
  "tunnels (evs @ evs') = tunnels evs @ tunnels evs'"
  "dials (evs @ evs') = dials evs @ dials evs'"
proof -
  show "remote_bytes (evs @ evs') = remote_bytes evs @ remote_bytes evs'"
    by (induction evs rule: remote_bytes.induct) simp_all
  show "tunnels (evs @ evs') = tunnels evs @ tunnels evs'"
    by (induction evs rule: tunnels.induct) simp_all
  show "dials (evs @ evs') = dials evs @ dials evs'"
    by (induction evs rule: dials.induct) simp_all
qed

text \<open>
  \<open>lossless inp evs\<close>: what was sent to the server before the tunnel is a prefix of what the client sent, and where the
  tunnel starts, it goes on exactly where that prefix ends.
\<close>

definition lossless :: "bytes \<Rightarrow> effect list \<Rightarrow> bool" where
  "lossless inp evs \<longleftrightarrow>
     prefix (remote_bytes evs) inp \<and> list_all (\<lambda>rest. remote_bytes evs @ rest = inp) (tunnels evs)"

lemma track_quiet [simp]: "remote_bytes (track d addrs opts) = []" "tunnels (track d addrs opts) = []"
    "dials (track d addrs opts) = []"
  by (auto simp: track_def TLS_PrepareHopTrack_def split: option.splits)

definition hello_ok :: "'e outcomes \<Rightarrow> HTTPSOptions \<Rightarrow> bool" where
  "hello_ok io opts \<longleftrightarrow> split_env_ok (io_fakeEnv io) opts \<and> split_env_ok (io_env io) opts \<and> honest_writer (io_send io) \<and>
     https_FakePacket opts \<noteq> None"

lemma send_hello_sent:
  assumes "hello_ok io opts"
  shows "\<exists>r fakes out. send_hello io d opts ip msg next = Inr r \<and> prefix out (tls_raw msg) \<and>
    (r = (fst next, [InjectFakes fakes, SendRemote out] @ snd next) \<and> out = tls_raw msg \<or>
     (\<exists>e. r = (Some (HelloFailed e), [InjectFakes fakes, SendRemote out, CloseRemote])))"
proof -
  obtain fake where fake: "https_FakePacket opts = Some fake"
    using assms by (auto simp: hello_ok_def)
  have [simp]: "sent fresh_wire = []" by (simp add: fresh_wire_def sent_def)
  note ok = assms [unfolded hello_ok_def]
  obtain n err fakes w out where
    "TLS_Desync d (io_fakeEnv io) (io_env io) (io_setFails io) (io_send io) (Some ip) msg opts fresh_wire =
      Inr ((n, err), fakes, w)" "sent w = out" "prefix out (tls_raw msg)" "err = None \<longrightarrow> out = tls_raw msg"
    using TLS_Desync_sends [of "io_fakeEnv io" opts "io_env io" "io_send io" fake d "io_setFails io" ip msg fresh_wire]
      ok fake by (elim exE conjE) (simp_all, blast)
  then show ?thesis
    by (cases err) (auto simp: send_hello_def)
qed

lemma run_tunnel_effects [simp]: "snd (run_tunnel io h rest) = [StartTunnel rest, CloseRemote]"
  by (simp add: run_tunnel_def)

text \<open>The two outcomes of sending the hello, for the effects alone.\<close>

lemma send_hello_lossless:
  assumes "hello_ok io opts"
  shows "\<exists>r. send_hello io d opts ip msg (run_tunnel io h rest) = Inr r \<and> lossless (tls_raw msg @ rest) (snd r) \<and>
    dials (snd r) = []"
  using send_hello_sent [OF assms, of d ip msg "run_tunnel io h rest"]
  by (elim exE conjE disjE) (auto simp: lossless_def prefix_def)

lemma ReadTLSMessage_no_panic: "ReadTLSMessage inp \<noteq> Inl Panic"
  by (auto simp: ReadTLSMessage_def ReadFull_def bindR_def guardR_def Let_def split: sum.splits if_splits)

lemma lossless_append_quiet:
  "remote_bytes evs = [] \<Longrightarrow> tunnels evs = [] \<Longrightarrow> lossless inp (evs @ evs') = lossless inp evs'"
  by (simp add: lossless_def)

lemma HTTPS_HandleRequest_lossless:
  assumes "hello_ok io (rt_HTTPS (effective cfg rule))"
  shows "\<exists>err evs. HTTPS_HandleRequest io d cfg dst rule inp = Inr (err, evs) \<and> lossless inp evs \<and>
    set (dials evs) \<subseteq> {dst}"
proof (cases "io_write io")
  case (Some e)
  then show ?thesis by (auto simp: HTTPS_HandleRequest_def lossless_def Let_def)
next
  case replied: None
  show ?thesis
  proof (cases "io_dial io dst")
    case (Inl e)
    then show ?thesis using replied by (auto simp: HTTPS_HandleRequest_def lossless_def Let_def)
  next
    case dial: (Inr ip)
    show ?thesis
    proof (cases "ReadTLSMessage inp")
      case (Inl e)
      then show ?thesis
        using replied dial ReadTLSMessage_no_panic [of inp]
        by (cases e) (auto simp: HTTPS_HandleRequest_def lossless_def Let_def)
    next
      case (Inr m)
      obtain msg rest where m: "m = (msg, rest)" by fastforce
      have inp: "inp = tls_raw msg @ rest"
        using ReadTLSMessage_consumes [of inp msg rest] Inr m by simp
      obtain err evs where
        "send_hello io d (rt_HTTPS (effective cfg rule)) ip msg (run_tunnel io (Some handleErrs) rest) = Inr (err, evs)"
        "lossless inp evs" "dials evs = []"
        using send_hello_lossless [OF assms, of d ip msg "Some handleErrs" rest] inp by fastforce
      then show ?thesis
        using replied dial Inr m by (auto simp: HTTPS_HandleRequest_def Let_def lossless_append_quiet lossless_def)
    qed
  qed
qed

lemma HTTP_HandleRequest_dials: "dials (snd (HTTP_HandleRequest io req dst rest)) = [dst]"
  by (simp add: HTTP_HandleRequest_def Let_def case_prod_beta split: sum.split option.split)

section \<open>The HTTP proxy and its rules\<close>

text \<open>
  \<open>served\<close>: the rule set answers every search, and the options of every answer, and those used when none matches, are
  ones the desyncer accepts; the connection's writer reports how much it wrote.
\<close>

definition served :: "('t4, 't6, 'e) services \<Rightarrow> 'e outcomes \<Rightarrow> bool" where
  "served sv io \<longleftrightarrow>
     (\<forall>qs. \<exists>r. RuleSet_Search (sv_P4 sv) (sv_P6 sv) (sv_ruleSet sv) qs = Inr r \<and>
        hello_ok io (rt_HTTPS (effective (sv_cfg sv) r)))"

lemma served_search:
  assumes "served sv io"
  shows "\<exists>r. search sv qs = Inr r \<and> hello_ok io (rt_HTTPS (effective (sv_cfg sv) r))"
proof -
  obtain r where "RuleSet_Search (sv_P4 sv) (sv_P6 sv) (sv_ruleSet sv) qs = Inr r"
      "hello_ok io (rt_HTTPS (effective (sv_cfg sv) r))"
    using assms by (auto simp: served_def)
  then show ?thesis by (simp add: search_def)
qed

lemma served_default:
  assumes "served sv io"
  shows "hello_ok io (rt_HTTPS (sv_cfg sv))"
  using assms by (fastforce simp: served_def RuleSet_Search_def effective_def dest: spec [of _ "[]"])

lemma effective_HigherPriority:
  assumes "hello_ok io (rt_HTTPS (effective cfg a))" and "hello_ok io (rt_HTTPS (effective cfg b))"
  shows "hello_ok io (rt_HTTPS (effective cfg (HigherPriority a b)))"
  using assms by (auto simp: HigherPriority_def split: option.splits)

lemma HTTP_dispatch_connect:
  fixes sv :: "('t4, 't6, 'e) services"
  assumes "served sv io" and "hello_ok io (rt_HTTPS (effective (sv_cfg sv) nameMatch))" and "IsConnectMethod req"
  shows "\<exists>evs. HTTP_dispatch sv io req host port addrs nameMatch rest = Inr evs \<and> lossless rest evs"
proof -
  let ?dst = "\<lparr>dst_Host = host, dst_Addrs = addrs, dst_Port = port\<rparr>"
  obtain ok err where v: "Destination_IsValid (sv_ifAddrs sv) (sv_listenAddr sv) ?dst = (ok, err)" by fastforce
  obtain a where a: "(search sv (addr_queries addrs) :: ('e conn_error, Rule option) res) = Inr a"
      "hello_ok io (rt_HTTPS (effective (sv_cfg sv) a))"
    using served_search [OF assms(1)] by blast
  let ?best = "HigherPriority a nameMatch"
  obtain herr hevs where h: "HTTPS_HandleRequest io (sv_desyncer sv) (sv_cfg sv) ?dst ?best rest = Inr (herr, hevs)"
      "lossless rest hevs"
    using HTTPS_HandleRequest_lossless [OF effective_HigherPriority [OF a(2) assms(2)], of "sv_desyncer sv" ?dst rest]
    by blast
  show ?thesis
    using h assms(3) by (simp add: HTTP_dispatch_def v a(1) Let_def lossless_def)
qed

definition answers :: "('t4, 't6, 'e) services \<Rightarrow> Query list \<Rightarrow> Rule option \<Rightarrow> bool" where
  "answers sv qs r \<longleftrightarrow> RuleSet_Search (sv_P4 sv) (sv_P6 sv) (sv_ruleSet sv) qs = Inr r"

lemma answers_search: "answers sv qs r \<Longrightarrow> search sv qs = Inr r"
  by (simp add: answers_def search_def)

text \<open>
  A request that its best rule blocks reaches nobody. One to a refused destination is answered with 403 and then
  handled all the same: the dial to the proxy itself is made.
\<close>

lemma HTTP_dispatch_blocked:
  assumes "answers sv (addr_queries addrs) a" and "blocked (HigherPriority a nameMatch)"
  shows "\<exists>evs. HTTP_dispatch sv io req host port addrs nameMatch rest = Inr evs \<and> dials evs = [] \<and> tunnels evs = []"
  using assms by (simp add: HTTP_dispatch_def answers_search Let_def case_prod_beta)

lemma HTTP_dispatch_self:
  assumes "answers sv (addr_queries addrs) a" and "\<not> blocked (HigherPriority a nameMatch)" and "\<not> IsConnectMethod req"
    and "dst = \<lparr>dst_Host = host, dst_Addrs = addrs, dst_Port = port\<rparr>"
    and "Destination_IsValid (sv_ifAddrs sv) (sv_listenAddr sv) dst = (False, Some e)"
  shows "\<exists>evs. HTTP_dispatch sv io req host port addrs nameMatch rest = Inr (WriteHTTP HTTPForbiddenResponse # evs) \<and>
    dials evs = [dst]"
proof -
  obtain herr hevs where h: "HTTP_HandleRequest io req dst rest = (herr, hevs)" by fastforce
  then show ?thesis
    using assms HTTP_HandleRequest_dials [of io req dst rest]
    by (simp add: HTTP_dispatch_def answers_search Let_def)
qed

end
