(* ===== verification/Socks.thy ===== *)
theory Socks
  imports Serve NetKey
begin

text \<open>
  The SOCKS5 proxy of \<open>src/internal/server/socks5\<close>: the negotiation and the dispatch of a request (\<open>socks5.go\<close>), the
  CONNECT, BIND and UDP ASSOCIATE handlers, and the UDP header. The conventions are those of the HTTP proxy.
\<close>

section \<open>Negotiation\<close>

datatype 'e negotiate_error =
    NegRead read_error
  | InvalidHTTPConnect string     \<comment> \<open>an HTTP CONNECT to the host\<close>
  | InvalidUnknown 'e
  | InvalidVersion byte
  | NegWrite "'e conn_error"

text \<open>
  \<open>httpHost\<close> is what \<open>http.ReadRequest\<close> makes of the stream that starts with the two bytes already read: the host of
  the request, or an error. The result is the unread rest of the stream and the bytes written.
\<close>

definition negotiate ::
    "(bytes \<Rightarrow> 'e + string) \<Rightarrow> 'e conn_error option \<Rightarrow> bytes \<Rightarrow> ('e negotiate_error, bytes \<times> effect list) res" where
  "negotiate httpHost writeErr inp =
     bindR (mapErr NegRead (ReadFull 2 inp)) (\<lambda>(header, inp).
     if header ! 0 \<noteq> SOCKSVersion then
       if length header > 1 \<and> header ! 0 = 67 \<and> header ! 1 = 79 then
         (case httpHost (header @ inp) of
            Inl e \<Rightarrow> Inl (Err (InvalidUnknown e))
          | Inr host \<Rightarrow> Inl (Err (InvalidHTTPConnect host)))
       else Inl (Err (InvalidVersion (header ! 0)))
     else
       bindR (mapErr NegRead (ReadFull (unat (header ! 1)) inp)) (\<lambda>(methods, inp).
       case writeErr of
         Some e \<Rightarrow> Inl (Err (NegWrite e))
       | None \<Rightarrow> Inr (inp, [WriteClient [SOCKSVersion, SOCKS5AuthNone]])))"

section \<open>CONNECT\<close>

text \<open>
  \<open>Peek(1)\<close> of the buffered client connection is the first unread byte, or an error at the end of the stream. The
  message is written directly where desync is skipped or the record is no Client Hello; \<open>raw_sent\<close> is the write.
\<close>

definition raw_sent :: "'e outcomes \<Rightarrow> bytes \<Rightarrow> 'e handled \<Rightarrow> 'e handled" where
  "raw_sent io raw next =
     (let (n, err) = io_send io 0 raw in
      case err of
        Some e \<Rightarrow> (Some (HelloFailed e), [SendRemote (take n raw), CloseRemote])
      | None \<Rightarrow> (fst next, SendRemote (take n raw) # snd next))"

text \<open>Steps 5 to 8 of \<open>Handle\<close>.\<close>

definition connect_payload ::
    "'e outcomes \<Rightarrow> ('e conn_error) desyncer \<Rightarrow> HTTPSOptions \<Rightarrow> IP \<Rightarrow> bytes \<Rightarrow> ('e conn_error, 'e handled) res" where
  "connect_payload io d opts ip inp =
     (if inp \<noteq> [] \<and> inp ! 0 = TLSHandshake then
        (case ReadTLSMessage inp of
           Inl Panic \<Rightarrow> Inl Panic
         | Inl (Err e) \<Rightarrow>
             Inr (if e = read_error.EOF \<or> e = UnexpectedEOF then None else Some (ReadFailed e), [CloseRemote])
         | Inr (tlsMsg, rest) \<Rightarrow>
             if IsClientHello tlsMsg \<and> \<not> https_Skip opts then
               send_hello io d opts ip tlsMsg (run_tunnel io None rest)
             else Inr (raw_sent io (tls_raw tlsMsg) (run_tunnel io None rest)))
      else Inr (run_tunnel io None inp))"

definition ConnectHandler_Handle ::
    "'e outcomes \<Rightarrow> ('e conn_error) desyncer \<Rightarrow> 'e + IP list \<Rightarrow> TCPAddr \<Rightarrow> RuntimeConfig \<Rightarrow> Destination \<Rightarrow> Rule option \<Rightarrow>
     bytes \<Rightarrow> ('e conn_error, 'e handled) res" where
  "ConnectHandler_Handle io d ifAddrs listenAddr cfg0 dst rule inp =
     (let cfg = effective cfg0 rule; (ok, err) = Destination_IsValid ifAddrs listenAddr dst in
      if err \<noteq> None \<and> \<not> ok then
        Inr (Some (InvalidDst (the err)), [WriteClient (Reply_Write SOCKS5FailureResponse)])
      else if blocked rule then
        Inr (Some BlockedByPolicy, [WriteClient (Reply_Write SOCKS5FailureResponse)])
      else
        let evs = track d (dst_Addrs dst) (rt_HTTPS cfg) @ [DialTo dst] in
        (case io_dial io dst of
           Inl e \<Rightarrow> Inr (Some (DialFailed e), evs @ [WriteClient (Reply_Write SOCKS5FailureResponse)])
         | Inr ip \<Rightarrow>
             let evs = evs @ [WriteClient (Reply_Write
                   (Reply_Port 0 (Reply_Bind (v4InV6Prefix @ [0, 0, 0, 0]) SOCKS5SuccessResponse)))] in
             (case io_write io of
                Some e \<Rightarrow> Inr (Some (ReplyFailed e), evs @ [CloseRemote])
              | None \<Rightarrow>
                  bindR (connect_payload io d (rt_HTTPS cfg) ip inp) (\<lambda>(err, hevs). Inr (err, evs @ hevs)))))"

section \<open>BIND\<close>

text \<open>
  The listener's address or its error, the writes of the two replies, and how the wait for the incoming connection
  ends: the context is cancelled, \<open>Accept\<close> fails, or a connection comes from an address. While it waits, the monitor
  reads single bytes from the client; \<open>stolen\<close> is how many it took before it was stopped.
\<close>

datatype 'e bind_wait = BindCancelled | AcceptFailed 'e | Incoming IP int

datatype 'e bind_error = ListenFailed 'e | FirstReply "'e conn_error" | BindCtx | BindAccept 'e | UnexpectedHost IP
  | SecondReply "'e conn_error" | BindTunnel "'e conn_error tunnel_error"

definition IP_IsUnspecified :: "IP \<Rightarrow> bool" where
  "IP_IsUnspecified ip \<longleftrightarrow> IP_Equal ip [0, 0, 0, 0] \<or> IP_Equal ip (replicate 16 0)"

definition BindHandler_Handle ::
    "'e + IP \<times> int \<Rightarrow> 'e conn_error option \<Rightarrow> 'e bind_wait \<Rightarrow> 'e conn_error option \<Rightarrow> 'e outcomes \<Rightarrow> nat \<Rightarrow> SOCKS5Request \<Rightarrow>
     bytes \<Rightarrow> 'e bind_error option \<times> effect list" where
  "BindHandler_Handle listener firstErr wait secondErr io stolen req inp =
     (let failure = WriteClient (Reply_Write SOCKS5FailureResponse);
          reply = (\<lambda>ip port. WriteClient (Reply_Write (Reply_Port port (Reply_Bind ip SOCKS5SuccessResponse)))) in
      case listener of
        Inl e \<Rightarrow> (Some (ListenFailed e), [failure])
      | Inr (lIP, lPort) \<Rightarrow>
          (case firstErr of
             Some e \<Rightarrow> (Some (FirstReply e), [reply lIP lPort])
           | None \<Rightarrow>
               (case wait of
                  BindCancelled \<Rightarrow> (Some BindCtx, [reply lIP lPort])
                | AcceptFailed e \<Rightarrow> (Some (BindAccept e), [reply lIP lPort, failure])
                | Incoming rIP rPort \<Rightarrow>
                    if sr_IP req \<noteq> [] \<and> \<not> IP_IsUnspecified (sr_IP req) \<and> \<not> IP_Equal rIP (sr_IP req) then
                      (Some (UnexpectedHost rIP), [reply lIP lPort, failure, CloseRemote])
                    else
                      (case secondErr of
                         Some e \<Rightarrow> (Some (SecondReply e), [reply lIP lPort, reply rIP rPort, CloseRemote])
                       | None \<Rightarrow>
                           (map_option BindTunnel
                              (WaitForTunnelCompletion None (fst (io_tunnel io)) (snd (io_tunnel io))),
                            [reply lIP lPort, reply rIP rPort, StartTunnel (drop stolen inp), CloseRemote])))))"

section \<open>UDP headers\<close>

datatype udp_header_error =
    HeaderTooShort | InvalidRSV | FragmentationNotSupported | TooShortIPv4 | TooShortIPv6 | TooShortFQDN | TooShortFQDNData
  | UnsupportedUDPATYP byte

text \<open>The slice expressions panic out of range, as in Go.\<close>

definition parseUDPHeader :: "bytes \<Rightarrow> (udp_header_error, string \<times> bytes) res" where
  "parseUDPHeader b =
     guardR (length b < 4) HeaderTooShort
     (bindR (idx b 0) (\<lambda>b0. bindR (idx b 1) (\<lambda>b1.
      guardR (b0 \<noteq> 0 \<or> b1 \<noteq> 0) InvalidRSV
      (bindR (idx b 2) (\<lambda>frag.
       guardR (frag \<noteq> 0) FragmentationNotSupported
       (bindR (idx b 3) (\<lambda>atyp.
        bindR
          (if atyp = SOCKS5AddrTypeIPv4 then
             guardR (length b < 10) TooShortIPv4 (bindR (slice b 4 8) (\<lambda>a. Inr (IP_String a, 8)))
           else if atyp = SOCKS5AddrTypeIPv6 then
             guardR (length b < 22) TooShortIPv6 (bindR (slice b 4 20) (\<lambda>a. Inr (IP_String a, 20)))
           else if atyp = SOCKS5AddrTypeFQDN then
             guardR (length b < 5) TooShortFQDN
             (bindR (idx b 4) (\<lambda>l0.
              let l = unat l0 in
              guardR (length b < 5 + l + 2) TooShortFQDNData
              (bindR (slice b 5 (5 + l)) (\<lambda>a. Inr (go_string a, 5 + l)))))
           else Inl (Err (UnsupportedUDPATYP atyp))) (\<lambda>(host, pos).
        bindR (uint16at b pos) (\<lambda>port.
        bindR (slice b (pos + 2) (length b)) (\<lambda>payload.
        Inr (JoinHostPort host (FormatUint (unat port)), payload)))))))))))"

definition createUDPHeaderFromAddr :: "IP \<Rightarrow> int \<Rightarrow> bytes" where
  "createUDPHeaderFromAddr ip port =
     [0, 0, 0] @
     (case To4 ip of
        Some ip4 \<Rightarrow> SOCKS5AddrTypeIPv4 # ip4
      | None \<Rightarrow> SOCKS5AddrTypeIPv6 # (case To16 ip of Some ip16 \<Rightarrow> ip16 | None \<Rightarrow> [])) @
     put16 (of_int port)"
section \<open>UDP ASSOCIATE\<close>

text \<open>
  The effects of the relay: hop tracking and the dial for a new flow, the fake packets, a payload written to the
  connection under a wrapper, and a datagram written back to the client.
\<close>

datatype udp_effect =
    UTrack "IP list"
  | UDial Destination
  | UFakes "(u8 \<times> bytes) list"
  | UWrite nat bytes
  | UToClient bytes
  | UReply bytes      \<comment> \<open>a reply over the TCP connection\<close>

definition utrack :: "('e conn_error) desyncer \<Rightarrow> IP list \<Rightarrow> UDPOptions \<Rightarrow> udp_effect list" where
  "utrack d addrs opts =
     (case UDP_PrepareHopTrack (\<lambda>evs a. evs @ [UTrack a]) (map_option (\<lambda>_. []) (d_sniffer d)) addrs opts of
        Some evs \<Rightarrow> evs
      | None \<Rightarrow> [])"

text \<open>
  One turn of the loop of \<open>UdpAssociateHandler.Handle\<close> for a datagram \<open>b\<close> from the given source. \<open>resolve\<close> is
  \<open>net.ResolveUDPAddr\<close>, \<open>dial\<close> the connection \<open>DialFastest\<close> returns, if any, and \<open>now\<close> the clock. The desyncer's peer
  is the address dialled.
\<close>

definition udp_datagram ::
    "(string \<Rightarrow> (IP \<times> int) option) \<Rightarrow> (Destination \<Rightarrow> nat option) \<Rightarrow> ('e conn_error) desyncer \<Rightarrow> UDPOptions \<Rightarrow> IP \<Rightarrow> int \<Rightarrow>
     IP \<times> int \<times> bytes \<Rightarrow> NATKey ConnRegistry \<Rightarrow> ('e conn_error, udp_effect list \<times> NATKey ConnRegistry) res" where
  "udp_datagram resolve dial d opts rTCPAddr now dgram pool =
     (let (srcIP, srcPort, b) = dgram in
      if \<not> IP_Equal srcIP rTCPAddr then Inr ([], pool)
      else
        (case parseUDPHeader b of
           Inl Panic \<Rightarrow> Inl Panic
         | Inl (Err e) \<Rightarrow> Inr ([], pool)
         | Inr (dstAddrStr, data) \<Rightarrow>
             (case resolve dstAddrStr of
                None \<Rightarrow> Inr ([], pool)
              | Some (dstIP, dstPort) \<Rightarrow>
                  let key = NewNATKey srcIP srcPort dstIP dstPort; (cached, pool) = Fetch NATKey_Bytes key pool in
                  (case cached of
                     Some w \<Rightarrow> Inr ([UWrite w data], snd (conn_activity NATKey_Bytes now w pool))
                   | None \<Rightarrow>
                       let pktDst = \<lparr>dst_Host = [], dst_Addrs = [dstIP], dst_Port = dstPort\<rparr>;
                           evs = utrack d [dstIP] opts @ [UDial pktDst] in
                       (case dial pktDst of
                          None \<Rightarrow> Inr (evs, pool)
                        | Some rRawConn \<Rightarrow>
                            let (w, pool) = Store NATKey_Bytes now key rRawConn pool in
                            bindR (if \<not> udp_Skip opts then UDP_Desync d (Some dstIP) opts else Inr (0, [])) (\<lambda>(_, fakes).
                            Inr (evs @ [UFakes fakes, UWrite w data],
                                 snd (conn_activity NATKey_Bytes now w pool))))))))"

text \<open>
  The relay goroutine of a flow: each inbound datagram extends the deadline and goes to the client with a header;
  when a read or a write fails the key is evicted.
\<close>

definition relayInboundUDP ::
    "int \<Rightarrow> nat \<Rightarrow> IP \<Rightarrow> int \<Rightarrow> bytes \<Rightarrow> NATKey ConnRegistry \<Rightarrow> udp_effect list \<times> NATKey ConnRegistry" where
  "relayInboundUDP now w targetIP targetPort resp pool =
     ([UToClient (createUDPHeaderFromAddr targetIP targetPort @ resp)],
      snd (conn_activity NATKey_Bytes now w pool))"

definition relay_end :: "NATKey \<Rightarrow> NATKey ConnRegistry \<Rightarrow> NATKey ConnRegistry" where
  "relay_end key pool = Evict NATKey_Bytes key pool"

text \<open>How the loop ends on a failed read: silently after the TCP connection has closed, else with the error.\<close>

definition udp_read_failed :: "bool \<Rightarrow> 'e \<Rightarrow> 'e option" where
  "udp_read_failed done err = (if done then None else Some err)"

text \<open>
  The whole handler: the listener, the reply with its address, and the loop over the datagrams that arrive until a
  read fails. Each datagram comes with what a dial for it gives and the time.
\<close>

fun udp_loop ::
    "(string \<Rightarrow> (IP \<times> int) option) \<Rightarrow> ('e conn_error) desyncer \<Rightarrow> UDPOptions \<Rightarrow> IP \<Rightarrow>
     ((Destination \<Rightarrow> nat option) \<times> int \<times> IP \<times> int \<times> bytes) list \<Rightarrow> NATKey ConnRegistry \<Rightarrow>
     ('e conn_error, udp_effect list \<times> NATKey ConnRegistry) res" where
  "udp_loop resolve d opts rTCPAddr [] pool = Inr ([], pool)"
| "udp_loop resolve d opts rTCPAddr ((dial, now, dgram) # dgrams) pool =
     bindR (udp_datagram resolve dial d opts rTCPAddr now dgram pool) (\<lambda>(evs, pool).
     bindR (udp_loop resolve d opts rTCPAddr dgrams pool) (\<lambda>(evs', pool). Inr (evs @ evs', pool)))"

datatype 'e associate_error = UDPListen 'e | UDPReply 'e | UDPRead 'e

definition UdpAssociateHandler_Handle ::
    "'e + IP \<times> int \<Rightarrow> 'e option \<Rightarrow> bool \<Rightarrow> 'e \<Rightarrow> (string \<Rightarrow> (IP \<times> int) option) \<Rightarrow> ('e conn_error) desyncer \<Rightarrow> UDPOptions \<Rightarrow> IP \<Rightarrow>
     ((Destination \<Rightarrow> nat option) \<times> int \<times> IP \<times> int \<times> bytes) list \<Rightarrow> NATKey ConnRegistry \<Rightarrow>
     ('e conn_error, 'e associate_error option \<times> udp_effect list \<times> NATKey ConnRegistry) res" where
  "UdpAssociateHandler_Handle listener replyErr done readErr resolve d opts rTCPAddr dgrams pool =
     (case listener of
        Inl e \<Rightarrow> Inr (Some (UDPListen e), [UReply (Reply_Write SOCKS5FailureResponse)], pool)
      | Inr (lIP, lPort) \<Rightarrow>
          let reply = UReply (Reply_Write (Reply_Port lPort (Reply_Bind lIP SOCKS5SuccessResponse))) in
          (case replyErr of
             Some e \<Rightarrow> Inr (Some (UDPReply e), [reply], pool)
           | None \<Rightarrow>
               bindR (udp_loop resolve d opts rTCPAddr dgrams pool) (\<lambda>(evs, pool).
               Inr (map_option UDPRead (udp_read_failed done readErr), reply # evs, pool))))"

section \<open>Requests\<close>

text \<open>
  \<open>handleConnection\<close>: the negotiation, the request, the addresses and the rule, and the handler for the command. The
  BIND and the UDP ASSOCIATE handler are run with their own outcomes (\<open>bind\<close>, \<open>udp\<close>), which take the unread bytes.
\<close>

definition SOCKS5_dispatch ::
    "('t4, 't6, 'e) services \<Rightarrow> 'e outcomes \<Rightarrow> (SOCKS5Request \<Rightarrow> bytes \<Rightarrow> effect list) \<Rightarrow> (SOCKS5Request \<Rightarrow> bytes \<Rightarrow> effect list) \<Rightarrow>
     SOCKS5Request \<Rightarrow> IP list \<Rightarrow> Rule option \<Rightarrow> bytes \<Rightarrow> ('e conn_error, effect list) res" where
  "SOCKS5_dispatch sv io bind udp req addrs nameMatch inp =
     bindR (search sv (addr_queries addrs)) (\<lambda>addrMatch.
     let bestMatch = HigherPriority addrMatch nameMatch in
     if sr_Cmd req = SOCKS5CmdConnect then
       let dst = \<lparr>dst_Host = go_string (sr_FQDN req), dst_Addrs = addrs, dst_Port = sr_Port req\<rparr> in
       bindR (ConnectHandler_Handle io (sv_desyncer sv) (sv_ifAddrs sv) (sv_listenAddr sv) (sv_cfg sv) dst bestMatch inp)
         (\<lambda>(err, evs). Inr evs)
     else if sr_Cmd req = SOCKS5CmdBind then Inr (bind req inp)
     else if sr_Cmd req = SOCKS5CmdUDPAssociate then Inr (udp req inp)
     else Inr [WriteClient (Reply_Write SOCKS5CommandNotSupportedResponse)])"

definition SOCKS5_handleConnection ::
    "('t4, 't6, 'e) services \<Rightarrow> 'e outcomes \<Rightarrow> (bytes \<Rightarrow> 'e + string) \<Rightarrow> 'e conn_error option \<Rightarrow>
     (SOCKS5Request \<Rightarrow> bytes \<Rightarrow> effect list) \<Rightarrow> (SOCKS5Request \<Rightarrow> bytes \<Rightarrow> effect list) \<Rightarrow> bytes \<Rightarrow> dns_cache \<Rightarrow>
     ('e conn_error, effect list \<times> dns_cache) res" where
  "SOCKS5_handleConnection sv io httpHost negErr bind udp inp c =
     (case negotiate httpHost negErr inp of
        Inl Panic \<Rightarrow> Inl Panic
      | Inl (Err e) \<Rightarrow> Inr ([CloseClient], c)
      | Inr (inp, nevs) \<Rightarrow>
          (case ReadSocks5Request inp of
             Inl Panic \<Rightarrow> Inl Panic
           | Inl (Err e) \<Rightarrow> Inr (nevs @ [CloseClient], c)
           | Inr (req, inp) \<Rightarrow>
               if sr_IP req \<noteq> [] then
                 bindR (SOCKS5_dispatch sv io bind udp req [sr_IP req] None inp) (\<lambda>evs.
                 Inr (nevs @ evs @ [CloseClient], c))
               else if sr_ATYP req = SOCKS5AddrTypeFQDN \<and> length (sr_FQDN req) > 1 then
                 bindR (resolve_name sv (go_string (sr_FQDN req)) c) (\<lambda>(nameMatch, r, c).
                 case r of
                   Inl e \<Rightarrow> Inr (nevs @ [CloseClient], c)
                 | Inr addrs \<Rightarrow>
                     bindR (SOCKS5_dispatch sv io bind udp req addrs nameMatch inp) (\<lambda>evs.
                     Inr (nevs @ evs @ [CloseClient], c)))
               else Inr (nevs @ [CloseClient], c)))"

section \<open>Properties of CONNECT\<close>

lemma raw_sent_lossless:
  assumes "honest_writer (io_send io)"
  shows "lossless (raw @ rest) (snd (raw_sent io raw (run_tunnel io h rest))) \<and>
    dials (snd (raw_sent io raw (run_tunnel io h rest))) = []"
proof -
  obtain n err where s: "io_send io 0 raw = (n, err)" by fastforce
  have "n \<le> length raw" "err = None \<Longrightarrow> n = length raw"
    using assms s unfolding honest_writer_def by (metis fst_conv snd_conv)+
  then show ?thesis
    using take_is_prefix [of n raw] by (cases err) (auto simp: raw_sent_def s lossless_def)
qed

definition refused :: "'e + IP list \<Rightarrow> TCPAddr \<Rightarrow> Destination \<Rightarrow> bool" where
  "refused ifAddrs listenAddr dst \<longleftrightarrow> \<not> fst (Destination_IsValid ifAddrs listenAddr dst)"

lemma refused_iff:
  "refused ifAddrs listenAddr dst \<longleftrightarrow>
     snd (Destination_IsValid ifAddrs listenAddr dst) \<noteq> None \<and> \<not> fst (Destination_IsValid ifAddrs listenAddr dst)"
  by (auto simp: refused_def Destination_IsValid_def split: sum.splits option.splits if_splits)

lemma connect_payload_lossless:
  assumes "hello_ok io opts"
  shows "\<exists>err evs. connect_payload io d opts ip inp = Inr (err, evs) \<and> lossless inp evs \<and> dials evs = []"
proof (cases "inp \<noteq> [] \<and> inp ! 0 = TLSHandshake")
  case False
  then have "connect_payload io d opts ip inp = Inr (run_tunnel io None inp)"
    by (auto simp: connect_payload_def)
  then show ?thesis by (simp add: run_tunnel_def lossless_def)
next
  case True
  show ?thesis
  proof (cases "ReadTLSMessage inp")
    case (Inl e)
    then show ?thesis
      using True ReadTLSMessage_no_panic [of inp] by (cases e) (auto simp: connect_payload_def lossless_def)
  next
    case (Inr m)
    obtain msg rest where m: "m = (msg, rest)" by fastforce
    have inp: "inp = tls_raw msg @ rest"
      using ReadTLSMessage_consumes [of inp msg rest] Inr m by simp
    have "honest_writer (io_send io)" using assms by (simp add: hello_ok_def)
    moreover obtain err evs where "raw_sent io (tls_raw msg) (run_tunnel io None rest) = (err, evs)" by fastforce
    ultimately show ?thesis
      using True Inr m inp send_hello_lossless [OF assms, of d ip msg None rest]
        raw_sent_lossless [of io "tls_raw msg" rest None] by (auto simp: connect_payload_def)
  qed
qed

lemma ConnectHandler_lossless:
  assumes "hello_ok io (rt_HTTPS (effective cfg rule))"
  shows "\<exists>err evs. ConnectHandler_Handle io d ifAddrs listenAddr cfg dst rule inp = Inr (err, evs) \<and> lossless inp evs \<and>
    dials evs = (if refused ifAddrs listenAddr dst \<or> blocked rule then [] else [dst])"
proof -
  obtain ok err where v: "Destination_IsValid ifAddrs listenAddr dst = (ok, err)" by fastforce
  consider "err \<noteq> None \<and> \<not> ok" | "\<not> (err \<noteq> None \<and> \<not> ok)" "blocked rule"
    | e where "\<not> (err \<noteq> None \<and> \<not> ok)" "\<not> blocked rule" "io_dial io dst = Inl e"
    | ip e where "\<not> (err \<noteq> None \<and> \<not> ok)" "\<not> blocked rule" "io_dial io dst = Inr ip" "io_write io = Some e"
    | ip where "\<not> (err \<noteq> None \<and> \<not> ok)" "\<not> blocked rule" "io_dial io dst = Inr ip" "io_write io = None"
    by (cases "io_dial io dst"; cases "io_write io") blast+
  then show ?thesis
  proof cases
    case 5
    obtain herr hevs where p: "connect_payload io d (rt_HTTPS (effective cfg rule)) ip inp = Inr (herr, hevs)"
      "lossless inp hevs" "dials hevs = []"
      using connect_payload_lossless [OF assms] by blast
    then have "lossless inp (DialTo dst # WriteClient r # hevs)" for r
      by (simp add: lossless_def)
    then show ?thesis
      using 5 p by (auto simp: ConnectHandler_Handle_def v refused_iff Let_def lossless_append_quiet)
  qed (auto simp: ConnectHandler_Handle_def v refused_iff lossless_def Let_def)
qed

lemma SOCKS5_dispatch_connect:
  fixes sv :: "('t4, 't6, 'e) services"
  assumes "served sv io" and "hello_ok io (rt_HTTPS (effective (sv_cfg sv) nameMatch))" and "sr_Cmd req = SOCKS5CmdConnect"
    and "dst = \<lparr>dst_Host = go_string (sr_FQDN req), dst_Addrs = addrs, dst_Port = sr_Port req\<rparr>"
    and "answers sv (addr_queries addrs) a"
  shows "\<exists>evs. SOCKS5_dispatch sv io bind udp req addrs nameMatch inp = Inr evs \<and> lossless inp evs \<and>
    dials evs = (if refused (sv_ifAddrs sv) (sv_listenAddr sv) dst \<or> blocked (HigherPriority a nameMatch) then [] else [dst])"
proof -
  have "hello_ok io (rt_HTTPS (effective (sv_cfg sv) a))"
    using assms(1,5) unfolding served_def answers_def by (metis sum.inject(2))
  then have "hello_ok io (rt_HTTPS (effective (sv_cfg sv) (HigherPriority a nameMatch)))"
    using assms(2) by (rule effective_HigherPriority)
  from ConnectHandler_lossless [OF this, of "sv_desyncer sv" "sv_ifAddrs sv" "sv_listenAddr sv" dst inp]
  obtain err evs where
    "ConnectHandler_Handle io (sv_desyncer sv) (sv_ifAddrs sv) (sv_listenAddr sv) (sv_cfg sv) dst (HigherPriority a nameMatch) inp =
       Inr (err, evs)" "lossless inp evs"
    "dials evs = (if refused (sv_ifAddrs sv) (sv_listenAddr sv) dst \<or> blocked (HigherPriority a nameMatch) then [] else [dst])"
    by blast
  then show ?thesis
    using assms(3,4) answers_search [OF assms(5), where ?'d = "'e conn_error"] by (simp add: SOCKS5_dispatch_def Let_def)
qed

section \<open>Properties of the UDP relay\<close>

lemma parseUDPHeader_no_panic: "no_panic (parseUDPHeader b)"
  by (auto simp: parseUDPHeader_def no_panic_def guardR_def bindR_def uint16at_def Let_def idx_def slice_def
      split: if_splits sum.splits)

text \<open>
  C16: the UDP header parser never indexes out of range, whatever the client sends, and reads back what the relay's own
  header writer writes: the address, the port and the payload after it.
\<close>

theorem parseUDPHeader_roundtrip:
  "no_panic (parseUDPHeader b) \<and>
   (length ip = 4 \<or> length ip = 16 \<longrightarrow> 0 \<le> port \<and> port < 2 ^ 16 \<longrightarrow>
      parseUDPHeader (createUDPHeaderFromAddr ip port @ rest) =
        Inr (JoinHostPort (IP_String ip) (FormatUint (nat port)), rest))"
proof (intro conjI impI)
  show "no_panic (parseUDPHeader b)" by (rule parseUDPHeader_no_panic)
next
  assume len: "length ip = 4 \<or> length ip = 16" and port: "0 \<le> port \<and> port < 2 ^ 16"
  have p: "unat (be16 (put16 (of_int port) ! 0) (put16 (of_int port) ! Suc 0)) = nat port"
    using port be16_nth_put16 [of "of_int port"] by (simp add: unat_eq_nat_uint uint_word_of_int_eq take_bit_int_eq_self)
  show "parseUDPHeader (createUDPHeaderFromAddr ip port @ rest) =
        Inr (JoinHostPort (IP_String ip) (FormatUint (nat port)), rest)"
  proof (cases "To4 ip")
    case (Some ip4)
    obtain a b c d where ip4: "ip4 = [a, b, c, d]"
      using To4_length [OF Some] by (auto simp: length_Suc_conv numeral_eq_Suc)
    have "IP_String ip4 = IP_String ip"
      using Some len ip4 by (auto simp: IP_String_def To4_def)
    then show ?thesis
      using Some ip4 p
      by (simp add: createUDPHeaderFromAddr_def parseUDPHeader_def guardR_def uint16at_def socks_consts Let_def numeral_eq_Suc)
  next
    case None
    have "To16 ip = Some ip" "length ip = 16"
      using None len by (auto simp: To4_def To16_def)
    then show ?thesis
      using None p
      by (simp add: createUDPHeaderFromAddr_def parseUDPHeader_def guardR_def uint16at_def socks_consts Let_def)
  qed
qed

theorem parseUDPHeader_roundtrip_witness:
  "parseUDPHeader (createUDPHeaderFromAddr [192, 0, 2, 1] 53 @ [1, 2, 3]) =
     Inr (JoinHostPort (IP_String [192, 0, 2, 1]) (FormatUint 53), [1, 2, 3])"
  using parseUDPHeader_roundtrip [of "[]" "[192, 0, 2, 1]" 53 "[1, 2, 3]"] by simp

text \<open>
  All runs of the registry that the associations share. \<open>peer\<close> says to which destination each connection was dialled;
  a dial gives a new connection. The events are a datagram of some client, an inbound datagram, the end of a relay and
  the cleanup loop.
\<close>

definition fresh_raw :: "nat \<Rightarrow> 'k ConnRegistry \<Rightarrow> bool" where
  "fresh_raw raw p \<longleftrightarrow> raw \<notin> set (reg_closed p) \<and> (\<forall>w < reg_next p. raw_of p w \<noteq> raw)"

definition dials_ok :: "(nat \<Rightarrow> Destination) \<Rightarrow> (Destination \<Rightarrow> nat option) \<Rightarrow> 'k ConnRegistry \<Rightarrow> bool" where
  "dials_ok peer dial p \<longleftrightarrow> (\<forall>dst raw. dial dst = Some raw \<longrightarrow> peer raw = dst \<and> fresh_raw raw p)"

inductive relay :: "('e conn_error) desyncer \<Rightarrow> (nat \<Rightarrow> Destination) \<Rightarrow> ((NATKey \<rightharpoonup> nat) \<Rightarrow> nat list) \<Rightarrow> NATKey ConnRegistry \<Rightarrow> bool"
  for d :: "('e conn_error) desyncer" and peer :: "nat \<Rightarrow> Destination" and rng :: "(NATKey \<rightharpoonup> nat) \<Rightarrow> nat list" where
  start: "NewConnRegistry capacity timeout = Inr p \<Longrightarrow> relay d peer rng p"
| datagram: "relay d peer rng p \<Longrightarrow> dials_ok peer dial p \<Longrightarrow>
    udp_datagram resolve dial d opts client now dgram p = Inr (evs, p') \<Longrightarrow> relay d peer rng p'"
| inbound: "relay d peer rng p \<Longrightarrow> w < reg_next p \<Longrightarrow> relay d peer rng (snd (relayInboundUDP now w ip port resp p))"
| ended: "relay d peer rng p \<Longrightarrow> relay d peer rng (relay_end key p)"
| cleanup: "relay d peer rng p \<Longrightarrow> relay d peer rng (RunCleanupLoop NATKey_Bytes rng ev p)"

text \<open>Every wrapper holds a connection to the destination in its key.\<close>

definition peer_ok :: "(nat \<Rightarrow> Destination) \<Rightarrow> NATKey ConnRegistry \<Rightarrow> nat \<Rightarrow> bool" where
  "peer_ok peer p w \<longleftrightarrow> (\<exists>srcIP srcPort dstIP dstPort.
     itc_Key (reg_heap p w) = Some (NewNATKey srcIP srcPort dstIP dstPort) \<and>
     peer (raw_of p w) = \<lparr>dst_Host = [], dst_Addrs = [dstIP], dst_Port = dstPort\<rparr>)"

lemma conn_activity_simps:
  "itc_Key (reg_heap (snd (conn_activity Bytes now w p)) v) = itc_Key (reg_heap p v)"
  "itc_Conn (reg_heap (snd (conn_activity Bytes now w p)) v) = itc_Conn (reg_heap p v)"
  "reg_next (snd (conn_activity Bytes now w p)) = reg_next p"
  "reg_closed (snd (conn_activity Bytes now w p)) = reg_closed p"
proof -
  obtain r c a where e: "ExtendDeadline now (reg_heap p w) = (r, c, a)" by (metis prod.exhaust)
  note k = ExtendDeadline_keeps [OF e]
  show "itc_Key (reg_heap (snd (conn_activity Bytes now w p)) v) = itc_Key (reg_heap p v)"
    "itc_Conn (reg_heap (snd (conn_activity Bytes now w p)) v) = itc_Conn (reg_heap p v)"
    "reg_next (snd (conn_activity Bytes now w p)) = reg_next p"
    "reg_closed (snd (conn_activity Bytes now w p)) = reg_closed p"
    using k by (simp_all add: conn_activity_def e Let_def split: option.split)
qed

lemma RunCleanupLoop_simps:
  "reg_heap (RunCleanupLoop Bytes rng ev p) = reg_heap p" "reg_next (RunCleanupLoop Bytes rng ev p) = reg_next p"
proof -
  have f: "reg_heap (fold (Evict Bytes) ks p) = reg_heap p \<and> reg_next (fold (Evict Bytes) ks p) = reg_next p" for ks
    by (induction ks arbitrary: p) simp_all
  obtain P where "RunCleanupLoop Bytes rng ev p = fold (Evict Bytes) (collect rng P (reg_storage p)) p"
    using RunCleanupLoop_fold by blast
  then show "reg_heap (RunCleanupLoop Bytes rng ev p) = reg_heap p"
      "reg_next (RunCleanupLoop Bytes rng ev p) = reg_next p"
    using f by simp_all
qed

text \<open>What one datagram does: nothing, a failed dial, a write to a connection found, or one to a new connection.\<close>

definition sent_to ::
    "(string \<Rightarrow> (IP \<times> int) option) \<Rightarrow> IP \<times> int \<times> bytes \<Rightarrow> NATKey \<Rightarrow> IP \<Rightarrow> int \<Rightarrow> bytes \<Rightarrow> bool" where
  "sent_to resolve dgram key dstIP dstPort data \<longleftrightarrow> (case dgram of (srcIP, srcPort, b) \<Rightarrow>
     \<exists>host. parseUDPHeader b = Inr (host, data) \<and> resolve host = Some (dstIP, dstPort) \<and>
       key = NewNATKey srcIP srcPort dstIP dstPort)"

definition writes :: "udp_effect list \<Rightarrow> (nat \<times> bytes) list" where
  "writes evs = concat (map (\<lambda>e. case e of UWrite w data \<Rightarrow> [(w, data)] | _ \<Rightarrow> []) evs)"

lemma writes_simps [simp]:
  "writes [] = []" "writes (UWrite w data # evs) = (w, data) # writes evs" "writes (UDial dst # evs) = writes evs"
  "writes (UFakes f # evs) = writes evs" "writes (utrack d addrs opts @ evs) = writes evs"
  by (simp_all add: writes_def utrack_def UDP_PrepareHopTrack_def split: option.split)

lemma UDP_Desync_returns: "\<exists>r. UDP_Desync d (Some ip) opts = Inr r"
  by (auto simp: UDP_Desync_def split: option.split)

lemma udp_datagram_cases:
  obtains (quiet) evs where "udp_datagram resolve dial d opts client now dgram p = Inr (evs, p)" "evs = []"
  | (undialled) key dstIP dstPort data evs where "IP_Equal (fst dgram) client" "sent_to resolve dgram key dstIP dstPort data"
      "udp_datagram resolve dial d opts client now dgram p = Inr (evs, snd (Fetch NATKey_Bytes key p))" "writes evs = []"
  | (found) key dstIP dstPort data w where "IP_Equal (fst dgram) client" "sent_to resolve dgram key dstIP dstPort data"
      "fst (Fetch NATKey_Bytes key p) = Some w"
      "udp_datagram resolve dial d opts client now dgram p =
         Inr ([UWrite w data], snd (conn_activity NATKey_Bytes now w (snd (Fetch NATKey_Bytes key p))))"
  | (stored) key dstIP dstPort data raw w p' evs where "IP_Equal (fst dgram) client"
      "sent_to resolve dgram key dstIP dstPort data"
      "dial \<lparr>dst_Host = [], dst_Addrs = [dstIP], dst_Port = dstPort\<rparr> = Some raw"
      "Store NATKey_Bytes now key raw (snd (Fetch NATKey_Bytes key p)) = (w, p')"
      "udp_datagram resolve dial d opts client now dgram p = Inr (evs, snd (conn_activity NATKey_Bytes now w p'))"
      "writes evs = [(w, data)]"
proof -
  obtain srcIP srcPort b where dg: "dgram = (srcIP, srcPort, b)" by (metis prod.exhaust)
  have np: "parseUDPHeader b \<noteq> Inl Panic" for b
    using parseUDPHeader_no_panic [of b] by (auto simp: no_panic_def)
  consider "\<not> IP_Equal srcIP client" | e where "IP_Equal srcIP client" "parseUDPHeader b = Inl (Err e)"
    | host data where "IP_Equal srcIP client" "parseUDPHeader b = Inr (host, data)"
    using np [of b] by (metis fault.exhaust old.sum.exhaust prod.exhaust)
  then show ?thesis
  proof cases
    case 3
    show ?thesis
    proof (cases "resolve host")
      case None
      then show ?thesis using quiet 3 by (simp add: udp_datagram_def dg)
    next
      case (Some dst)
      obtain dstIP dstPort where dst: "dst = (dstIP, dstPort)" by fastforce
      define key where "key = NewNATKey srcIP srcPort dstIP dstPort"
      have to: "sent_to resolve dgram key dstIP dstPort data" "IP_Equal (fst dgram) client"
        using 3 Some dst by (simp_all add: sent_to_def dg key_def)
      obtain cached p1 where f: "Fetch NATKey_Bytes key p = (cached, p1)" by fastforce
      show ?thesis
      proof (cases cached)
        case (Some w)
        then show ?thesis
          using found [OF to(2,1)] 3 \<open>resolve host = Some dst\<close> dst f by (simp add: udp_datagram_def dg key_def)
      next
        case None
        show ?thesis
        proof (cases "dial \<lparr>dst_Host = [], dst_Addrs = [dstIP], dst_Port = dstPort\<rparr>")
          case None
          then show ?thesis
            using undialled [OF to(2,1)] 3 \<open>resolve host = Some dst\<close> dst f \<open>cached = None\<close>
            by (simp add: udp_datagram_def dg key_def)
        next
          case (Some raw)
          obtain w p2 where st: "Store NATKey_Bytes now key raw p1 = (w, p2)" by fastforce
          obtain n fakes where "(if \<not> udp_Skip opts then UDP_Desync d (Some dstIP) opts else Inr (0, [])) = Inr (n, fakes)"
            using UDP_Desync_returns [of d dstIP opts] by (cases "udp_Skip opts") auto
          then show ?thesis
            using stored [OF to(2,1) Some, of w p2] 3 \<open>resolve host = Some dst\<close> dst f \<open>cached = None\<close> Some st
            by (simp add: udp_datagram_def dg key_def)
        qed
      qed
    qed
  qed (use quiet in \<open>auto simp: udp_datagram_def dg\<close>)
qed


lemma relay_registry: "relay d peer rng p \<Longrightarrow> registry NATKey_Bytes rng p"
proof (induction rule: relay.induct)
  case (datagram p dial resolve opts client now dgram evs p')
  let ?f = "\<lambda>key. snd (Fetch NATKey_Bytes key p)"
  have f: "registry NATKey_Bytes rng (?f key)" for key
    using datagram.IH by (rule registry.fetch)
  show ?case
  proof (rule udp_datagram_cases [of resolve dial d opts client now dgram p])
    fix key dstIP dstPort data w
    assume found: "fst (Fetch NATKey_Bytes key p) = Some w"
      and step: "udp_datagram resolve dial d opts client now dgram p =
         Inr ([UWrite w data], snd (conn_activity NATKey_Bytes now w (?f key)))"
    have "w < reg_next (?f key)"
      using registry_inv [OF datagram.IH] found Fetch_inv(2) [OF registry_inv [OF datagram.IH], of key]
      by (auto simp: reg_inv_def owner.owned_def)
    then show ?case
      using registry.activity [OF f] step datagram.hyps(3) by simp
  next
    fix key dstIP dstPort data raw w p2 evs2
    assume dial: "dial \<lparr>dst_Host = [], dst_Addrs = [dstIP], dst_Port = dstPort\<rparr> = Some raw"
      and st: "Store NATKey_Bytes now key raw (?f key) = (w, p2)"
      and step: "udp_datagram resolve dial d opts client now dgram p = Inr (evs2, snd (conn_activity NATKey_Bytes now w p2))"
    have "fresh_raw raw (?f key)"
      using datagram.hyps(2) dial by (simp add: dials_ok_def fresh_raw_def)
    then have "registry NATKey_Bytes rng p2"
      using registry.store [OF f _ _ st] by (simp add: fresh_raw_def)
    then show ?case
      using registry.activity [of NATKey_Bytes rng p2 w now] Store_simps(2) [OF st] step datagram.hyps(3) by simp
  qed (use datagram f in auto)
qed (auto simp: relayInboundUDP_def relay_end_def intro: registry.intros)

lemma relay_peer: "relay d peer rng p \<Longrightarrow> w < reg_next p \<Longrightarrow> peer_ok peer p w"
proof (induction arbitrary: w rule: relay.induct)
  case (start capacity timeout p)
  then show ?case using NewConnRegistry_inv [OF start(1)] by simp
next
  case (datagram p dial resolve opts client now dgram evs p')
  show ?case
  proof (rule udp_datagram_cases [of resolve dial d opts client now dgram p])
    fix key dstIP dstPort data raw v p2 evs2
    assume to: "sent_to resolve dgram key dstIP dstPort data"
      and dial: "dial \<lparr>dst_Host = [], dst_Addrs = [dstIP], dst_Port = dstPort\<rparr> = Some raw"
      and st: "Store NATKey_Bytes now key raw (snd (Fetch NATKey_Bytes key p)) = (v, p2)"
      and step: "udp_datagram resolve dial d opts client now dgram p = Inr (evs2, snd (conn_activity NATKey_Bytes now v p2))"
    have p': "p' = snd (conn_activity NATKey_Bytes now v p2)"
      using step datagram.hyps(3) by simp
    have "peer raw = \<lparr>dst_Host = [], dst_Addrs = [dstIP], dst_Port = dstPort\<rparr>"
      using datagram.hyps(2) dial by (simp add: dials_ok_def)
    moreover have "\<exists>srcIP srcPort. key = NewNATKey srcIP srcPort dstIP dstPort"
      using to by (auto simp: sent_to_def)
    ultimately have "peer_ok peer p2 v"
      by (auto simp: peer_ok_def Store_simps(3) [OF st])
    moreover have "peer_ok peer p2 w" if "w < v" for w
      using datagram.IH [of w] that Store_simps(1,3) [OF st] by (simp add: peer_ok_def)
    ultimately show ?case
      using datagram.prems Store_simps(2) [OF st] by (auto simp: p' conn_activity_simps peer_ok_def less_Suc_eq)
  qed (use datagram in \<open>auto simp: peer_ok_def conn_activity_simps\<close>)
qed (auto simp: relayInboundUDP_def relay_end_def peer_ok_def conn_activity_simps RunCleanupLoop_simps)

lemma reg_inv_lookup:
  assumes "reg_inv Bytes p" and "lru_lookup Bytes (reg_storage p) key = Some w"
  shows "w < reg_next p \<and> itc_Key (reg_heap p w) = Some key \<and> raw_of p w \<notin> set (reg_closed p)"
proof -
  have w: "w < reg_next p" "key_of p w = key"
    using assms by (auto simp: reg_inv_def owner.owned_def)
  moreover have "itc_Key (reg_heap p w) \<noteq> None"
    using assms(1) w(1) by (simp add: reg_inv_def)
  ultimately show ?thesis
    using reg_inv_owns [OF assms(1) w(1)] assms(2) by auto
qed

lemma peer_ok_dst:
  assumes "peer_ok peer p w" and "itc_Key (reg_heap p w) = Some (NewNATKey srcIP srcPort dstIP dstPort)"
  shows "map copy16 (dst_Addrs (peer (raw_of p w))) = [copy16 dstIP]"
    and "(of_int (dst_Port (peer (raw_of p w))) :: u16) = of_int dstPort"
  using assms by (auto simp: peer_ok_def NewNATKey_def)




end
