(* ===== verification/Tun.thy ===== *)
theory Tun
  imports Serve
begin

text \<open>
  The TUN server of \<open>src/internal/server/tun\<close>: the forwarders and the packet pump (\<open>tun.go\<close>) and the TCP and UDP
  handlers. The user-space network stack and the device are third-party code; what they deliver is an argument.
\<close>

section \<open>Destinations of forwarded connections\<close>

datatype dst_addr_error = InvalidLocalAddr string | NonIPDestination string | NonNumericPort string

text \<open>\<open>addr\<close> is \<open>conn.LocalAddr().String()\<close>.\<close>

definition connToDst :: "string \<Rightarrow> dst_addr_error + Destination" where
  "connToDst addr =
     (case SplitHostPort addr of
        None \<Rightarrow> Inl (InvalidLocalAddr addr)
      | Some (host, portStr) \<Rightarrow>
          let ip = ParseIP host in
          if ip = [] then Inl (NonIPDestination host)
          else
            (case Atoi portStr of
               None \<Rightarrow> Inl (NonNumericPort portStr)
             | Some port \<Rightarrow> Inr \<lparr>dst_Host = host, dst_Addrs = [ip], dst_Port = port\<rparr>))"

text \<open>
  The two forwarders: an endpoint that cannot be created is reset (TCP) or ignored (UDP), a connection without a
  destination is closed, the others go to the handler.
\<close>

datatype forward = EndpointReset | EndpointIgnored | ConnClosed dst_addr_error | HandleConn Destination

definition tcpFwd :: "'e option \<Rightarrow> string \<Rightarrow> forward" where
  "tcpFwd endpointErr addr =
     (case endpointErr of
        Some _ \<Rightarrow> EndpointReset
      | None \<Rightarrow> (case connToDst addr of Inl e \<Rightarrow> ConnClosed e | Inr dst \<Rightarrow> HandleConn dst))"

definition udpFwd :: "'e option \<Rightarrow> string \<Rightarrow> forward" where
  "udpFwd endpointErr addr =
     (case endpointErr of
        Some _ \<Rightarrow> EndpointIgnored
      | None \<Rightarrow> (case connToDst addr of Inl e \<Rightarrow> ConnClosed e | Inr dst \<Rightarrow> HandleConn dst))"

section \<open>The handlers\<close>

text \<open>\<open>hasRules\<close> is \<open>h.ruleSet != nil\<close>.\<close>

definition tun_search :: "bool \<Rightarrow> ('t4, 't6, 'e) services \<Rightarrow> Query list \<Rightarrow> ('x, Rule option) res" where
  "tun_search hasRules sv qs = (if hasRules then search sv qs else Inr None)"

definition TCP_handleTLS ::
    "bool \<Rightarrow> ('t4, 't6, 'e) services \<Rightarrow> 'e outcomes \<Rightarrow> Destination \<Rightarrow> RuntimeConfig \<Rightarrow> bytes \<Rightarrow> ('e conn_error, 'e handled) res" where
  "TCP_handleTLS hasRules sv io dst cfg inp =
     (case ReadTLSMessage inp of
        Inl Panic \<Rightarrow> Inl Panic
      | Inl (Err e) \<Rightarrow> Inr (Some (ReadFailed e), [])
      | Inr (tlsMsg, rest) \<Rightarrow>
          if \<not> IsClientHello tlsMsg then Inr (Some handler_error.NotClientHello, [])
          else
            (case ExtractSNIOffset tlsMsg of
               Inl Panic \<Rightarrow> Inl Panic
             | Inl (Err e) \<Rightarrow> Inr (Some (SNIFailed e), [])
             | Inr (start, fin) \<Rightarrow>
                 bindR (slice (tls_raw tlsMsg) start fin) (\<lambda>sni.
                 let dst = dst\<lparr>dst_Host := go_string sni\<rparr> in
                 bindR (if dst_Host dst \<noteq> [] then tun_search hasRules sv (domain_query (dst_Host dst)) else Inr None)
                 (\<lambda>domainRule.
                 let cfg = effective cfg domainRule;
                     evs = track (sv_desyncer sv) (dst_Addrs dst) (rt_HTTPS cfg) @ [DialTo dst] in
                 case io_dial io dst of
                   Inl e \<Rightarrow> Inr (Some (DialFailed e), evs)
                 | Inr ip \<Rightarrow>
                     bindR (send_hello io (sv_desyncer sv) (rt_HTTPS cfg) ip tlsMsg (run_tunnel io None rest))
                       (\<lambda>(err, hevs). Inr (err, evs @ hevs))))))"

text \<open>\<open>timely\<close> says that the first byte comes within the second that the read deadline allows.\<close>

definition TCPHandler_Handle ::
    "bool \<Rightarrow> ('t4, 't6, 'e) services \<Rightarrow> 'e outcomes \<Rightarrow> bool \<Rightarrow> Destination \<Rightarrow> bytes \<Rightarrow> ('e conn_error, effect list) res" where
  "TCPHandler_Handle hasRules sv io timely dst inp =
     bindR (idx (dst_Addrs dst) 0) (\<lambda>addr.
     bindR (tun_search hasRules sv (addr_queries [addr])) (\<lambda>addrRule.
     let cfg = effective (sv_cfg sv) addrRule in
     if inp = [] \<or> \<not> timely then Inr [CloseClient]
     else if inp ! 0 = 0x16 then
       bindR (TCP_handleTLS hasRules sv io dst cfg inp) (\<lambda>(err, evs). Inr (evs @ [CloseClient]))
     else
       (case io_dial io dst of
          Inl e \<Rightarrow> Inr [DialTo dst, CloseClient]
        | Inr ip \<Rightarrow> Inr (DialTo dst # snd (run_tunnel io None inp) @ [CloseClient]))))"

definition track_udp :: "('e conn_error) desyncer \<Rightarrow> IP list \<Rightarrow> UDPOptions \<Rightarrow> effect list" where
  "track_udp d addrs opts =
     (case UDP_PrepareHopTrack (\<lambda>evs a. evs @ [TrackHops a]) (map_option (\<lambda>_. []) (d_sniffer d)) addrs opts of
        Some evs \<Rightarrow> evs
      | None \<Rightarrow> [])"

text \<open>
  The second result is the two wrapped connections of the tunnel; \<open>conns\<close> names the dialled one and the local one,
  \<open>now\<close> is the clock. The desyncer is called with the wrappers; its peer is the address dialled.
\<close>

definition UDPHandler_Handle ::
    "bool \<Rightarrow> ('t4, 't6, 'e) services \<Rightarrow> 'e outcomes \<Rightarrow> int \<Rightarrow> nat \<times> nat \<Rightarrow> Destination \<Rightarrow> bytes \<Rightarrow>
     ('e conn_error, effect list \<times> unit IdleTimeoutConn list) res" where
  "UDPHandler_Handle hasRules sv io now conns dst inp =
     bindR (idx (dst_Addrs dst) 0) (\<lambda>addr.
     bindR (tun_search hasRules sv (addr_queries [addr])) (\<lambda>matched.
     let cfg = effective (sv_cfg sv) matched;
         evs = track_udp (sv_desyncer sv) (dst_Addrs dst) (rt_UDP cfg) @ [DialTo dst] in
     case io_dial io dst of
       Inl e \<Rightarrow> Inr (evs @ [CloseClient], [])
     | Inr ip \<Rightarrow>
         let timeout = conn_UDPIdleTimeout (rt_Conn cfg);
             wrapped = map (\<lambda>c. NewIdleTimeoutConn now c timeout) [fst conns, snd conns] in
         bindR (if \<not> udp_Skip (rt_UDP cfg) then UDP_Desync (sv_desyncer sv) (Some ip) (rt_UDP cfg) else Inr (0, []))
           (\<lambda>(_, fakes).
           Inr (evs @ InjectFakes fakes # snd (run_tunnel io None inp) @ [CloseClient], wrapped))))"

definition Tun_SetupNetworkJobs ::
    "string \<Rightarrow> 'e + NetworkJob list \<Rightarrow> 'e option \<Rightarrow> 'e job_file \<Rightarrow> (string \<times> 'e option) \<times> 'e job_file" where
  "Tun_SetupNetworkJobs stateFile built writeErr file =
     (case built of
        Inl e \<Rightarrow> (([], Some e), file)
      | Inr jobs \<Rightarrow> let (err, file) = SaveJobs writeErr stateFile jobs file in ((stateFile, err), file))"

section \<open>The packet pump\<close>

definition readOffset :: nat where "readOffset = 10"
definition mtu :: nat where "mtu = 1500"
definition bufSize :: nat where "bufSize = readOffset + mtu"
definition writeOffset :: nat where "writeOffset = 10"

text \<open>
  One \<open>Read\<close> of the device: the number of packets, the sizes, and the backing array that all buffers share. Buffer
  \<open>i\<close> starts at \<open>i * bufSize\<close>; a slice of it may reach to the end of the backing array and panics beyond.
\<close>

datatype tun_read = TunRead nat "int list" bytes | TunClosed | TunReadErr

definition pump_packet :: "int list \<Rightarrow> bytes \<Rightarrow> nat \<Rightarrow> (unit, bytes list) res" where
  "pump_packet sizes backing i =
     bindR (idx sizes i) (\<lambda>size.
     if size < 1 then Inr []
     else
       bindR (slice (drop (i * bufSize) backing) readOffset (readOffset + nat size)) (\<lambda>packet.
       bindR (idx packet 0) (\<lambda>b.
       if drop_bit 4 b \<noteq> 4 then Inr [] else Inr [packet])))"

fun pump_batch :: "int list \<Rightarrow> bytes \<Rightarrow> nat list \<Rightarrow> (unit, bytes list) res" where
  "pump_batch sizes backing [] = Inr []"
| "pump_batch sizes backing (i # is) =
     bindR (pump_packet sizes backing i) (\<lambda>ps. bindR (pump_batch sizes backing is) (\<lambda>qs. Inr (ps @ qs)))"

text \<open>The packets injected into the stack, over a sequence of reads.\<close>

fun tunToStack :: "tun_read list \<Rightarrow> (unit, bytes list) res" where
  "tunToStack [] = Inr []"
| "tunToStack (TunRead n sizes backing # reads) =
     bindR (pump_batch sizes backing [0..<n]) (\<lambda>ps. bindR (tunToStack reads) (\<lambda>qs. Inr (ps @ qs)))"
| "tunToStack (TunClosed # reads) = Inr []"
| "tunToStack (TunReadErr # reads) = Inr []"

text \<open>
  The other direction. A turn of the loop gets a packet of the stack and a buffer of the pool, which may hold old
  bytes, or finds no packet and waits. The result is the buffers written to the device at \<open>writeOffset\<close>.
\<close>

datatype stack_turn = StackPacket bytes bytes | StackEmpty | StackDone

definition frame :: "bytes \<Rightarrow> bytes \<Rightarrow> bytes" where
  "frame view pooled =
     (let needed = writeOffset + length view;
          bp = (if length pooled < needed then replicate needed 0 else pooled);
          buf = take needed bp in
      take writeOffset buf @ view @ drop (writeOffset + length view) buf)"

fun stackToTun :: "stack_turn list \<Rightarrow> bytes list" where
  "stackToTun [] = []"
| "stackToTun (StackPacket view pooled # turns) =
     (if length view > 0 then frame view pooled # stackToTun turns else stackToTun turns)"
| "stackToTun (StackEmpty # turns) = stackToTun turns"
| "stackToTun (StackDone # turns) = []"

text \<open>
  How \<open>stackToTun\<close> waits. The stack queues a packet and then calls \<open>WriteNotify\<close>, which puts a token into a channel
  of capacity one unless it holds one; the loop reads until the queue is empty and then blocks on the channel.
  \<open>pm_notify\<close> counts the packets whose notification is still to come, \<open>pm_queued\<close> collects all packets ever queued.
\<close>

record pump =
  pm_queue :: "bytes list"
  pm_ch :: nat
  pm_notify :: nat
  pm_waiting :: bool
  pm_out :: "bytes list"
  pm_queued :: "bytes list"

definition WriteNotify :: "nat \<Rightarrow> nat" where
  "WriteNotify ch = (if ch < 1 then ch + 1 else ch)"

definition pump_start :: pump where
  "pump_start = \<lparr>pm_queue = [], pm_ch = 0, pm_notify = 0, pm_waiting = False, pm_out = [], pm_queued = []\<rparr>"

inductive stack_step :: "pump \<Rightarrow> pump \<Rightarrow> bool" where
  enqueue: "stack_step s (s\<lparr>pm_queue := pm_queue s @ [p], pm_notify := Suc (pm_notify s), pm_queued := pm_queued s @ [p]\<rparr>)"
| notified: "pm_notify s = Suc n \<Longrightarrow> stack_step s (s\<lparr>pm_ch := WriteNotify (pm_ch s), pm_notify := n\<rparr>)"

inductive pump_step :: "pump \<Rightarrow> pump \<Rightarrow> bool" where
  received: "\<not> pm_waiting s \<Longrightarrow> pm_queue s = p # ps \<Longrightarrow> pump_step s (s\<lparr>pm_queue := ps, pm_out := pm_out s @ [p]\<rparr>)"
| emptied: "\<not> pm_waiting s \<Longrightarrow> pm_queue s = [] \<Longrightarrow> pump_step s (s\<lparr>pm_waiting := True\<rparr>)"
| woken: "pm_waiting s \<Longrightarrow> pm_ch s = Suc n \<Longrightarrow> pump_step s (s\<lparr>pm_waiting := False, pm_ch := n\<rparr>)"

inductive_simps pump_step_simps: "pump_step s s'"

inductive pump_run :: "pump \<Rightarrow> bool" where
  start: "pump_run pump_start"
| stack: "pump_run s \<Longrightarrow> stack_step s s' \<Longrightarrow> pump_run s'"
| loop: "pump_run s \<Longrightarrow> pump_step s s' \<Longrightarrow> pump_run s'"

section \<open>Properties of the packet pump\<close>

definition pump_inv :: "pump \<Rightarrow> bool" where
  "pump_inv s \<longleftrightarrow> pm_out s @ pm_queue s = pm_queued s \<and> (pm_waiting s \<longrightarrow> pm_queue s \<noteq> [] \<longrightarrow> 0 < pm_ch s + pm_notify s)"

lemma pump_inv_step: "pump_step s s' \<Longrightarrow> pump_inv s \<Longrightarrow> pump_inv s'"
  by (induction rule: pump_step.induct) (auto simp: pump_inv_def)

lemma pump_run_inv: "pump_run s \<Longrightarrow> pump_inv s"
proof (induction rule: pump_run.induct)
  case (stack s s')
  from stack.hyps(2) stack.IH show ?case
    by (cases rule: stack_step.cases) (auto simp: pump_inv_def WriteNotify_def)
next
  case start
  show ?case by (simp add: pump_inv_def pump_start_def)
qed (rule pump_inv_step)

definition pump_measure :: "pump \<Rightarrow> nat" where
  "pump_measure s = length (pm_queue s) + 2 * pm_ch s + (if pm_waiting s then 0 else 1)"

lemma pump_step_decreases: "pump_step s s' \<Longrightarrow> pump_measure s' < pump_measure s"
  by (induction rule: pump_step.induct) (auto simp: pump_measure_def)

lemma pump_step_queued: "pump_step s s' \<Longrightarrow> pm_queued s' = pm_queued s \<and> pm_notify s' = pm_notify s"
  by (induction rule: pump_step.induct) auto

lemma pump_steps_keep:
  "pump_step\<^sup>*\<^sup>* s s' \<Longrightarrow> pump_inv s \<Longrightarrow> pump_inv s' \<and> pm_queued s' = pm_queued s \<and> pm_notify s' = pm_notify s"
  by (induction rule: rtranclp_induct) (auto simp: pump_inv_step pump_step_queued)

lemma pump_stuck:
  assumes "pump_inv s" and "pm_notify s = 0" and "\<forall>s'. \<not> pump_step s s'"
  shows "pm_queue s = []"
proof (rule ccontr)
  assume ne: "pm_queue s \<noteq> []"
  show False
  proof (cases "pm_waiting s")
    case True
    then obtain n where "pm_ch s = Suc n"
      using assms(1,2) ne by (auto simp: pump_inv_def gr0_conv_Suc)
    with True assms(3) show False using pump_step.woken by blast
  next
    case False
    with ne assms(3) show False using pump_step.received by (metis neq_Nil_conv)
  qed
qed



lemma reaches_stuck:
  assumes "wfP (\<lambda>y x. r x y)"
  shows "\<exists>y. r\<^sup>*\<^sup>* x y \<and> (\<forall>z. \<not> r y z)"
  using assms by (induction x rule: wfp_induct_rule) (meson converse_rtranclp_into_rtranclp rtranclp.rtrancl_refl)


text \<open>What a device promises for a read: each packet fits the MTU and is in its buffer at the offset.\<close>

definition device_read :: "int list \<Rightarrow> bytes \<Rightarrow> bytes list \<Rightarrow> bool" where
  "device_read sizes backing pkts \<longleftrightarrow> length pkts \<le> length sizes \<and> length backing = length sizes * bufSize \<and>
     list_all (\<lambda>i. sizes ! i = int (length (pkts ! i)) \<and> length (pkts ! i) \<le> mtu \<and>
       take (length (pkts ! i)) (drop (i * bufSize + readOffset) backing) = pkts ! i) [0..<length pkts]"

definition is_ipv4 :: "bytes \<Rightarrow> bool" where
  "is_ipv4 p \<longleftrightarrow> p \<noteq> [] \<and> drop_bit 4 (hd p) = 4"

lemma pump_packet_read:
  assumes "device_read sizes backing pkts" and "i < length pkts"
  shows "pump_packet sizes backing i = Inr (filter is_ipv4 [pkts ! i])"
proof -
  let ?p = "pkts ! i"
  have ok: "sizes ! i = int (length ?p)" "length ?p \<le> mtu"
      "take (length ?p) (drop (i * bufSize + readOffset) backing) = ?p"
    and len: "i < length sizes" "length backing = length sizes * bufSize"
    using assms by (auto simp: device_read_def list_all_iff)
  have "Suc i * bufSize \<le> length sizes * bufSize"
    using len(1) by (intro mult_le_mono1) simp
  then have "readOffset + length ?p \<le> length (drop (i * bufSize) backing)"
    using ok(2) len(2) by (simp add: bufSize_def)
  then have "(slice (drop (i * bufSize) backing) readOffset (readOffset + length ?p) :: (unit, bytes) res) = Inr ?p"
    using ok(3) by (simp add: slice_def add.commute)
  then show ?thesis
    using ok(1) len(1) by (cases "?p = []") (simp_all add: pump_packet_def is_ipv4_def hd_conv_nth not_less Suc_le_eq)
qed

lemma pump_batch_read:
  assumes "device_read sizes backing pkts" and "list_all (\<lambda>i. i < length pkts) is"
  shows "pump_batch sizes backing is = Inr (filter is_ipv4 (map (\<lambda>i. pkts ! i) is))"
  using assms(2) by (induction "is") (simp_all add: pump_packet_read [OF assms(1)])

lemma frame_payload: "take writeOffset (frame view pooled) @ view = frame view pooled"
    "drop writeOffset (frame view pooled) = view"
  by (auto simp: frame_def Let_def writeOffset_def)

text \<open>
  C18: the pump carries packets unchanged. Over any sequence of reads of a device that keeps its promise, no slice is
  out of range and what is injected into the stack is the packets whose version nibble is 4, complete and in order;
  and what is written to the device for packets of the stack is, from the write offset on, exactly the non-empty
  packets in order, whatever the pooled buffers held before.
\<close>

theorem pump_packets:
  assumes "list_all (\<lambda>(sizes, backing, pkts). device_read sizes backing pkts) reads"
  shows "tunToStack (map (\<lambda>(sizes, backing, pkts). TunRead (length pkts) sizes backing) reads) =
      Inr (filter is_ipv4 (concat (map (\<lambda>(_, _, pkts). pkts) reads))) \<and>
    map (drop writeOffset) (stackToTun (map (\<lambda>(view, pooled). StackPacket view pooled) turns)) =
      filter (\<lambda>v. v \<noteq> []) (map fst turns)"
proof (rule conjI)
  show "tunToStack (map (\<lambda>(sizes, backing, pkts). TunRead (length pkts) sizes backing) reads) =
      Inr (filter is_ipv4 (concat (map (\<lambda>(_, _, pkts). pkts) reads)))"
    using assms
  proof (induction reads)
    case (Cons r reads)
    obtain sizes backing pkts where r: "r = (sizes, backing, pkts)" by (metis prod.exhaust)
    have "pump_batch sizes backing [0..<length pkts] = Inr (filter is_ipv4 pkts)"
      using pump_batch_read [of sizes backing pkts "[0..<length pkts]"] Cons.prems r
      by (simp add: list_all_iff map_nth)
    then show ?case using Cons r by simp
  qed simp
  show "map (drop writeOffset) (stackToTun (map (\<lambda>(view, pooled). StackPacket view pooled) turns)) =
      filter (\<lambda>v. v \<noteq> []) (map fst turns)"
    by (induction turns) (auto simp: frame_payload)
qed

theorem pump_packets_witness:
  "tunToStack [TunRead (Suc (Suc 0)) [1, 1] ((replicate 10 0 @ 69 # replicate 1499 0) @ (replicate 10 0 @ 96 # replicate 1499 0))] =
     Inr [[69]]"
proof -
  let ?backing = "(replicate 10 0 @ 69 # replicate 1499 0) @ (replicate 10 0 @ 96 # replicate 1499 0) :: bytes"
  have "device_read [1, 1] ?backing [[69], [96]]"
    by (simp add: device_read_def bufSize_def readOffset_def mtu_def upt_rec)
  then show ?thesis
    using pump_packets [of "[([1, 1], ?backing, [[69], [96]])]" "[]"]
    by (simp add: is_ipv4_def del: tunToStack.simps)
qed


section \<open>What the TCP handler sends\<close>

lemma tun_search_served:
  assumes "served sv io" and "hello_ok io (rt_HTTPS cfg)"
  shows "\<exists>r. tun_search hasRules sv qs = Inr r \<and> hello_ok io (rt_HTTPS (effective cfg r))"
proof -
  have "\<exists>r. search sv qs = Inr r \<and> hello_ok io (rt_HTTPS (effective cfg r))"
    using served_search [OF assms(1), of qs] assms(2) by (force simp: effective_def split: option.splits)
  then show ?thesis
    using assms(2) by (auto simp: tun_search_def effective_def)
qed

definition same_dst :: "Destination \<Rightarrow> Destination \<Rightarrow> bool" where
  "same_dst dst dst' \<longleftrightarrow> dst_Addrs dst' = dst_Addrs dst \<and> dst_Port dst' = dst_Port dst"

lemma TCP_handleTLS_lossless:
  fixes sv :: "('t4, 't6, 'e) services"
  assumes "served sv io" and "hello_ok io (rt_HTTPS cfg)"
  shows "\<exists>err evs. TCP_handleTLS hasRules sv io dst cfg inp = Inr (err, evs) \<and> lossless inp evs \<and>
    list_all (same_dst dst) (dials evs)"
proof (cases "ReadTLSMessage inp")
  case (Inl e)
  then show ?thesis
    using ReadTLSMessage_no_panic [of inp] by (cases e) (auto simp: TCP_handleTLS_def lossless_def)
next
  case (Inr m)
  obtain msg rest where m: "m = (msg, rest)" by fastforce
  have inp: "inp = tls_raw msg @ rest"
    using ReadTLSMessage_consumes [of inp msg rest] Inr m by simp
  consider "\<not> IsClientHello msg" | e where "IsClientHello msg" "ExtractSNIOffset msg = Inl (Err e)"
    | start fin where "IsClientHello msg" "ExtractSNIOffset msg = Inr (start, fin)" "start \<le> fin" "fin \<le> length (tls_raw msg)"
    using ExtractSNIOffset_within [of msg]
    by (cases "IsClientHello msg"; cases "ExtractSNIOffset msg")
      (auto simp: sni_within_def intro: fault.exhaust split: prod.splits)
  then show ?thesis
  proof cases
    case 3
    let ?dst = "dst\<lparr>dst_Host := go_string (take (fin - start) (drop start (tls_raw msg)))\<rparr>"
    have sl: "(slice (tls_raw msg) start fin :: ('e conn_error, bytes) res) = Inr (take (fin - start) (drop start (tls_raw msg)))"
      using 3 by (simp add: slice_def)
    obtain r where r: "(if dst_Host ?dst \<noteq> [] then tun_search hasRules sv (domain_query (dst_Host ?dst)) else Inr None) =
        (Inr r :: ('e conn_error, Rule option) res)" "hello_ok io (rt_HTTPS (effective cfg r))"
      using tun_search_served [OF assms, of hasRules "domain_query (dst_Host ?dst)"] assms(2)
      by (cases "dst_Host ?dst = []") (auto simp: effective_def)
    show ?thesis
    proof (cases "io_dial io ?dst")
      case (Inl e)
      then show ?thesis
        using Inr m 3 sl r by (simp add: TCP_handleTLS_def Let_def lossless_def same_dst_def)
    next
      case dial: (Inr ip)
      obtain err evs where
        "send_hello io (sv_desyncer sv) (rt_HTTPS (effective cfg r)) ip msg (run_tunnel io None rest) = Inr (err, evs)"
        "lossless inp evs" "dials evs = []"
        using send_hello_lossless [OF r(2), of "sv_desyncer sv" ip msg None rest] inp by fastforce
      then show ?thesis
        using Inr m 3 sl r(1) dial by (simp add: TCP_handleTLS_def Let_def lossless_def same_dst_def)
    qed
  qed (use Inr m in \<open>auto simp: TCP_handleTLS_def lossless_def\<close>)
qed

lemma TCPHandler_lossless:
  fixes sv :: "('t4, 't6, 'e) services"
  assumes "served sv io" and "dst_Addrs dst \<noteq> []"
  shows "\<exists>evs. TCPHandler_Handle hasRules sv io timely dst inp = Inr evs \<and> lossless inp evs \<and>
    list_all (same_dst dst) (dials evs)"
proof -
  obtain addr where addr: "(idx (dst_Addrs dst) 0 :: ('e conn_error, IP) res) = Inr addr"
    using assms(2) by (simp add: idx_def)
  obtain r where r: "(tun_search hasRules sv (addr_queries [addr]) :: ('e conn_error, Rule option) res) = Inr r"
      "hello_ok io (rt_HTTPS (effective (sv_cfg sv) r))"
    using tun_search_served [OF assms(1) served_default [OF assms(1)]] by blast
  obtain err evs where t: "TCP_handleTLS hasRules sv io dst (effective (sv_cfg sv) r) inp = Inr (err, evs)"
      "lossless inp evs" "list_all (same_dst dst) (dials evs)"
    using TCP_handleTLS_lossless [OF assms(1) r(2)] by blast
  show ?thesis
    unfolding TCPHandler_Handle_def addr bindR_simps r(1) Let_def
    using t by (cases "io_dial io dst") (auto simp: lossless_def same_dst_def)
qed

text \<open>The destination of an IPv4 connection is the address and the port it was sent to.\<close>

lemma connToDst_local:
  assumes "To4 ip = Some ip4" and "port < 2 ^ 16"
  shows "connToDst (JoinHostPort (IP_String ip) (FormatUint port)) =
    Inr \<lparr>dst_Host = v4String ip4, dst_Addrs = [v4InV6Prefix @ ip4], dst_Port = int port\<rparr>"
proof -
  have host: "IP_String ip = v4String ip4"
    using assms(1) by (auto simp: IP_String_def To4_def split: if_splits)
  have digits: "list_all isDigit (FormatUint n)" "FormatUint n \<noteq> []" for n
    using FormatUint_digits [of n] by auto
  have plain: "plain_host (FormatUint n)" for n
    using digits [of n] by (auto simp: plain_host_def list_all_iff isDigit_def)
  obtain a b c d where ip4: "ip4 = [a, b, c, d]"
    using To4_length [OF assms(1)] by (auto simp: length_Suc_conv numeral_eq_Suc)
  have h: "plain_host (v4String ip4)"
    using plain by (auto simp: ip4 v4String_def plain_host_def)
  have "Atoi (FormatUint port) = Some (int port)"
    using digits [of port] assms(2) decVal_FormatUint [of port]
    by (cases "FormatUint port") (auto simp: Atoi_def Let_def isDigit_def)
  then show ?thesis
    using SplitHostPort_join [OF h plain [of port]] ParseIP_v4String [OF To4_length [OF assms(1)]] host h
    by (simp add: connToDst_def JoinHostPort_def plain_host_def ip4)
qed

text \<open>Neither handler looks at the \<open>Block\<close> flag of the rule it found: a connection to a blocked address is made.\<close>

lemma TCPHandler_ignores_block:
  fixes sv :: "('t4, 't6, 'e) services"
  assumes "dst_Addrs dst = [addr]" and "search sv (addr_queries [addr]) = (Inr (Some r) :: ('e conn_error, Rule option) res)"
    and "rule_Block r" and "inp \<noteq> []" and "inp ! 0 \<noteq> 0x16" and "io_dial io dst = Inr ip"
  shows "TCPHandler_Handle True sv io True dst inp = Inr [DialTo dst, StartTunnel inp, CloseRemote, CloseClient]"
  using assms by (simp add: TCPHandler_Handle_def tun_search_def idx_def)

end
