(* ===== verification/SysNet.thy ===== *)
theory SysNet
  imports Packet Dial NetText Trie
begin

text \<open>
  The system network set-up: the choice of a private subnet (\<open>src/internal/netutil/system.go\<close>), the command quoting of
  \<open>src/internal/executil\<close>, and the platform files of \<open>src/internal/server\<close> that build the network jobs and bind the
  dialers of the TUN server, and the proxy settings on Darwin. The commands' results are an argument \<open>exec\<close>: the output
  and the error of a command line.
\<close>

type_synonym 'e shell = "string \<Rightarrow> string \<times> 'e option"

section \<open>Addresses\<close>

text \<open>
  \<open>IPNet.Contains\<close> and \<open>IPNet.String\<close> for a net whose mask is the CIDR mask of its address family, and the big-endian
  \<open>PutUint32\<close>.
\<close>

definition norm4 :: "IP \<Rightarrow> IP" where
  "norm4 ip = (case To4 ip of Some ip4 \<Rightarrow> ip4 | None \<Rightarrow> ip)"

definition IPNet_Contains :: "IPNet \<Rightarrow> IP \<Rightarrow> bool" where
  "IPNet_Contains n ip \<longleftrightarrow>
     (let nn = norm4 (net_IP n); x = norm4 ip; m = CIDRMask (net_Ones n) (8 * length x) in
      (length nn = 4 \<or> length nn = 16) \<and> length x = length nn \<and> map2 (AND) nn m = map2 (AND) x m)"

definition IPNet_String :: "IPNet \<Rightarrow> string" where
  "IPNet_String n = IP_String (net_IP n) @ ''/'' @ FormatUint (net_Ones n)"

definition put32 :: "u32 \<Rightarrow> bytes" where
  "put32 w = [ucast (drop_bit 24 w), ucast (drop_bit 16 w), ucast (drop_bit 8 w), ucast w]"

definition IPv4 :: "byte \<Rightarrow> byte \<Rightarrow> byte \<Rightarrow> byte \<Rightarrow> IP" where
  "IPv4 a b c d = v4InV6Prefix @ [a, b, c, d]"

definition IP_IsLoopback :: "IP \<Rightarrow> bool" where
  "IP_IsLoopback ip =
     (case To4 ip of Some ip4 \<Rightarrow> ip4 ! 0 = 127 | None \<Rightarrow> IP_Equal ip (replicate 15 0 @ [1]))"

section \<open>A private subnet\<close>

datatype 'e cidr_error = InterfaceAddrs 'e | NoSafeCIDR | BadCIDR string | NotIPv4CIDR | OutOfRange int string

text \<open>\<open>addrs\<close> are the addresses of the interfaces; None is one that is no \<open>*net.IPNet\<close>.\<close>

definition safe_conflict :: "IPNet list \<Rightarrow> nat \<Rightarrow> nat \<Rightarrow> bool" where
  "safe_conflict existingNets i j \<longleftrightarrow>
     list_ex (\<lambda>ipnet. IPNet_Contains ipnet (IPv4 10 (of_nat i) (of_nat j) 1) \<or>
       IPNet_Contains ipnet (IPv4 10 (of_nat i) (of_nat j) 2)) existingNets"

definition FindSafeCIDR :: "'e + IPNet option list \<Rightarrow> 'e cidr_error + string" where
  "FindSafeCIDR addrs =
     (case addrs of
        Inl e \<Rightarrow> Inl (InterfaceAddrs e)
      | Inr l \<Rightarrow>
          let existingNets = List.map_filter id l in
          (case find (\<lambda>(i, j). \<not> safe_conflict existingNets i j) (List.product [0..<256] [0..<256]) of
             Some (i, j) \<Rightarrow> Inr (''10.'' @ FormatUint i @ ''.'' @ FormatUint j @ ''.0/30'')
           | None \<Rightarrow> Inl NoSafeCIDR))"

definition AddrInCIDR :: "string \<Rightarrow> int \<Rightarrow> 'e cidr_error + string" where
  "AddrInCIDR cidr n =
     (case ParseCIDR cidr of
        None \<Rightarrow> Inl (BadCIDR cidr)
      | Some (ip, ipnet) \<Rightarrow>
          (case To4 ip of
             None \<Rightarrow> Inl NotIPv4CIDR
           | Some ip4 \<Rightarrow>
               let ipInt = be32 ip4; resultInt = ipInt + of_int n; resultIP = put32 resultInt in
               if \<not> IPNet_Contains ipnet resultIP then Inl (OutOfRange n cidr) else Inr (IP_String resultIP)))"

section \<open>Commands\<close>

fun quoteChars :: "string \<Rightarrow> string" where
  "quoteChars [] = []"
| "quoteChars (c # cs) = (if c = CHR 0x27 then [CHR 0x27, CHR 0x5C, CHR 0x27, CHR 0x27] else [c]) @ quoteChars cs"

definition Quote :: "string \<Rightarrow> string" where
  "Quote s = CHR 0x27 # quoteChars s @ [CHR 0x27]"

text \<open>\<open>shellFields\<close> is \<open>shell.Fields\<close>, \<open>run\<close> the process that is started.\<close>

definition Command :: "(string \<Rightarrow> 'e + string list) \<Rightarrow> (string \<Rightarrow> string list \<Rightarrow> string \<times> 'e option) \<Rightarrow> 'e shell" where
  "Command shellFields run cmd =
     (case shellFields cmd of
        Inl e \<Rightarrow> ([], Some e)
      | Inr [] \<Rightarrow> ([], None)
      | Inr (a # args) \<Rightarrow> run a args)"

section \<open>The TUN network on Linux\<close>

record tunNetworkInfoLinux =
  li_RouteTableID :: int
  li_GatewayIP :: string
  li_TUNName :: string
  li_PhysIfaceName :: string
  li_PhysIfaceIP :: string
  li_TunLocalIP :: string
  li_TunRemoteIP :: string
  li_RouteTargetCIDRs :: "string list"

datatype table_error = NoTableID

datatype 'e iface_error = IfaceCmd 'e | IPNotFound string | IfaceByName string 'e | IfaceAddrs 'e | NoIPv4 string

datatype 'e info_error = TunName 'e | TableID table_error | IfaceIP "'e iface_error" | SafeSubnet "'e cidr_error"
  | NthIP int string "'e cidr_error" | FIBInUse int

definition str :: "int \<Rightarrow> string" where
  "str n = (if n < 0 then CHR ''-'' # FormatUint (nat (- n)) else FormatUint (nat n))"

fun tableID_loop :: "'e shell \<Rightarrow> int list \<Rightarrow> int \<times> table_error option" where
  "tableID_loop exec [] = (0, Some NoTableID)"
| "tableID_loop exec (tid # tids) =
     (let (out, err) = exec (''ip route show table '' @ str tid) in
      if err \<noteq> None then (tid, None)
      else if length out > 0 then tableID_loop exec tids
      else
        let ruleTableOut = fst (exec (''ip rule show table '' @ str tid));
            ruleLookupOut = fst (exec (''ip rule show lookup '' @ str tid)) in
        if length ruleTableOut > 0 \<or> length ruleLookupOut > 0 then tableID_loop exec tids else (tid, None))"

definition findAvailableTableID :: "'e shell \<Rightarrow> int \<times> table_error option" where
  "findAvailableTableID exec = tableID_loop exec [200..250]"

text \<open>The process-wide \<open>allocatedTableID\<close> and whether its \<open>sync.Once\<close> has run.\<close>

record table_once =
  allocatedTableID :: int
  table_done :: bool

definition getOrAllocateTableID :: "'e shell \<Rightarrow> table_once \<Rightarrow> (int \<times> table_error option) \<times> table_once" where
  "getOrAllocateTableID exec st =
     (let (initErr, st) =
        (if table_done st then (None, st)
         else let (tid, err) = findAvailableTableID exec in (err, \<lparr>allocatedTableID = tid, table_done = True\<rparr>)) in
      if allocatedTableID st = 0 then ((0, initErr), st) else ((allocatedTableID st, None), st))"

text \<open>\<open>strings.Fields\<close>: the pieces between runs of white space.\<close>

function takeField :: "string \<Rightarrow> string" where
  "takeField s = (if s = [] \<or> spacePrefix goSpaces s \<noteq> 0 then [] else hd s # takeField (tl s))"
  by pat_completeness auto
termination
  by (relation "measure length") auto

declare takeField.simps [simp del]

lemma takeField_length: "length (takeField s) \<le> length s"
  by (induction s rule: takeField.induct) (subst takeField.simps, auto simp: neq_Nil_conv)

lemma trimLeftWith_length: "length (trimLeftWith sps s) \<le> length s"
  by (induction sps s rule: trimLeftWith.induct) (subst trimLeftWith.simps, auto)

function Fields :: "string \<Rightarrow> string list" where
  "Fields s =
     (let t = trimLeftWith goSpaces s; f = takeField t in
      if f = [] then [] else f # Fields (drop (length f) t))"
  by pat_completeness auto
termination
  by (relation "measure length") (auto, metis diff_less length_greater_0_conv less_le_trans takeField_length
      trimLeftWith_length le_less_trans diff_le_self less_imp_diff_less)

declare Fields.simps [simp del]

fun ip_lines :: "string \<Rightarrow> string list \<Rightarrow> 'e iface_error + string" where
  "ip_lines ifaceName [] = Inl (IPNotFound ifaceName)"
| "ip_lines ifaceName (l # ls) =
     (let line = TrimSpace l; parts = Fields line in
      if HasPrefix line ''inet '' \<and> length parts \<ge> 2 then Inr (hd (strSplit CHR ''/'' (parts ! 1)))
      else ip_lines ifaceName ls)"

definition getInterfaceIP :: "'e shell \<Rightarrow> string \<Rightarrow> 'e iface_error + string" where
  "getInterfaceIP exec ifaceName =
     (let (out, err) = exec (''ip -4 addr show '' @ ifaceName) in
      case err of
        Some e \<Rightarrow> Inl (IfaceCmd e)
      | None \<Rightarrow> ip_lines ifaceName (strSplit CHR 0x0A out))"


text \<open>
  What all platforms compute for the device: its two addresses in a safe subnet and the routes to send through it.
  \<open>tunCIDR\<close> is nil where the parse fails, and its use panics.
\<close>

definition tun_addresses ::
    "'e + IPNet option list \<Rightarrow> ('e info_error, string \<times> string \<times> string list) res" where
  "tun_addresses addrs =
     (case FindSafeCIDR addrs of
        Inl e \<Rightarrow> Inl (Err (SafeSubnet e))
      | Inr cidr \<Rightarrow>
          (case AddrInCIDR cidr 1 of
             Inl e \<Rightarrow> Inl (Err (NthIP 1 cidr e))
           | Inr tunLocalIP \<Rightarrow>
               (case AddrInCIDR cidr 2 of
                  Inl e \<Rightarrow> Inl (Err (NthIP 2 cidr e))
                | Inr tunRemoteIP \<Rightarrow>
                    (case ParseCIDR (tunLocalIP @ ''/30'') of
                       None \<Rightarrow> Inl Panic
                     | Some (_, tunCIDR) \<Rightarrow>
                         Inr (tunLocalIP, tunRemoteIP, [IPNet_String tunCIDR, ''0.0.0.0/1'', ''128.0.0.0/1''])))))"

text \<open>\<open>tunName\<close> is the name of the device or the error of asking for it.\<close>

definition collectNetworkInfo_linux ::
    "'e shell \<Rightarrow> 'e + IPNet option list \<Rightarrow> 'e + string \<Rightarrow> Route \<Rightarrow> table_once \<Rightarrow>
     ('e info_error, tunNetworkInfoLinux) res \<times> table_once" where
  "collectNetworkInfo_linux exec addrs tunName route st =
     (case tunName of
        Inl e \<Rightarrow> (Inl (Err (TunName e)), st)
      | Inr tunName \<Rightarrow>
          (case getOrAllocateTableID exec st of
             ((_, Some e), st) \<Rightarrow> (Inl (Err (TableID e)), st)
           | ((routeTableID, None), st) \<Rightarrow>
               (case getInterfaceIP exec (if_Name (route_Iface route)) of
                  Inl e \<Rightarrow> (Inl (Err (IfaceIP e)), st)
                | Inr physIfaceIP \<Rightarrow>
                    (bindR (tun_addresses addrs) (\<lambda>(tunLocalIP, tunRemoteIP, targets).
                     Inr \<lparr>li_RouteTableID = routeTableID, li_GatewayIP = IP_String (route_Gateway route),
                          li_TUNName = tunName, li_PhysIfaceName = if_Name (route_Iface route),
                          li_PhysIfaceIP = physIfaceIP, li_TunLocalIP = tunLocalIP, li_TunRemoteIP = tunRemoteIP,
                          li_RouteTargetCIDRs = targets\<rparr>), st))))"

definition job :: "string \<Rightarrow> string \<Rightarrow> string \<Rightarrow> NetworkJob" where
  "job description apply reset = \<lparr>job_Description = description, job_Apply = apply, job_Reset = reset\<rparr>"

definition jobs_linux :: "tunNetworkInfoLinux \<Rightarrow> NetworkJob list" where
  "jobs_linux info =
     [job ''remove TUN interface'' [] (''ip link delete '' @ li_TUNName info),
      job ''configure TUN interface address''
        (''ip addr add '' @ li_TunLocalIP info @ '' peer '' @ li_TunRemoteIP info @ '' dev '' @ li_TUNName info)
        (''ip addr del '' @ li_TunLocalIP info @ '' peer '' @ li_TunRemoteIP info @ '' dev '' @ li_TUNName info),
      job ''bring TUN interface up''
        (''ip link set dev '' @ li_TUNName info @ '' up'') (''ip link set dev '' @ li_TUNName info @ '' down''),
      job ''add gateway host route''
        (''ip route add '' @ li_GatewayIP info @ '' dev '' @ li_PhysIfaceName info)
        (''ip route del '' @ li_GatewayIP info @ '' dev '' @ li_PhysIfaceName info),
      job ''add default route to routing table''
        (''ip route add default via '' @ li_GatewayIP info @ '' dev '' @ li_PhysIfaceName info @ '' table '' @
           str (li_RouteTableID info))
        (''ip route del default table '' @ str (li_RouteTableID info)),
      job ''add policy routing rule''
        (''ip rule add from '' @ li_PhysIfaceIP info @ '' lookup '' @ str (li_RouteTableID info))
        (''ip rule del from '' @ li_PhysIfaceIP info @ '' lookup '' @ str (li_RouteTableID info))] @
     map (\<lambda>t. job (''add CIDR route '' @ t @ '' via TUN'') (''ip route add '' @ t @ '' dev '' @ li_TUNName info)
                (''ip route del '' @ t @ '' dev '' @ li_TUNName info)) (li_RouteTargetCIDRs info)"

definition BuildJobs_linux ::
    "'e shell \<Rightarrow> 'e + IPNet option list \<Rightarrow> 'e + string \<Rightarrow> Route \<Rightarrow> table_once \<Rightarrow>
     ('e info_error, NetworkJob list) res \<times> table_once" where
  "BuildJobs_linux exec addrs tunName route st =
     (let (info, st) = collectNetworkInfo_linux exec addrs tunName route st in
      (bindR info (\<lambda>info. Inr (jobs_linux info)), st))"

section \<open>The TUN network on Darwin and FreeBSD\<close>

record tunNetworkInfoDarwin =
  di_GatewayIP :: string
  di_PhysIfaceName :: string
  di_TUNName :: string
  di_TunLocalIP :: string
  di_TunRemoteIP :: string
  di_RouteTargetCIDRs :: "string list"

definition collectNetworkInfo_darwin ::
    "'e + IPNet option list \<Rightarrow> 'e + string \<Rightarrow> Route \<Rightarrow> ('e info_error, tunNetworkInfoDarwin) res" where
  "collectNetworkInfo_darwin addrs tunName route =
     (case tunName of
        Inl e \<Rightarrow> Inl (Err (TunName e))
      | Inr tunName \<Rightarrow>
          bindR (tun_addresses addrs) (\<lambda>(tunLocalIP, tunRemoteIP, targets).
          Inr \<lparr>di_GatewayIP = IP_String (route_Gateway route), di_PhysIfaceName = if_Name (route_Iface route),
               di_TUNName = tunName, di_TunLocalIP = tunLocalIP, di_TunRemoteIP = tunRemoteIP,
               di_RouteTargetCIDRs = targets\<rparr>))"

definition tun_route_job :: "string \<Rightarrow> string \<Rightarrow> NetworkJob" where
  "tun_route_job tunName t =
     job (''add CIDR route '' @ t @ '' via TUN'') (''route -n add -net '' @ t @ '' -interface '' @ tunName)
       (''route -n delete -net '' @ t @ '' -interface '' @ tunName)"

definition tun_address_job :: "string \<Rightarrow> string \<Rightarrow> string \<Rightarrow> NetworkJob" where
  "tun_address_job tunName localIP remoteIP =
     job ''configure TUN interface address'' (''ifconfig '' @ tunName @ '' '' @ localIP @ '' '' @ remoteIP @ '' up'')
       (''ifconfig '' @ tunName @ '' destroy'')"

definition BuildJobs_darwin ::
    "'e + IPNet option list \<Rightarrow> 'e + string \<Rightarrow> Route \<Rightarrow> ('e info_error, NetworkJob list) res" where
  "BuildJobs_darwin addrs tunName route =
     bindR (collectNetworkInfo_darwin addrs tunName route) (\<lambda>info.
     Inr ([tun_address_job (di_TUNName info) (di_TunLocalIP info) (di_TunRemoteIP info),
           job ''add scoped default route via physical interface''
             (''route add -ifscope '' @ di_PhysIfaceName info @ '' default '' @ di_GatewayIP info)
             (''route delete -ifscope '' @ di_PhysIfaceName info @ '' default '' @ di_GatewayIP info)] @
          map (tun_route_job (di_TUNName info)) (di_RouteTargetCIDRs info)))"

record tunNetworkInfoFreeBSD =
  fi_FIBID :: int
  fi_GatewayIP :: string
  fi_PhysIfaceName :: string
  fi_PhysIfaceCIDR :: string
  fi_TUNName :: string
  fi_TunLocalIP :: string
  fi_TunRemoteIP :: string
  fi_RouteTargetCIDRs :: "string list"

text \<open>\<open>byName\<close> is the interface's addresses (None for one that is no \<open>*net.IPNet\<close>) or the error of either call.\<close>

definition getInterfaceSubnet :: "'e iface_error + IPNet option list \<Rightarrow> string \<Rightarrow> 'e iface_error + string" where
  "getInterfaceSubnet byName ifaceName =
     (case byName of
        Inl e \<Rightarrow> Inl e
      | Inr addrs \<Rightarrow>
          (case find (\<lambda>n. To4 (net_IP n) \<noteq> None) (List.map_filter id addrs) of
             Some ipnet \<Rightarrow>
               Inr (IP_String (map2 (AND) (the (To4 (net_IP ipnet))) (CIDRMask (net_Ones ipnet) 32)) @ ''/'' @
                 FormatUint (net_Ones ipnet))
           | None \<Rightarrow> Inl (NoIPv4 ifaceName)))"

definition collectNetworkInfo_freebsd ::
    "'e shell \<Rightarrow> 'e iface_error + IPNet option list \<Rightarrow> 'e + IPNet option list \<Rightarrow> 'e + string \<Rightarrow> int \<Rightarrow> Route \<Rightarrow>
     ('e info_error, tunNetworkInfoFreeBSD) res" where
  "collectNetworkInfo_freebsd exec byName addrs tunName fib route =
     (case tunName of
        Inl e \<Rightarrow> Inl (Err (TunName e))
      | Inr tunName \<Rightarrow>
          if snd (exec (''setfib '' @ str fib @ '' route get default'')) = None then Inl (Err (FIBInUse fib))
          else
            (case getInterfaceSubnet byName (if_Name (route_Iface route)) of
               Inl e \<Rightarrow> Inl (Err (IfaceIP e))
             | Inr physIfaceCIDR \<Rightarrow>
                 bindR (tun_addresses addrs) (\<lambda>(tunLocalIP, tunRemoteIP, targets).
                 Inr \<lparr>fi_FIBID = fib, fi_GatewayIP = IP_String (route_Gateway route),
                      fi_PhysIfaceName = if_Name (route_Iface route), fi_PhysIfaceCIDR = physIfaceCIDR,
                      fi_TUNName = tunName, fi_TunLocalIP = tunLocalIP, fi_TunRemoteIP = tunRemoteIP,
                      fi_RouteTargetCIDRs = targets\<rparr>)))"

definition BuildJobs_freebsd ::
    "'e shell \<Rightarrow> 'e iface_error + IPNet option list \<Rightarrow> 'e + IPNet option list \<Rightarrow> 'e + string \<Rightarrow> int \<Rightarrow> Route \<Rightarrow>
     ('e info_error, NetworkJob list) res" where
  "BuildJobs_freebsd exec byName addrs tunName fib route =
     bindR (collectNetworkInfo_freebsd exec byName addrs tunName fib route) (\<lambda>info.
     let onFib = '' -fib '' @ str (fi_FIBID info);
         net = fi_PhysIfaceCIDR info @ '' -iface '' @ fi_PhysIfaceName info in
     Inr ([tun_address_job (fi_TUNName info) (fi_TunLocalIP info) (fi_TunRemoteIP info),
           job ''add FIB subnet route'' (''route add -net '' @ net @ onFib) (''route delete -net '' @ net @ onFib),
           job ''add FIB default route'' (''route add default '' @ fi_GatewayIP info @ onFib)
             (''route delete default'' @ onFib)] @
          map (tun_route_job (fi_TUNName info)) (fi_RouteTargetCIDRs info)))"

section \<open>Binding the dialer to the physical interface\<close>

datatype local_addr = TCPLocal IP | UDPLocal IP | IPLocal IP

text \<open>The socket option that \<open>dialer.Control\<close> sets.\<close>

datatype bind_opt = BindToDevice string | BoundIf int | SetFIB int

record dialer =
  dl_LocalAddr :: "local_addr option"
  dl_Control :: "bind_opt option"

datatype bind_dialer_error = BindAddrs | NoSuitableIP string IP

text \<open>
  The loop over the addresses of the interface, shared by the platforms, and the rest of \<open>BindDialer\<close>: None for a
  platform or a route for which the dialer is left alone.
\<close>

definition sourceIP :: "IP \<Rightarrow> IP list \<Rightarrow> IP option" where
  "sourceIP targetIP addrs =
     find (\<lambda>ip. (To4 targetIP \<noteq> None \<and> To4 ip \<noteq> None \<and> \<not> IP_IsLoopback ip) \<or>
                (To4 targetIP = None \<and> To4 ip = None \<and> \<not> IP_IsLoopback ip)) addrs"

definition bind_dialer :: "Route \<Rightarrow> bind_opt \<Rightarrow> string \<Rightarrow> IP \<Rightarrow> dialer \<Rightarrow> bind_dialer_error + dialer" where
  "bind_dialer route control network targetIP dl =
     (case if_Addrs (route_Iface route) of
        None \<Rightarrow> Inl BindAddrs
      | Some addrs \<Rightarrow>
          (case sourceIP targetIP addrs of
             None \<Rightarrow> Inl (NoSuitableIP (if_Name (route_Iface route)) targetIP)
           | Some ip \<Rightarrow>
               Inr \<lparr>dl_LocalAddr = Some (if HasPrefix network ''tcp'' then TCPLocal ip
                                        else if HasPrefix network ''udp'' then UDPLocal ip else IPLocal ip),
                    dl_Control = Some control\<rparr>))"

definition BindDialer_linux :: "Route option \<Rightarrow> string \<Rightarrow> IP \<Rightarrow> dialer \<Rightarrow> bind_dialer_error + dialer" where
  "BindDialer_linux route network targetIP dl =
     (case route of
        None \<Rightarrow> Inr dl
      | Some r \<Rightarrow> if if_Name (route_Iface r) = [] then Inr dl
                 else bind_dialer r (BindToDevice (if_Name (route_Iface r))) network targetIP dl)"

definition BindDialer_darwin :: "int \<Rightarrow> Route option \<Rightarrow> string \<Rightarrow> IP \<Rightarrow> dialer \<Rightarrow> bind_dialer_error + dialer" where
  "BindDialer_darwin index route network targetIP dl =
     (case route of
        None \<Rightarrow> Inr dl
      | Some r \<Rightarrow> if if_Name (route_Iface r) = [] then Inr dl
                 else bind_dialer r (BoundIf index) network targetIP dl)"

definition BindDialer_freebsd :: "int \<Rightarrow> Route option \<Rightarrow> string \<Rightarrow> IP \<Rightarrow> dialer \<Rightarrow> bind_dialer_error + dialer" where
  "BindDialer_freebsd fib route network targetIP dl =
     (case route of
        None \<Rightarrow> Inr dl
      | Some r \<Rightarrow> if fib \<le> 0 \<or> if_Name (route_Iface r) = [] then Inr dl
                 else bind_dialer r (SetFIB fib) network targetIP dl)"

section \<open>The proxy settings on Darwin\<close>

text \<open>\<open>submatch\<close> is what the regular expression for the interface finds in the output.\<close>

datatype 'e service_error = ListServices 'e | NoService string

definition getNetworkServiceFromInterface ::
    "'e shell \<Rightarrow> (string \<Rightarrow> string \<Rightarrow> string list) \<Rightarrow> string \<Rightarrow> 'e service_error + string" where
  "getNetworkServiceFromInterface exec submatch ifaceName =
     (let (out, err) = exec ''networksetup -listnetworkserviceorder'' in
      case err of
        Some e \<Rightarrow> Inl (ListServices e)
      | None \<Rightarrow>
          let m = submatch ifaceName out in
          if length m < 2 then Inl (NoService ifaceName) else Inr (TrimSpace (m ! 1)))"

definition ProxyBuildJobs_darwin ::
    "'e shell \<Rightarrow> (string \<Rightarrow> string \<Rightarrow> string list) \<Rightarrow> Route \<Rightarrow> string \<Rightarrow> 'e service_error + NetworkJob list" where
  "ProxyBuildJobs_darwin exec submatch route pacURL =
     (case getNetworkServiceFromInterface exec submatch (if_Name (route_Iface route)) of
        Inl e \<Rightarrow> Inl e
      | Inr service \<Rightarrow>
          Inr [job ''set auto proxy URL'' (''networksetup -setautoproxyurl '' @ Quote service @ '' '' @ pacURL)
                 (''networksetup -setautoproxystate '' @ Quote service @ '' off''),
               job ''enable proxy auto discovery'' (''networksetup -setproxyautodiscovery '' @ Quote service @ '' on'')
                 (''networksetup -setproxyautodiscovery '' @ Quote service @ '' off'')])"

text \<open>The file of the SOCKS5 proxy repeats the one of the HTTP proxy, with other names for its types and its state file.\<close>

definition SOCKS5_BuildJobs_darwin ::
    "'e shell \<Rightarrow> (string \<Rightarrow> string \<Rightarrow> string list) \<Rightarrow> Route \<Rightarrow> string \<Rightarrow> 'e service_error + NetworkJob list" where
  "SOCKS5_BuildJobs_darwin = ProxyBuildJobs_darwin"

text \<open>On platforms without the feature there is nothing to run and nothing to bind.\<close>

definition BuildJobs_stub :: "'x + NetworkJob list" where
  "BuildJobs_stub = Inr []"

definition BindDialer_stub :: "string \<Rightarrow> IP \<Rightarrow> dialer \<Rightarrow> bind_dialer_error + dialer" where
  "BindDialer_stub network targetIP dl = Inr dl"

section \<open>The subnet is free\<close>

lemma indexByte_at: "x \<notin> set p \<Longrightarrow> indexByte (p @ x # s) x = Some (length p)"
  by (induction p) auto

lemma and_ff: "b AND 255 = (b :: byte)"
proof -
  have ff: "(255 :: byte) = - 1" by simp
  show ?thesis by (simp only: ff and.right_neutral)
qed

lemma CIDRMask_30: "CIDRMask 30 32 = [255, 255, 255, 252]"
  by (simp add: CIDRMask_def maskByte_def upt_rec)

lemma ParseCIDR_v4String:
  "ParseCIDR (v4String [a, b, c, d] @ ''/30'') =
     Some (v4InV6Prefix @ [a, b, c, d], \<lparr>net_IP = [a, b, c, d AND 252], net_Ones = 30\<rparr>)"
proof -
  let ?ip = "[a, b, c, d]"
  have len: "length ?ip = 4" by simp
  have "CHR ''/'' \<notin> set (FormatUint n)" for n
    using FormatUint_digits [of n] by (auto simp: list_all_iff isDigit_def)
  then have "CHR ''/'' \<notin> set (v4String ?ip)"
    by (simp add: v4String_def)
  then have i: "indexByte (v4String ?ip @ ''/30'') CHR ''/'' = Some (length (v4String ?ip))"
    by (rule indexByte_at)
  have a: "ParseAddr (v4String ?ip) = Some (Addr4 ?ip)"
    using find_v4String [OF len] v4String_fields [OF len]
    by (simp add: ParseAddr_def parseIPv4Fields_def parseOctet_FormatUint)
  have d: "decVal ''30'' = 30" "list_all isDigit ''30''"
    by (simp_all add: decVal_def digitVal_def isDigit_def)
  show ?thesis
    unfolding ParseCIDR_def i using d by (simp add: a CIDRMask_30 and_ff)
qed

lemma put32_be32: "put32 (be32 [a, b, c, d]) = [a, b, c, d]"
proof -
  have hi: "\<not> bit x (8 + n)" "\<not> bit x (16 + n)" "\<not> bit x (24 + n)" for x :: byte and n
    using bit_imp_le_length [of x] by fastforce+
  then show ?thesis
    by (auto simp: put32_def be32_def intro!: bit_word_eqI simp: bit_simps)
qed

lemma be32_add: "d \<in> {1, 2} \<Longrightarrow> be32 [a, b, c, 0] + ucast d = be32 [a, b, c, d]"
proof -
  assume d: "d \<in> {1, 2}"
  have "be32 [a, b, c, 0] AND ucast d = 0"
    using d by (auto simp: be32_def intro!: bit_word_eqI simp: bit_simps) 
  then have "be32 [a, b, c, 0] + ucast d = be32 [a, b, c, 0] OR ucast d"
    by (simp add: disjunctive_add_eq_or)
  also have "\<dots> = be32 [a, b, c, d]"
    by (simp add: be32_def or.commute or.left_commute)
  finally show ?thesis .
qed


lemma AddrInCIDR_tun:
  assumes "d \<in> {1, 2}"
  shows "AddrInCIDR (v4String [10, b, c, 0] @ ''/30'') (int (unat d)) = Inr (v4String [10, b, c, d])"
proof -
  have d: "d AND 252 = 0" "(of_int (int (unat d)) :: u32) = ucast d"
    using assms by auto
  show ?thesis
    using assms
    by (simp add: AddrInCIDR_def ParseCIDR_v4String To4_def be32_add put32_be32 d IPNet_Contains_def norm4_def CIDRMask_30
        and_ff IP_String_def Let_def)
qed

lemma FormatUint_consts: "FormatUint 10 = ''10''" "FormatUint 0 = ''0''" "FormatUint 30 = ''30''"
  by code_simp+

lemma cidr_text:
  assumes "i < 256" and "j < 256"
  shows "''10.'' @ FormatUint i @ ''.'' @ FormatUint j @ ''.0/30'' = v4String [10, of_nat i, of_nat j, 0] @ ''/30''"
  using assms FormatUint_consts by (simp add: v4String_def unat_of_nat)

lemma find_Some: "find P xs = Some x \<Longrightarrow> x \<in> set xs \<and> P x"
  by (auto simp: find_Some_iff)

lemma find_None: "find P xs = None \<Longrightarrow> list_all (\<lambda>x. \<not> P x) xs"
  by (simp add: find_None_iff list_all_iff)

text \<open>
  C19: the TUN subnet. The set-up of the TUN device either finds a free subnet or reports that there is none. In the
  first case the two addresses are the first and the second of a subnet 10.i.j.0/30, no network of a local interface
  contains either, and the first route sends exactly that subnet through the device; it fails only when every such
  pair of addresses is taken.
\<close>

theorem tun_subnet_free:
  "case tun_addresses (Inr addrs :: 'e + IPNet option list) of
     Inr (localIP, remoteIP, targets) \<Rightarrow>
       \<exists>i j. i < 256 \<and> j < 256 \<and>
         localIP = IP_String [10, of_nat i, of_nat j, 1] \<and> remoteIP = IP_String [10, of_nat i, of_nat j, 2] \<and>
         targets = [IP_String [10, of_nat i, of_nat j, 0] @ ''/30'', ''0.0.0.0/1'', ''128.0.0.0/1''] \<and>
         list_all (\<lambda>n. \<not> IPNet_Contains n [10, of_nat i, of_nat j, 1] \<and> \<not> IPNet_Contains n [10, of_nat i, of_nat j, 2])
           (List.map_filter id addrs)
   | Inl f \<Rightarrow> f = Err (SafeSubnet NoSafeCIDR) \<and>
       list_all (\<lambda>(i, j). safe_conflict (List.map_filter id addrs) i j) (List.product [0..<256] [0..<256])"
proof (cases "find (\<lambda>(i, j). \<not> safe_conflict (List.map_filter id addrs) i j) (List.product [0..<256] [0..<256])")
  case None
  then show ?thesis
    using find_None [OF None] by (simp add: tun_addresses_def FindSafeCIDR_def Let_def case_prod_unfold)
next
  case (Some p)
  obtain i j where p: "p = (i, j)" by fastforce
  have ij: "i < 256" "j < 256" and free: "\<not> safe_conflict (List.map_filter id addrs) i j"
    using find_Some [OF Some] by (auto simp: p)
  let ?v = "\<lambda>d. v4String [10, of_nat i, of_nat j, d]"
  have "(FindSafeCIDR (Inr addrs :: 'e + IPNet option list)) = Inr (?v 0 @ ''/30'')"
    using Some p cidr_text [OF ij] by (simp add: FindSafeCIDR_def Let_def)
  moreover have "(AddrInCIDR (?v 0 @ ''/30'') 1 :: 'e cidr_error + string) = Inr (?v 1)"
      "(AddrInCIDR (?v 0 @ ''/30'') 2 :: 'e cidr_error + string) = Inr (?v 2)"
    using AddrInCIDR_tun [of 1] AddrInCIDR_tun [of 2] by simp_all
  moreover have "IPNet_String \<lparr>net_IP = [10, of_nat i, of_nat j, 1 AND 252], net_Ones = 30\<rparr> = ?v 0 @ ''/30''"
    using FormatUint_consts(3) by (simp add: IPNet_String_def IP_String_def To4_def)
  ultimately have "tun_addresses (Inr addrs :: 'e + IPNet option list) = Inr (?v 1, ?v 2, [?v 0 @ ''/30'', ''0.0.0.0/1'', ''128.0.0.0/1''])"
    by (simp add: tun_addresses_def ParseCIDR_v4String)
  moreover have "list_all (\<lambda>n. \<not> IPNet_Contains n [10, of_nat i, of_nat j, 1] \<and>
      \<not> IPNet_Contains n [10, of_nat i, of_nat j, 2]) (List.map_filter id addrs)"
    using free by (auto simp: safe_conflict_def list_ex_iff list_all_iff IPNet_Contains_def IPv4_def norm4_def To4_def)
  ultimately show ?thesis
    using ij by (auto simp: IP_String_def To4_def)
qed


theorem tun_subnet_free_witness:
  "case tun_addresses (Inr [Some \<lparr>net_IP = [192, 168, 1, 7], net_Ones = 24\<rparr>] :: unit + IPNet option list) of
     Inr (localIP, remoteIP, targets) \<Rightarrow> \<exists>i j. localIP = IP_String [10, of_nat i, of_nat j, 1]
   | Inl f \<Rightarrow> f = Err (SafeSubnet NoSafeCIDR)"
  using tun_subnet_free [of "[Some \<lparr>net_IP = [192, 168, 1, 7], net_Ones = 24\<rparr>]", where ?'e = unit]
  by (auto split: sum.splits)

section \<open>The routing table\<close>

definition table_busy :: "'e shell \<Rightarrow> int \<Rightarrow> bool" where
  "table_busy exec tid \<longleftrightarrow> snd (exec (''ip route show table '' @ str tid)) = None \<and>
     (fst (exec (''ip route show table '' @ str tid)) \<noteq> [] \<or> fst (exec (''ip rule show table '' @ str tid)) \<noteq> [] \<or>
      fst (exec (''ip rule show lookup '' @ str tid)) \<noteq> [])"

lemma tableID_loop_first:
  "tableID_loop exec tids =
     (case find (\<lambda>tid. \<not> table_busy exec tid) tids of Some tid \<Rightarrow> (tid, None) | None \<Rightarrow> (0, Some NoTableID))"
  by (induction tids) (auto simp: table_busy_def Let_def split: prod.split)

text \<open>
  A table is chosen once per process, the first free one of 200 to 250, and the same one from then on. Where none is
  free the first call fails; the calls after it return table 0 without an error.
\<close>

lemma table_allocated_once:
  assumes "\<not> table_done st" and "getOrAllocateTableID exec st = ((tid, err), st')"
  shows "(case err of
            None \<Rightarrow> 200 \<le> tid \<and> tid \<le> 250 \<and> \<not> table_busy exec tid \<and> (\<forall>t. 200 \<le> t \<and> t < tid \<longrightarrow> table_busy exec t)
          | Some e \<Rightarrow> tid = 0 \<and> (\<forall>t. 200 \<le> t \<and> t \<le> 250 \<longrightarrow> table_busy exec t)) \<and>
    getOrAllocateTableID exec' st' = ((tid, None), st')"
proof -
  define ids where "ids = [200..250 :: int]"
  have f: "findAvailableTableID exec = tableID_loop exec ids"
    by (simp only: findAvailableTableID_def ids_def)
  have ids: "set ids = {200..250}" "length ids = 51"
    by (simp_all only: ids_def set_upto length_upto)
  have nth: "ids ! i = 200 + int i" if "i < 51" for i
    unfolding ids_def by (rule nth_upto) (use that in simp)
  show ?thesis
  proof (cases "find (\<lambda>tid. \<not> table_busy exec tid) ids")
    case None
    then have "\<forall>t. 200 \<le> t \<and> t \<le> 250 \<longrightarrow> table_busy exec t"
      by (auto simp: find_None_iff ids)
    then show ?thesis
      using None assms by (auto simp: getOrAllocateTableID_def f tableID_loop_first)
  next
    case (Some t)
    obtain i where i: "i < 51" "t = 200 + int i" "\<not> table_busy exec t" "\<forall>j < i. table_busy exec (200 + int j)"
      using Some nth by (auto simp: find_Some_iff ids)
    have "table_busy exec u" if "200 \<le> u" "u < t" for u
      using i(4) [rule_format, of "nat (u - 200)"] that i(2) by simp
    then show ?thesis
      using Some assms i by (auto simp: getOrAllocateTableID_def f tableID_loop_first)
  qed
qed

section \<open>Quoting\<close>

text \<open>A POSIX shell reading one word: single quotes take everything literally, a backslash outside them one character.\<close>

fun sh_word :: "bool \<Rightarrow> string \<Rightarrow> string option" where
  "sh_word True [] = None"
| "sh_word True (c # cs) = (if c = CHR 0x27 then sh_word False cs else map_option ((#) c) (sh_word True cs))"
| "sh_word False [] = Some []"
| "sh_word False (c # cs) =
     (if c = CHR 0x27 then sh_word True cs
      else if c = CHR 0x5C then (case cs of [] \<Rightarrow> None | d # ds \<Rightarrow> map_option ((#) d) (sh_word False ds))
      else map_option ((#) c) (sh_word False cs))"

text \<open>A quoted string is read back as one word, whatever it holds.\<close>

lemma sh_word_Quote: "sh_word False (Quote s) = Some s"
proof -
  have "sh_word True (quoteChars s @ [CHR 0x27]) = Some s"
    by (induction s) simp_all
  then show ?thesis by (simp add: Quote_def)
qed

section \<open>The jobs\<close>

text \<open>On Linux the resets take down in reverse what the jobs set up and remove the interface last.\<close>

lemma jobs_linux_reset:
  "reset_commands (jobs_linux info) =
     map (\<lambda>t. ''ip route del '' @ t @ '' dev '' @ li_TUNName info) (rev (li_RouteTargetCIDRs info)) @
     [''ip rule del from '' @ li_PhysIfaceIP info @ '' lookup '' @ str (li_RouteTableID info),
      ''ip route del default table '' @ str (li_RouteTableID info),
      ''ip route del '' @ li_GatewayIP info @ '' dev '' @ li_PhysIfaceName info,
      ''ip link set dev '' @ li_TUNName info @ '' down'',
      ''ip addr del '' @ li_TunLocalIP info @ '' peer '' @ li_TunRemoteIP info @ '' dev '' @ li_TUNName info,
      ''ip link delete '' @ li_TUNName info]"
  by (simp add: reset_commands_def jobs_linux_def job_def rev_map comp_def filter_map)

text \<open>A dialer that is bound takes an address of the target's family that is not a loopback address.\<close>

lemma bind_dialer_source:
  assumes "bind_dialer route control network targetIP dl = Inr dl'" and "if_Addrs (route_Iface route) = Some addrs"
  shows "\<exists>ip. dl_LocalAddr dl' \<in> {Some (TCPLocal ip), Some (UDPLocal ip), Some (IPLocal ip)} \<and> ip \<in> set addrs \<and>
    (To4 ip = None \<longleftrightarrow> To4 targetIP = None) \<and> \<not> IP_IsLoopback ip \<and> dl_Control dl' = Some control"
  using assms by (auto simp: bind_dialer_def sourceIP_def dest!: find_Some split: option.splits)

end
