(* ===== verification/Startup.thy ===== *)
theory Startup
  imports Socks Tun SysNet ConfigLoad
begin

text \<open>
  The start-up of \<open>src/cmd/spoofdpi/main.go\<close>: opening the capture handles, building the server for the configured mode
  and the session that applies and resets the network jobs. The capture handles, the route discovery, the device and
  the commands are arguments; a log line is no effect.
\<close>

section \<open>Capture handles\<close>

text \<open>
  \<open>open n\<close> is the n-th handle opened or its error, and \<open>tcpIO\<close> and \<open>udpIO\<close> what the constructors make of a handle: the
  sniffer's \<open>GetOptimalTTL\<close> and the writer. The third result lists the handles on which capturing was started.
\<close>

datatype 'e startup_error = RuleFault "rule_error fault" | RouteFault "'e route_error fault" | TCPHandle 'e | UDPHandle 'e
  | SysNetFailed 'e | RegistryPanic

type_synonym ('e, 'h) capture_io = "'h \<Rightarrow> (IPKey \<Rightarrow> u8) \<times> (nat \<Rightarrow> u8 \<Rightarrow> bytes \<Rightarrow> nat \<times> 'e conn_error option)"

definition idle :: "('e conn_error) desyncer" where
  "idle = \<lparr>d_sniffer = None, d_writer = None\<rparr>"

definition armed :: "('e, 'h) capture_io \<Rightarrow> 'h \<Rightarrow> ('e conn_error) desyncer" where
  "armed cio h = \<lparr>d_sniffer = Some (fst (cio h)), d_writer = Some (snd (cio h))\<rparr>"

definition setupPcapIO ::
    "(nat \<Rightarrow> 'e + 'h) \<Rightarrow> ('e, 'h) capture_io \<Rightarrow> ('e, 'h) capture_io \<Rightarrow> Config \<Rightarrow>
     ('e startup_error + ('e conn_error) desyncer \<times> ('e conn_error) desyncer) \<times> 'h list" where
  "setupPcapIO open tcpIO udpIO cfg =
     (if \<not> NeedsPcap cfg then (Inr (idle, idle), [])
      else
        let (tcp, n, started) =
          (if NeedsPcapTCP cfg then
             (case open 0 of
                Inl e \<Rightarrow> (Inl (TCPHandle e), 1, [])
              | Inr h \<Rightarrow> (Inr (armed tcpIO h), 1, [h]))
           else (Inr idle, 0, [])) in
        (case tcp of
           Inl e \<Rightarrow> (Inl e, started)
         | Inr tcp \<Rightarrow>
             if NeedsPcapUDP cfg then
               (case open n of
                  Inl e \<Rightarrow> (Inl (UDPHandle e), started)
                | Inr h \<Rightarrow> (Inr (tcp, armed udpIO h), started @ [h]))
             else (Inr (tcp, idle), started)))"

section \<open>The server\<close>

record ('t4, 't6, 'e) Server =
  srv_mode :: AppModeType
  srv_ruleSet :: "('t4, 't6) RuleSet"
  srv_tls :: "('e conn_error) desyncer"
  srv_udp :: "('e conn_error) desyncer"
  srv_route :: Route
  srv_listenAddr :: TCPAddr
  srv_pool :: "NATKey ConnRegistry option"

text \<open>The three state files and their paths; a path is empty on platforms without the feature.\<close>

record 'e state_files =
  sf_tun :: "string \<times> 'e job_file"
  sf_http :: "string \<times> 'e job_file"
  sf_socks5 :: "string \<times> 'e job_file"

definition reset_stale :: "bool \<Rightarrow> 'e state_files \<Rightarrow> string list \<times> 'e state_files" where
  "reset_stale removed fs =
     (let (c1, t) = ResetJobs removed (fst (sf_tun fs)) (snd (sf_tun fs));
          (c2, h) = ResetJobs removed (fst (sf_http fs)) (snd (sf_http fs));
          (c3, s) = ResetJobs removed (fst (sf_socks5 fs)) (snd (sf_socks5 fs)) in
      (c1 @ c2 @ c3, \<lparr>sf_tun = (fst (sf_tun fs), t), sf_http = (fst (sf_http fs), h), sf_socks5 = (fst (sf_socks5 fs), s)\<rparr>))"

text \<open>
  \<open>discover\<close> is \<open>DiscoverRoute\<close> on the network as the given commands left it; \<open>newSysNet\<close> is the error of creating the TUN
  device. The result has the commands that were run and the state files.
\<close>

definition createServer ::
    "(u32, 't4) patricia \<Rightarrow> (bytes, 't6) patricia \<Rightarrow> (string list \<Rightarrow> ('e route_error, Route) res) \<Rightarrow> (nat \<Rightarrow> 'e + 'h) \<Rightarrow>
     ('e, 'h) capture_io \<Rightarrow> ('e, 'h) capture_io \<Rightarrow> 'e option \<Rightarrow> bool \<Rightarrow> 'e state_files \<Rightarrow> Config \<Rightarrow>
     ('e startup_error + ('t4, 't6, 'e) Server) \<times> string list \<times> 'e state_files" where
  "createServer P4 P6 discover open tcpIO udpIO newSysNet removed fs cfg =
     (case add_rules P4 P6 (st_Rules (cfg_Startup cfg)) (NewRuleSet P4 P6) of
        (Some e, _) \<Rightarrow> (Inl (RuleFault e), [], fs)
      | (None, ruleSet) \<Rightarrow>
          let (cmds, fs) = reset_stale removed fs in
          (case discover cmds of
             Inl e \<Rightarrow> (Inl (RouteFault e), cmds, fs)
           | Inr defaultRoute \<Rightarrow>
               (case fst (setupPcapIO open tcpIO udpIO cfg) of
                  Inl e \<Rightarrow> (Inl e, cmds, fs)
                | Inr (tlsDesyncer, udpDesyncer) \<Rightarrow>
                    let app = st_App (cfg_Startup cfg);
                        srv = \<lparr>srv_mode = app_Mode app, srv_ruleSet = ruleSet, srv_tls = tlsDesyncer,
                               srv_udp = udpDesyncer, srv_route = defaultRoute, srv_listenAddr = app_ListenAddr app,
                               srv_pool = None\<rparr> in
                    (case app_Mode app of
                       AppModeHTTP \<Rightarrow> (Inr srv, cmds, fs)
                     | AppModeSOCKS5 \<Rightarrow>
                         (case NewConnRegistry 4096 (60 * Second) of
                            Inl _ \<Rightarrow> (Inl RegistryPanic, cmds, fs)
                          | Inr udpPool \<Rightarrow> (Inr (srv\<lparr>srv_pool := Some udpPool\<rparr>), cmds, fs))
                     | AppModeTUN \<Rightarrow>
                         (case newSysNet of
                            Some e \<Rightarrow> (Inl (SysNetFailed e), cmds, fs)
                          | None \<Rightarrow> (Inr srv, cmds, fs))))))"

section \<open>The session\<close>

text \<open>
  The part of \<open>runApp\<close> between the start of the server and its return: \<open>set_up\<close> is what \<open>SetupNetworkJobs\<close> returned and
  \<open>file\<close> the state file after it. \<open>killed\<close> says that the process ends without running its deferred calls.
\<close>

definition runApp_jobs ::
    "bool \<Rightarrow> 'e + string \<Rightarrow> (string \<Rightarrow> 'e option) \<Rightarrow> bool \<Rightarrow> bool \<Rightarrow> 'e job_file \<Rightarrow> string list \<times> 'e job_file" where
  "runApp_jobs auto set_up run removed killed file =
     (if \<not> auto then ([], file)
      else
        (case set_up of
           Inl acErr \<Rightarrow> ([], file)
         | Inr stateFile \<Rightarrow>
             (case ApplyJobs run removed stateFile file of
                (cmds, file, Some acErr) \<Rightarrow> (cmds, file)
              | (cmds, file, None) \<Rightarrow>
                  if killed then (cmds, file)
                  else let (resets, file) = ResetJobs removed stateFile file in (cmds @ resets, file))))"

text \<open>What \<open>runApp\<close> returns for a start-up error: nil after showing it in the terminal UI, else the error.\<close>

definition runApp_result :: "Config \<Rightarrow> 'x option \<Rightarrow> 'x option" where
  "runApp_result cfg err = (if err = None \<or> app_NoTUI (st_App (cfg_Startup cfg)) then err else None)"


section \<open>The server that is built\<close>

text \<open>The services of a created server; the DNS back ends, the times and the interface addresses are given.\<close>

definition services_of ::
    "(u32, 't4) patricia \<Rightarrow> (bytes, 't6) patricia \<Rightarrow>
     (backend \<Rightarrow> server \<Rightarrow> string \<Rightarrow> u16 list \<Rightarrow> ('e dns_error, Addr list \<times> u32) res) \<Rightarrow> int \<times> int \<Rightarrow> 'e + IP list \<Rightarrow>
     Config \<Rightarrow> ('t4, 't6, 'e) Server \<Rightarrow> ('t4, 't6, 'e) services" where
  "services_of P4 P6 backends clock ifAddrs cfg srv =
     \<lparr>sv_P4 = P4, sv_P6 = P6, sv_ruleSet = srv_ruleSet srv, sv_backends = backends, sv_times = clock, sv_ifAddrs = ifAddrs,
      sv_listenAddr = srv_listenAddr srv, sv_cfg = cfg_Runtime cfg, sv_desyncer = srv_tls srv\<rparr>"

lemma setupPcapIO_result:
  assumes "fst (setupPcapIO open tcpIO udpIO cfg) = Inr (tls, udp)"
  shows "(if NeedsPcapTCP cfg then \<exists>h. tls = armed tcpIO h else tls = idle) \<and>
    (if NeedsPcapUDP cfg then \<exists>h. udp = armed udpIO h else udp = idle)"
  using assms by (auto simp: setupPcapIO_def NeedsPcap_def Let_def split: if_splits sum.splits)

lemma NewConnRegistry_returns: "\<exists>p. NewConnRegistry 4096 timeout = Inr p"
  by (simp add: NewConnRegistry_def NewLRUCache_def)

lemma createServer_result:
  assumes "createServer P4 P6 discover open tcpIO udpIO newSysNet removed fs cfg = (Inr srv, cmds, fs')"
  shows "add_rules P4 P6 (st_Rules (cfg_Startup cfg)) (NewRuleSet P4 P6) = (None, srv_ruleSet srv) \<and>
    (cmds, fs') = reset_stale removed fs \<and> discover cmds = Inr (srv_route srv) \<and>
    fst (setupPcapIO open tcpIO udpIO cfg) = Inr (srv_tls srv, srv_udp srv) \<and>
    srv_mode srv = app_Mode (st_App (cfg_Startup cfg)) \<and>
    (srv_pool srv \<noteq> None \<longleftrightarrow> srv_mode srv = AppModeSOCKS5)"
  using assms
  by (auto simp: createServer_def Let_def split: prod.splits option.splits sum.splits AppModeType.splits)

text \<open>
  C12: what is configured is wired. When the server has been created, every configuration in force, the default one
  and that of each rule, that asks for fake packets has a desyncer with a sniffer and a writer, for TLS and for UDP;
  a protocol for which none asks has neither, so no capture handle is used; the stale network jobs of all three modes
  were reset before the route was discovered; and the connection registry exists exactly in SOCKS5 mode.
\<close>

theorem startup_wired:
  assumes "createServer P4 P6 discover open tcpIO udpIO newSysNet removed fs cfg = (Inr srv, cmds, fs')"
  shows "list_all (\<lambda>c.
      (https_FakeCount (rt_HTTPS c) > 0 \<longrightarrow> d_sniffer (srv_tls srv) \<noteq> None \<and> d_writer (srv_tls srv) \<noteq> None) \<and>
      (udp_FakeCount (rt_UDP c) > 0 \<longrightarrow> d_sniffer (srv_udp srv) \<noteq> None \<and> d_writer (srv_udp srv) \<noteq> None))
      (cfg_Runtime cfg # map rule_Config (st_Rules (cfg_Startup cfg))) \<and>
    (\<not> NeedsPcapTCP cfg \<longrightarrow> d_sniffer (srv_tls srv) = None \<and> d_writer (srv_tls srv) = None) \<and>
    (\<not> NeedsPcapUDP cfg \<longrightarrow> d_sniffer (srv_udp srv) = None \<and> d_writer (srv_udp srv) = None) \<and>
    cmds = fst (reset_stale removed fs) \<and> discover cmds = Inr (srv_route srv) \<and>
    (srv_pool srv \<noteq> None \<longleftrightarrow> app_Mode (st_App (cfg_Startup cfg)) = AppModeSOCKS5)"
proof -
  note r = createServer_result [OF assms]
  note io = setupPcapIO_result [OF r [THEN conjunct2, THEN conjunct2, THEN conjunct2, THEN conjunct1]]
  have "NeedsPcapTCP cfg \<Longrightarrow> d_sniffer (srv_tls srv) \<noteq> None \<and> d_writer (srv_tls srv) \<noteq> None"
    "NeedsPcapUDP cfg \<Longrightarrow> d_sniffer (srv_udp srv) \<noteq> None \<and> d_writer (srv_udp srv) \<noteq> None"
    "\<not> NeedsPcapTCP cfg \<Longrightarrow> srv_tls srv = idle" "\<not> NeedsPcapUDP cfg \<Longrightarrow> srv_udp srv = idle"
    using io by (auto simp: armed_def split: if_splits)
  moreover have "cmds = fst (reset_stale removed fs)"
    using r by (metis fst_conv)
  ultimately show ?thesis
    using r by (auto simp: list_all_iff NeedsPcapTCP_def NeedsPcapUDP_def list_ex_iff idle_def)
qed


definition sample_config :: Config where
  "sample_config = (let c = DefaultConfig 0; rt = cfg_Runtime c in
     c\<lparr>cfg_Runtime := rt\<lparr>rt_HTTPS := (rt_HTTPS rt)\<lparr>https_FakeCount := 2\<rparr>\<rparr>\<rparr>)"

definition sample_route :: Route where
  "sample_route = \<lparr>route_Iface = \<lparr>if_Name = ''eth0'', if_MAC = None, if_Addrs = None\<rparr>, route_Gateway = [10, 0, 0, 1],
     route_GatewayMAC = None\<rparr>"

definition no_files :: "unit state_files" where
  "no_files = \<lparr>sf_tun = ([], JobsMissing), sf_http = ([], JobsMissing), sf_socks5 = ([], JobsMissing)\<rparr>"

lemma sample_server:
  "\<exists>srv. createServer (map_tree bits32) (map_tree bits128) (\<lambda>_. Inr sample_route) (\<lambda>n. Inr n) (\<lambda>h. (\<lambda>_. 3, \<lambda>_ _ _. (0, None)))
     (\<lambda>h. (\<lambda>_. 3, \<lambda>_ _ _. (0, None))) (None :: unit option) True no_files sample_config = (Inr srv, [], no_files)"
  by (simp add: createServer_def sample_config_def DefaultConfig_def Let_def reset_stale_def no_files_def ResetJobs_def
      setupPcapIO_def NeedsPcap_def NeedsPcapTCP_def NeedsPcapUDP_def)

theorem startup_wired_witness:
  "\<exists>srv. createServer (map_tree bits32) (map_tree bits128) (\<lambda>_. Inr sample_route) (\<lambda>n. Inr n) (\<lambda>h. (\<lambda>_. 3, \<lambda>_ _ _. (0, None)))
     (\<lambda>h. (\<lambda>_. 3, \<lambda>_ _ _. (0, None))) (None :: unit option) True no_files sample_config = (Inr srv, [], no_files) \<and>
     d_sniffer (srv_tls srv) \<noteq> None"
proof -
  obtain srv where srv: "createServer (map_tree bits32) (map_tree bits128) (\<lambda>_. Inr sample_route) (\<lambda>n. Inr n)
      (\<lambda>h. (\<lambda>_. 3, \<lambda>_ _ _. (0, None))) (\<lambda>h. (\<lambda>_. 3, \<lambda>_ _ _. (0, None))) (None :: unit option) True no_files sample_config =
        (Inr srv, [], no_files)"
    using sample_server by blast
  have "https_FakeCount (rt_HTTPS (cfg_Runtime sample_config)) > 0"
    by (simp add: sample_config_def Let_def)
  then have "d_sniffer (srv_tls srv) \<noteq> None"
    using startup_wired [OF srv] by auto
  with srv show ?thesis by blast
qed

section \<open>The network is restored\<close>

text \<open>
  C13: a session leaves the network as it was. The jobs of the TUN server are saved before any is applied. Whether they
  all succeed, one fails, or the process is killed after applying them, the commands of the session followed by the
  reset that the next start runs first are some of the apply commands, in order, and then every reset command, once,
  in reverse order, and the state file is gone; and unless the process was killed the session has done this itself.
\<close>

theorem network_restored:
  assumes "path \<noteq> []" and "Tun_SetupNetworkJobs path (Inr jobs) None file = ((path', None), file1)"
    and "runApp_jobs True (Inr path') run True killed file1 = (cmds, file2)"
    and "ResetJobs True path' file2 = (resets, file3)"
  shows "file3 = JobsMissing \<and> (\<not> killed \<longrightarrow> resets = [] \<and> file2 = JobsMissing) \<and>
    (\<exists>applied. prefix applied (apply_commands jobs) \<and> cmds @ resets = applied @ reset_commands jobs)"
proof -
  have p: "path' = path" "file1 = JobsFile jobs"
    using assms(1,2) by (auto simp: Tun_SetupNetworkJobs_def SaveJobs_def)
  obtain cs r where loop: "apply_loop run jobs = (cs, r)" by fastforce
  have cs: "prefix cs (apply_commands jobs)"
    using apply_loop_commands [where run = run and jobs = jobs] loop by (cases r) auto
  show ?thesis
    using assms(1,3,4) cs
    by (cases r) (auto simp: p runApp_jobs_def ApplyJobs_def LoadJobs_def ResetJobs_def loop split: if_splits)
qed

theorem network_restored_witness:
  "prefix [''ip link set dev tun0 up''] (apply_commands [job ''up'' ''ip link set dev tun0 up'' ''ip link set dev tun0 down'']) \<and>
   runApp_jobs True (Inr ''/tmp/s'') (\<lambda>_. None :: unit option) True True
     (JobsFile [job ''up'' ''ip link set dev tun0 up'' ''ip link set dev tun0 down'']) =
     ([''ip link set dev tun0 up''], JobsFile [job ''up'' ''ip link set dev tun0 up'' ''ip link set dev tun0 down''])"
proof -
  let ?jobs = "[job ''up'' ''ip link set dev tun0 up'' ''ip link set dev tun0 down'']"
  have saved: "Tun_SetupNetworkJobs ''/tmp/s'' (Inr ?jobs) None (JobsMissing :: unit job_file) =
      ((''/tmp/s'', None), JobsFile ?jobs)"
    by (simp add: Tun_SetupNetworkJobs_def SaveJobs_def)
  have run: "runApp_jobs True (Inr ''/tmp/s'') (\<lambda>_. None :: unit option) True True (JobsFile ?jobs) =
      ([''ip link set dev tun0 up''], JobsFile ?jobs)"
    by (simp add: runApp_jobs_def ApplyJobs_def LoadJobs_def job_def)
  have reset: "ResetJobs True ''/tmp/s'' (JobsFile ?jobs :: unit job_file) = ([''ip link set dev tun0 down''], JobsMissing)"
    by (simp add: ResetJobs_def LoadJobs_def reset_commands_def job_def)
  have "reset_commands ?jobs = [''ip link set dev tun0 down'']"
    by (simp add: reset_commands_def job_def)
  then have "prefix [''ip link set dev tun0 up''] (apply_commands ?jobs)"
    using network_restored [OF _ saved run reset] by auto
  with run show ?thesis by blast
qed

section \<open>The created server serves\<close>

text \<open>
  A configuration the theorems below speak of: no CIDR in IPv4-mapped IPv6 notation, at most \<open>2 ^ 32\<close> of them, and
  HTTPS options the desyncer accepts, in the default configuration and in every rule.
\<close>

definition acceptable :: "'e outcomes \<Rightarrow> Config \<Rightarrow> bool" where
  "acceptable io cfg \<longleftrightarrow>
     list_all (\<lambda>r. list_all cidr_fits (rule_cidrs r)) (st_Rules (cfg_Startup cfg)) \<and>
     length (concat (map rule_cidrs (st_Rules (cfg_Startup cfg)))) \<le> 2 ^ 32 \<and>
     list_all (\<lambda>c. hello_ok io (rt_HTTPS c)) (cfg_Runtime cfg # map rule_Config (st_Rules (cfg_Startup cfg)))"

lemma acceptable_effective:
  "acceptable io cfg \<Longrightarrow> set_option x \<subseteq> set (st_Rules (cfg_Startup cfg)) \<Longrightarrow>
     hello_ok io (rt_HTTPS (effective (cfg_Runtime cfg) x))"
  by (cases x) (auto simp: acceptable_def effective_def list_all_iff)

lemma created_served:
  assumes "patricia_ok (\<lambda>_. True) bits32 32 P4 c4" and "patricia_ok (\<lambda>b. length b = 16) bits128 128 P6 c6"
    and "createServer P4 P6 discover open tcpIO udpIO newSysNet removed fs cfg = (Inr srv, cmds, fs')"
    and "acceptable io cfg"
  shows "served (services_of P4 P6 backends clock ifAddrs cfg srv) io"
proof -
  have rs: "add_rules P4 P6 (st_Rules (cfg_Startup cfg)) (NewRuleSet P4 P6) = (None, srv_ruleSet srv)"
    using createServer_result [OF assms(3)] by blast
  have fits: "list_all (\<lambda>r. list_all cidr_fits (rule_cidrs r)) (st_Rules (cfg_Startup cfg))"
      "length (concat (map rule_cidrs (st_Rules (cfg_Startup cfg)))) \<le> 2 ^ 32"
    using assms(4) by (simp_all only: acceptable_def)
  show ?thesis
    unfolding served_def
  proof
    fix qs
    obtain x where "RuleSet_Search P4 P6 (srv_ruleSet srv) qs = Inr x" "set_option x \<subseteq> set (st_Rules (cfg_Startup cfg))"
      using RuleSet_Search_total [OF assms(1,2) rs fits] by blast
    with acceptable_effective [OF assms(4)] show "\<exists>r. RuleSet_Search (sv_P4 (services_of P4 P6 backends clock ifAddrs cfg srv))
        (sv_P6 (services_of P4 P6 backends clock ifAddrs cfg srv))
        (sv_ruleSet (services_of P4 P6 backends clock ifAddrs cfg srv)) qs = Inr r \<and>
      hello_ok io (rt_HTTPS (effective (sv_cfg (services_of P4 P6 backends clock ifAddrs cfg srv)) r))"
      by (simp add: services_of_def)
  qed
qed

text \<open>Outcomes without failures, for the examples.\<close>

definition sample_io :: "unit outcomes" where
  "sample_io = (let env = \<lparr>env_seed = 7, env_intN = (\<lambda>_ _. 0), env_sort = sort_key pt_at\<rparr>;
       copied = \<lparr>tr_Written = 0, tr_Dir = TunnelDirOut, tr_Err = None\<rparr> in
     \<lparr>io_write = None, io_dial = (\<lambda>_. Inr [192, 0, 2, 1]), io_send = (\<lambda>_ b. (length b, None)), io_request = None,
      io_tunnel = (copied, copied), io_fakeEnv = env, io_env = env, io_setFails = (\<lambda>_. False)\<rparr>)"

lemma sample_acceptable: "acceptable sample_io sample_config"
  by (simp add: acceptable_def sample_config_def sample_io_def DefaultConfig_def Let_def hello_ok_def split_env_ok_def
      sorts_points_sort_key honest_writer_def)

end
