(* ===== verification/Cli.thy ===== *)
theory Cli
  imports ConfigLoad
begin

text \<open>
  The command line (\<open>config/cli.go\<close>): one definition per flag of \<open>CreateCommand\<close>, in the order of the source,
  with its validator and the closure its action appends to \<open>cliOverrides\<close>, then the action of the command, which
  loads the configuration with these closures.

  The parser of the arguments (\<open>github.com/urfave/cli\<close>) is not part of the repository. Its part is the list
  \<open>given\<close> of the flags that are set, each with its value, in the order in which it runs their actions; \<open>accepted\<close>
  states what it promises of them.
\<close>

section \<open>Flags\<close>

datatype flag_value = StringVal string | Int64Val int | BoolVal bool

type_synonym override = "Config \<Rightarrow> Config"

datatype flag =
    StringFlag string "string \<Rightarrow> conf_error option" "string \<Rightarrow> (conf_error, override list) res"
  | Int64Flag string "int \<Rightarrow> conf_error option" "int \<Rightarrow> override list"
  | BoolFlag string "bool \<Rightarrow> override list"

fun flag_Name :: "flag \<Rightarrow> string" where
  "flag_Name (StringFlag n _ _) = n"
| "flag_Name (Int64Flag n _ _) = n"
| "flag_Name (BoolFlag n _) = n"

text \<open>What a flag's validator says of a value of its type; a value of another type is never passed to it.\<close>

fun flag_accepts :: "flag \<Rightarrow> flag_value \<Rightarrow> bool" where
  "flag_accepts (StringFlag _ validator _) (StringVal v) \<longleftrightarrow> validator v = None"
| "flag_accepts (Int64Flag _ validator _) (Int64Val v) \<longleftrightarrow> validator v = None"
| "flag_accepts (BoolFlag _ _) (BoolVal v) \<longleftrightarrow> True"
| "flag_accepts _ _ \<longleftrightarrow> False"

text \<open>What running its action appends to \<open>cliOverrides\<close>.\<close>

fun flag_Action :: "flag \<Rightarrow> flag_value \<Rightarrow> (conf_error, override list) res" where
  "flag_Action (StringFlag _ _ action) (StringVal v) = action v"
| "flag_Action (Int64Flag _ _ action) (Int64Val v) = Inr (action v)"
| "flag_Action (BoolFlag _ action) (BoolVal v) = Inr (action v)"
| "flag_Action _ _ = Inr []"

definition on_App :: "(AppOptions \<Rightarrow> AppOptions) \<Rightarrow> override" where
  "on_App f cfg = set_App (f (st_App (cfg_Startup cfg))) cfg"

definition on_Conn :: "(ConnOptions \<Rightarrow> ConnOptions) \<Rightarrow> override" where
  "on_Conn f cfg = set_Conn (f (rt_Conn (cfg_Runtime cfg))) cfg"

definition on_DNS :: "(DNSOptions \<Rightarrow> DNSOptions) \<Rightarrow> override" where
  "on_DNS f cfg = set_DNS (f (rt_DNS (cfg_Runtime cfg))) cfg"

definition on_HTTPS :: "(HTTPSOptions \<Rightarrow> HTTPSOptions) \<Rightarrow> override" where
  "on_HTTPS f cfg = set_HTTPS (f (rt_HTTPS (cfg_Runtime cfg))) cfg"

definition on_UDP :: "(UDPOptions \<Rightarrow> UDPOptions) \<Rightarrow> override" where
  "on_UDP f cfg = set_UDP (f (rt_UDP (cfg_Runtime cfg))) cfg"

text \<open>\<open>v * int64(time.Millisecond)\<close>, at the width of \<open>int64\<close>.\<close>

definition duration_ms :: "int \<Rightarrow> int" where
  "duration_ms v = sint (word_of_int (v * Millisecond) :: 64 word)"

definition app_mode_flag :: flag where
  "app_mode_flag = StringFlag ''app-mode'' checkAppMode (\<lambda>v.
     bindR (MustParseServerModeType v) (\<lambda>mode.
     Inr [on_App (\<lambda>x. x\<lparr>app_Mode := mode\<rparr>)]))"

definition default_fake_ttl_flag :: flag where
  "default_fake_ttl_flag = Int64Flag ''default-fake-ttl'' checkUint8NonZero
     (\<lambda>v. [on_Conn (\<lambda>x. x\<lparr>conn_DefaultFakeTTL := word_of_int v\<rparr>)])"

definition dns_addr_flag :: flag where
  "dns_addr_flag = StringFlag ''dns-addr'' checkHostPort (\<lambda>v.
     bindR (MustParseTCPAddr v) (\<lambda>addr. Inr [on_DNS (\<lambda>x. x\<lparr>dns_Addr := addr\<rparr>)]))"

definition dns_cache_flag :: flag where
  "dns_cache_flag = BoolFlag ''dns-cache'' (\<lambda>v. [on_DNS (\<lambda>x. x\<lparr>dns_Cache := v\<rparr>)])"

definition dns_mode_flag :: flag where
  "dns_mode_flag = StringFlag ''dns-mode'' checkDNSMode (\<lambda>v.
     bindR (MustParseDNSModeType v) (\<lambda>mode.
     Inr [on_DNS (\<lambda>x. x\<lparr>dns_Mode := mode\<rparr>)]))"

definition dns_https_url_flag :: flag where
  "dns_https_url_flag = StringFlag ''dns-https-url'' checkHTTPSEndpoint
     (\<lambda>v. Inr [on_DNS (\<lambda>x. x\<lparr>dns_HTTPSURL := v\<rparr>)])"

definition dns_qtype_flag :: flag where
  "dns_qtype_flag = StringFlag ''dns-qtype'' checkDNSQueryType (\<lambda>v.
     bindR (MustParseDNSQueryType v) (\<lambda>qtype.
     Inr [on_DNS (\<lambda>x. x\<lparr>dns_QType := qtype\<rparr>)]))"

definition dns_timeout_flag :: flag where
  "dns_timeout_flag = Int64Flag ''dns-timeout'' checkUint16
     (\<lambda>v. [on_Conn (\<lambda>x. x\<lparr>conn_DNSTimeout := duration_ms v\<rparr>)])"

definition https_fake_count_flag :: flag where
  "https_fake_count_flag = Int64Flag ''https-fake-count'' checkUint8
     (\<lambda>v. [on_HTTPS (\<lambda>x. x\<lparr>https_FakeCount := word_of_int v\<rparr>)])"

definition https_fake_packet_flag :: flag where
  "https_fake_packet_flag = StringFlag ''https-fake-packet'' checkHexBytesStr (\<lambda>v.
     bindR (MustParseBytes v) (\<lambda>b. let pkt = NewFakeTLSMessage b in
     Inr [on_HTTPS (\<lambda>x. x\<lparr>https_FakePacket := Some pkt\<rparr>)]))"

definition https_disorder_flag :: flag where
  "https_disorder_flag = BoolFlag ''https-disorder''
     (\<lambda>v. [on_HTTPS (\<lambda>x. x\<lparr>https_Disorder := v\<rparr>)])"

definition https_split_mode_flag :: flag where
  "https_split_mode_flag = StringFlag ''https-split-mode'' checkHTTPSSplitMode (\<lambda>v.
     bindR (mustParseHTTPSSplitModeType v) (\<lambda>mode.
     Inr [on_HTTPS (\<lambda>x. x\<lparr>https_SplitMode := mode\<rparr>)]))"

definition https_skip_flag :: flag where
  "https_skip_flag = BoolFlag ''https-skip''
     (\<lambda>v. [on_HTTPS (\<lambda>x. x\<lparr>https_Skip := v\<rparr>)])"

definition https_chunk_size_flag :: flag where
  "https_chunk_size_flag = Int64Flag ''https-chunk-size'' checkUint8NonZero
     (\<lambda>v. [on_HTTPS (\<lambda>x. x\<lparr>https_ChunkSize := word_of_int v\<rparr>)])"

definition udp_fake_count_flag :: flag where
  "udp_fake_count_flag = Int64Flag ''udp-fake-count'' (int64Range 0 255)
     (\<lambda>v. [on_UDP (\<lambda>x. x\<lparr>udp_FakeCount := word_of_int v\<rparr>)])"

definition udp_fake_packet_flag :: flag where
  "udp_fake_packet_flag = StringFlag ''udp-fake-packet'' checkHexBytesStr (\<lambda>v.
     bindR (MustParseBytes v) (\<lambda>pkt.
     Inr [on_UDP (\<lambda>x. x\<lparr>udp_FakePacket := pkt\<rparr>)]))"

definition udp_skip_flag :: flag where
  "udp_skip_flag = BoolFlag ''udp-skip'' (\<lambda>v. [on_UDP (\<lambda>x. x\<lparr>udp_Skip := v\<rparr>)])"

definition udp_idle_timeout_flag :: flag where
  "udp_idle_timeout_flag = Int64Flag ''udp-idle-timeout'' checkUint16
     (\<lambda>v. [on_Conn (\<lambda>x. x\<lparr>conn_UDPIdleTimeout := duration_ms v\<rparr>)])"

definition listen_addr_flag :: flag where
  "listen_addr_flag = StringFlag ''listen-addr'' checkHostPort (\<lambda>v.
     if v = [] then Inr []
     else bindR (MustParseTCPAddr v) (\<lambda>addr.
     Inr [on_App (\<lambda>x. x\<lparr>app_ListenAddr := addr\<rparr>)]))"

definition log_level_flag :: "(string \<Rightarrow> int option) \<Rightarrow> flag" where
  "log_level_flag parseLevel = StringFlag ''log-level'' checkLogLevel (\<lambda>v.
     bindR (MustParseLogLevel parseLevel v) (\<lambda>level.
     Inr [on_App (\<lambda>x. x\<lparr>app_LogLevel := level\<rparr>)]))"

definition no_tui_flag :: flag where
  "no_tui_flag = BoolFlag ''no-tui'' (\<lambda>v. [on_App (\<lambda>x. x\<lparr>app_NoTUI := v\<rparr>)])"

definition auto_configure_network_flag :: flag where
  "auto_configure_network_flag = BoolFlag ''auto-configure-network''
     (\<lambda>v. [on_App (\<lambda>x. x\<lparr>app_AutoConfigureNetwork := v\<rparr>)])"

definition tcp_timeout_flag :: flag where
  "tcp_timeout_flag = Int64Flag ''tcp-timeout'' checkUint16
     (\<lambda>v. [on_Conn (\<lambda>x. x\<lparr>conn_TCPTimeout := duration_ms v\<rparr>)])"

definition freebsd_fib_flag :: flag where
  "freebsd_fib_flag = Int64Flag ''freebsd-fib'' checkFreeBSDFibID
     (\<lambda>v. [on_App (\<lambda>x. x\<lparr>app_FreebsdFIB := v\<rparr>)])"

text \<open>These three have no action; \<open>config\<close> and \<open>clean\<close> are read by \<open>loadTOML\<close>, \<open>version\<close> by the command.\<close>

definition clean_flag :: flag where
  "clean_flag = BoolFlag ''clean'' (\<lambda>v. [])"

definition config_flag :: flag where
  "config_flag = StringFlag ''config'' (\<lambda>v. None) (\<lambda>v. Inr [])"

definition version_flag :: flag where
  "version_flag = BoolFlag ''version'' (\<lambda>v. [])"

definition Flags :: "(string \<Rightarrow> int option) \<Rightarrow> flag list" where
  "Flags parseLevel =
    [app_mode_flag, clean_flag, config_flag, default_fake_ttl_flag, dns_addr_flag, dns_cache_flag,
     dns_mode_flag, dns_https_url_flag, dns_qtype_flag, dns_timeout_flag, https_fake_count_flag,
     https_fake_packet_flag, https_disorder_flag, https_split_mode_flag, https_skip_flag,
     https_chunk_size_flag, udp_fake_count_flag, udp_fake_packet_flag, udp_skip_flag,
     udp_idle_timeout_flag, listen_addr_flag, log_level_flag parseLevel, no_tui_flag,
     auto_configure_network_flag, tcp_timeout_flag, freebsd_fib_flag, version_flag]"

section \<open>The command\<close>

definition cmd_Bool :: "(string \<times> flag_value) list \<Rightarrow> string \<Rightarrow> bool" where
  "cmd_Bool given name = (case map_of given name of Some (BoolVal b) \<Rightarrow> b | _ \<Rightarrow> False)"

definition cmd_String :: "(string \<times> flag_value) list \<Rightarrow> string \<Rightarrow> string" where
  "cmd_String given name = (case map_of given name of Some (StringVal s) \<Rightarrow> s | _ \<Rightarrow> [])"

text \<open>The actions of the flags that are set, each of which appends to the closures so far.\<close>

fun run_actions :: "flag list \<Rightarrow> (string \<times> flag_value) list \<Rightarrow> override list \<Rightarrow> (conf_error, override list) res" where
  "run_actions flags [] cliOverrides = Inr cliOverrides"
| "run_actions flags ((name, v) # given) cliOverrides =
     (case find (\<lambda>f. flag_Name f = name) flags of
        None \<Rightarrow> run_actions flags given cliOverrides
      | Some f \<Rightarrow> bindR (flag_Action f v) (\<lambda>added. run_actions flags given (cliOverrides @ added)))"

text \<open>
  What the operating system says of the users: the variables \<open>SUDO_USER\<close> and \<open>XDG_CONFIG_HOME\<close>, the home
  directory of a user by name, and that of the current user.
\<close>

record user_env =
  os_SUDO_USER :: string
  os_XDG_CONFIG_HOME :: string
  os_Lookup :: "string \<Rightarrow> string option"
  os_Current :: "string option"

text \<open>None is \<open>log.Fatal\<close>.\<close>

definition determineRealHome :: "user_env \<Rightarrow> string option" where
  "determineRealHome os =
     (if os_SUDO_USER os \<noteq> [] then
        (case os_Lookup os (os_SUDO_USER os) of Some home \<Rightarrow> Some home | None \<Rightarrow> os_Current os)
      else os_Current os)"

definition configDirs :: "path_env \<Rightarrow> user_env \<Rightarrow> string \<Rightarrow> string list" where
  "configDirs pe os home =
     [pe_Join pe ''/'' (pe_Join pe ''etc'' ''spoofdpi.toml''),
      pe_Join pe (os_XDG_CONFIG_HOME os) (pe_Join pe ''spoofdpi'' ''spoofdpi.toml''),
      pe_Join pe home (pe_Join pe ''.config'' (pe_Join pe ''spoofdpi'' ''spoofdpi.toml''))]"

datatype command_outcome =
    VersionPrinted | NoHomeDirectory | CommandFailed "conf_error fault" | RunFunc string Config

text \<open>What \<open>Load\<close> reads of the command: its two flags, and the directories it searches.\<close>

definition command_env :: "user_env \<Rightarrow> load_env \<Rightarrow> (string \<times> flag_value) list \<Rightarrow> load_env option" where
  "command_env os env given =
     (if cmd_Bool given ''clean'' then Some (env\<lparr>le_clean := True\<rparr>)
      else
        (case determineRealHome os of
           None \<Rightarrow> None
         | Some home \<Rightarrow>
             Some (env\<lparr>le_clean := False, le_config := cmd_String given ''config'',
                       le_configDirs := configDirs (le_paths env) os home\<rparr>)))"

text \<open>
  The command on the flags that are set: their actions, then the command's own action. \<open>RunFunc\<close> is the call of
  \<open>runFunc\<close> with the configuration and the path of the file it came from.
\<close>

definition CreateCommand :: "user_env \<Rightarrow> load_env \<Rightarrow> (string \<times> flag_value) list \<Rightarrow> command_outcome" where
  "CreateCommand os env given =
     (case run_actions (Flags (le_parseLevel env)) given [] of
        Inl e \<Rightarrow> CommandFailed e
      | Inr cliOverrides \<Rightarrow>
          if cmd_Bool given ''version'' then VersionPrinted
          else
            (case command_env os env given of
               None \<Rightarrow> NoHomeDirectory
             | Some env \<Rightarrow>
                 (case fst (Load env cliOverrides) of
                    Inl e \<Rightarrow> CommandFailed e
                  | Inr (cfg, configPath) \<Rightarrow> RunFunc configPath cfg)))"

section \<open>What a flag sets\<close>

text \<open>
  The options as a user sees them. A row of \<open>settings\<close> gives, for the name of a flag, the option of the configuration
  it sets and the value of the option that a value of the flag stands for: numbers are stored as they are given, with
  no truncation, time-outs in nanoseconds, and an enumeration prints as the text that was given.
\<close>

datatype setting =
    Text string | Number int | Switch bool | Address TCPAddr | Fake "TLSMessage option" | Raw bytes

fun plain :: "flag_value \<Rightarrow> setting option" where
  "plain (StringVal s) = Some (Text s)"
| "plain (Int64Val i) = Some (Number i)"
| "plain (BoolVal b) = Some (Switch b)"

definition parsed :: "(string \<Rightarrow> (conf_error, 'a) res) \<Rightarrow> ('a \<Rightarrow> setting) \<Rightarrow> flag_value \<Rightarrow> setting option" where
  "parsed parse wrap v =
     (case v of StringVal s \<Rightarrow> (case parse s of Inr x \<Rightarrow> Some (wrap x) | Inl _ \<Rightarrow> None) | _ \<Rightarrow> None)"

definition timeout :: "flag_value \<Rightarrow> setting option" where
  "timeout v = (case v of Int64Val i \<Rightarrow> Some (Number (i * Millisecond)) | _ \<Rightarrow> None)"

type_synonym row = "string \<times> (Config \<Rightarrow> setting) \<times> (flag_value \<Rightarrow> setting option)"

definition settings :: "(string \<Rightarrow> int option) \<Rightarrow> row list" where
  "settings parseLevel =
    [(''app-mode'', \<lambda>c. Text (AppModeType_String (app_Mode (st_App (cfg_Startup c)))), plain),
     (''default-fake-ttl'', \<lambda>c. Number (uint (conn_DefaultFakeTTL (rt_Conn (cfg_Runtime c)))), plain),
     (''dns-addr'', \<lambda>c. Address (dns_Addr (rt_DNS (cfg_Runtime c))), parsed MustParseTCPAddr Address),
     (''dns-cache'', \<lambda>c. Switch (dns_Cache (rt_DNS (cfg_Runtime c))), plain),
     (''dns-mode'', \<lambda>c. Text (DNSModeType_String (dns_Mode (rt_DNS (cfg_Runtime c)))), plain),
     (''dns-https-url'', \<lambda>c. Text (dns_HTTPSURL (rt_DNS (cfg_Runtime c))), plain),
     (''dns-qtype'', \<lambda>c. Text (DNSQueryType_String (dns_QType (rt_DNS (cfg_Runtime c)))), plain),
     (''dns-timeout'', \<lambda>c. Number (conn_DNSTimeout (rt_Conn (cfg_Runtime c))), timeout),
     (''https-fake-count'', \<lambda>c. Number (uint (https_FakeCount (rt_HTTPS (cfg_Runtime c)))), plain),
     (''https-fake-packet'', \<lambda>c. Fake (https_FakePacket (rt_HTTPS (cfg_Runtime c))),
        parsed MustParseBytes (\<lambda>b. Fake (Some (NewFakeTLSMessage b)))),
     (''https-disorder'', \<lambda>c. Switch (https_Disorder (rt_HTTPS (cfg_Runtime c))), plain),
     (''https-split-mode'', \<lambda>c. Text (HTTPSSplitModeType_String (https_SplitMode (rt_HTTPS (cfg_Runtime c)))), plain),
     (''https-skip'', \<lambda>c. Switch (https_Skip (rt_HTTPS (cfg_Runtime c))), plain),
     (''https-chunk-size'', \<lambda>c. Number (uint (https_ChunkSize (rt_HTTPS (cfg_Runtime c)))), plain),
     (''udp-fake-count'', \<lambda>c. Number (uint (udp_FakeCount (rt_UDP (cfg_Runtime c)))), plain),
     (''udp-fake-packet'', \<lambda>c. Raw (udp_FakePacket (rt_UDP (cfg_Runtime c))), parsed MustParseBytes Raw),
     (''udp-skip'', \<lambda>c. Switch (udp_Skip (rt_UDP (cfg_Runtime c))), plain),
     (''udp-idle-timeout'', \<lambda>c. Number (conn_UDPIdleTimeout (rt_Conn (cfg_Runtime c))), timeout),
     (''log-level'', \<lambda>c. Number (app_LogLevel (st_App (cfg_Startup c))), parsed (MustParseLogLevel parseLevel) Number),
     (''no-tui'', \<lambda>c. Switch (app_NoTUI (st_App (cfg_Startup c))), plain),
     (''auto-configure-network'', \<lambda>c. Switch (app_AutoConfigureNetwork (st_App (cfg_Startup c))), plain),
     (''tcp-timeout'', \<lambda>c. Number (conn_TCPTimeout (rt_Conn (cfg_Runtime c))), timeout),
     (''freebsd-fib'', \<lambda>c. Number (app_FreebsdFIB (st_App (cfg_Startup c))), plain)]"

definition listen_row :: row where
  "listen_row = (''listen-addr'', \<lambda>c. Address (app_ListenAddr (st_App (cfg_Startup c))), parsed MustParseTCPAddr Address)"

text \<open>A flag's closures set the option of the flag's own row and leave the option of every other row alone.\<close>

definition row_ok :: "flag \<Rightarrow> flag_value \<Rightarrow> override list \<Rightarrow> row \<Rightarrow> bool" where
  "row_ok f v os = (\<lambda>(name, view, meaning). \<forall>c.
     if name = flag_Name f then meaning v = Some (view (fold (\<lambda>f. f) os c))
     else view (fold (\<lambda>f. f) os c) = view c)"

definition flag_ok :: "(string \<Rightarrow> int option) \<Rightarrow> flag \<Rightarrow> bool" where
  "flag_ok parseLevel f \<longleftrightarrow> (\<forall>v. flag_accepts f v \<longrightarrow>
     (\<exists>os. flag_Action f v = Inr os \<and> (\<forall>r \<in> set (listen_row # settings parseLevel). row_ok f v os r)))"

text \<open>What the argument parser promises: each flag at most once, with a value that its validator accepts.\<close>

definition accepted :: "(string \<Rightarrow> int option) \<Rightarrow> (string \<times> flag_value) list \<Rightarrow> bool" where
  "accepted parseLevel given \<longleftrightarrow> distinct (map fst given) \<and>
     list_all (\<lambda>(name, v). list_ex (\<lambda>f. flag_Name f = name \<and> flag_accepts f v) (Flags parseLevel)) given"

section \<open>Every flag sets its own option\<close>

lemmas on_defs = on_App_def on_Conn_def on_DNS_def on_HTTPS_def on_UDP_def
  set_App_def set_Conn_def set_DNS_def set_HTTPS_def set_UDP_def

lemmas row_defs = flag_ok_def row_ok_def settings_def listen_row_def

fun_cases flag_accepts_cases:
  "flag_accepts (StringFlag n c a) v"
  "flag_accepts (Int64Flag n c a) v"
  "flag_accepts (BoolFlag n a) v"

lemma bool_flag_ok:
  "flag_ok pl dns_cache_flag" "flag_ok pl https_disorder_flag" "flag_ok pl https_skip_flag" "flag_ok pl udp_skip_flag"
  "flag_ok pl no_tui_flag" "flag_ok pl auto_configure_network_flag" "flag_ok pl clean_flag" "flag_ok pl version_flag"
  "flag_ok pl config_flag"
  unfolding flag_ok_def dns_cache_flag_def https_disorder_flag_def https_skip_flag_def udp_skip_flag_def no_tui_flag_def
    auto_configure_network_flag_def clean_flag_def version_flag_def config_flag_def
  by (intro allI impI; elim flag_accepts_cases; simp add: row_defs on_defs)+


lemma int64Range_None: "int64Range a b v = None \<longleftrightarrow> a \<le> v \<and> v \<le> b"
  by (auto simp: int64Range_def)

lemmas range_checks = checkUint8_def checkUint16_def checkUint8NonZero_def checkFreeBSDFibID_def int64Range_None

lemma uint8_exact: "0 \<le> v \<Longrightarrow> v \<le> 255 \<Longrightarrow> uint (word_of_int v :: u8) = v"
  by (simp add: uint_word_of_int)

lemma duration_exact: "0 \<le> v \<Longrightarrow> v \<le> 65535 \<Longrightarrow> duration_ms v = v * Millisecond"
  unfolding duration_ms_def sint_sbintrunc' by (rule signed_take_bit_int_eq_self) (simp_all add: Millisecond_def)

lemma int_flag_ok:
  "flag_ok pl default_fake_ttl_flag" "flag_ok pl dns_timeout_flag" "flag_ok pl https_fake_count_flag"
  "flag_ok pl https_chunk_size_flag" "flag_ok pl udp_fake_count_flag" "flag_ok pl udp_idle_timeout_flag"
  "flag_ok pl tcp_timeout_flag" "flag_ok pl freebsd_fib_flag"
  unfolding flag_ok_def default_fake_ttl_flag_def dns_timeout_flag_def https_fake_count_flag_def
    https_chunk_size_flag_def udp_fake_count_flag_def udp_idle_timeout_flag_def tcp_timeout_flag_def freebsd_fib_flag_def
  by (intro allI impI; elim flag_accepts_cases; simp add: row_defs on_defs range_checks uint8_exact duration_exact timeout_def)+

lemma check_prints:
  "checkAppMode s = None \<Longrightarrow> \<exists>m. MustParseServerModeType s = Inr m \<and> AppModeType_String m = s"
  "checkDNSMode s = None \<Longrightarrow> \<exists>m. MustParseDNSModeType s = Inr m \<and> DNSModeType_String m = s"
  "checkDNSQueryType s = None \<Longrightarrow> \<exists>m. MustParseDNSQueryType s = Inr m \<and> DNSQueryType_String m = s"
  "checkHTTPSSplitMode s = None \<Longrightarrow> \<exists>m. mustParseHTTPSSplitModeType s = Inr m \<and> HTTPSSplitModeType_String m = s"
  by (auto simp: checkAppMode_def checkDNSMode_def checkDNSQueryType_def checkHTTPSSplitMode_def checkOneOf_def
      availableAppModeValues_def availableDNSModeValues_def availableDNSQueryValues_def availableHTTPSModeValues_def
      MustParseServerModeType_def MustParseDNSModeType_def MustParseDNSQueryType_def mustParseHTTPSSplitModeType_def
      AppModeType_String_def DNSModeType_String_def DNSQueryType_String_def HTTPSSplitModeType_String_def
      split: if_splits)

lemma enum_flag_ok:
  "flag_ok pl app_mode_flag" "flag_ok pl dns_mode_flag" "flag_ok pl dns_qtype_flag" "flag_ok pl https_split_mode_flag"
  "flag_ok pl dns_https_url_flag"
  unfolding flag_ok_def app_mode_flag_def dns_mode_flag_def dns_qtype_flag_def https_split_mode_flag_def
    dns_https_url_flag_def
  by (intro allI impI; elim flag_accepts_cases; auto simp: row_defs on_defs dest!: check_prints)+

lemma SplitHostPort_Nil: "SplitHostPort [] = None"
  by (simp add: SplitHostPort_def lastIndexByte_def)

lemma check_reads:
  "checkHostPort s = None \<Longrightarrow> \<exists>a. MustParseTCPAddr s = Inr a \<and> addr_IP a \<noteq> [] \<and> s \<noteq> []"
  "checkHexBytesStr s = None \<Longrightarrow> \<exists>b. MustParseBytes s = Inr b"
  "known_levels pl \<Longrightarrow> checkLogLevel s = None \<Longrightarrow> \<exists>l. MustParseLogLevel pl s = Inr l"
  by (auto simp: SplitHostPort_Nil checkHostPort_def MustParseTCPAddr_def MustParseBytes_def MustParseLogLevel_def checkLogLevel_def
      checkOneOf_def known_levels_def list_all_iff split: option.splits if_splits prod.splits)

lemma text_flag_ok:
  "flag_ok pl dns_addr_flag" "flag_ok pl https_fake_packet_flag" "flag_ok pl udp_fake_packet_flag"
  "flag_ok pl listen_addr_flag"
  unfolding flag_ok_def dns_addr_flag_def https_fake_packet_flag_def udp_fake_packet_flag_def listen_addr_flag_def
  by (intro allI impI; elim flag_accepts_cases; auto simp: row_defs on_defs parsed_def Let_def dest!: check_reads(1,2))+

lemma log_level_flag_ok: "known_levels pl \<Longrightarrow> flag_ok pl (log_level_flag pl)"
  unfolding flag_ok_def log_level_flag_def
  by (intro allI impI; elim flag_accepts_cases; auto simp: row_defs on_defs parsed_def dest!: check_reads(3))


lemma Flags_ok: "known_levels pl \<Longrightarrow> f \<in> set (Flags pl) \<Longrightarrow> flag_ok pl f"
  using bool_flag_ok int_flag_ok enum_flag_ok text_flag_ok log_level_flag_ok by (auto simp: Flags_def)

lemmas flag_defs = app_mode_flag_def default_fake_ttl_flag_def dns_addr_flag_def dns_cache_flag_def dns_mode_flag_def
  dns_https_url_flag_def dns_qtype_flag_def dns_timeout_flag_def https_fake_count_flag_def https_fake_packet_flag_def
  https_disorder_flag_def https_split_mode_flag_def https_skip_flag_def https_chunk_size_flag_def
  udp_fake_count_flag_def udp_fake_packet_flag_def udp_skip_flag_def udp_idle_timeout_flag_def listen_addr_flag_def
  log_level_flag_def no_tui_flag_def auto_configure_network_flag_def tcp_timeout_flag_def freebsd_fib_flag_def
  clean_flag_def config_flag_def version_flag_def

lemma Flags_names: "distinct (map flag_Name (Flags pl))"
  by (simp add: Flags_def flag_defs)

lemma find_by_name: "distinct (map g xs) \<Longrightarrow> x \<in> set xs \<Longrightarrow> find (\<lambda>y. g y = g x) xs = Some x"
  by (induction xs) (auto simp: rev_image_eqI)

lemma run_actions_ok:
  assumes "known_levels pl" "accepted pl given"
  shows "\<exists>ov. run_actions (Flags pl) given acc = Inr (acc @ ov) \<and>
    (\<forall>(name, view, meaning) \<in> set (listen_row # settings pl). \<forall>c.
       case map_of given name of
         None \<Rightarrow> view (fold (\<lambda>f. f) ov c) = view c
       | Some v \<Rightarrow> meaning v = Some (view (fold (\<lambda>f. f) ov c)))"
  using assms(2)
proof (induction given arbitrary: acc)
  case (Cons nv given)
  obtain n v where nv: "nv = (n, v)" by (cases nv)
  obtain f where f: "f \<in> set (Flags pl)" "flag_Name f = n" "flag_accepts f v"
    using Cons.prems by (auto simp: accepted_def nv list_ex_iff)
  obtain os where os: "flag_Action f v = Inr os" "\<forall>r \<in> set (listen_row # settings pl). row_ok f v os r"
    using Flags_ok [OF assms(1) f(1)] f(3) by (auto simp: flag_ok_def)
  have "accepted pl given" and new: "map_of given n = None"
    using Cons.prems by (auto simp: accepted_def nv map_of_eq_None_iff)
  then obtain ov where ov: "run_actions (Flags pl) given (acc @ os) = Inr ((acc @ os) @ ov)"
    and rows: "\<forall>(name, view, meaning) \<in> set (listen_row # settings pl). \<forall>c.
       case map_of given name of
         None \<Rightarrow> view (fold (\<lambda>f. f) ov c) = view c
       | Some v \<Rightarrow> meaning v = Some (view (fold (\<lambda>f. f) ov c))"
    using Cons.IH by blast
  have "run_actions (Flags pl) (nv # given) acc = Inr (acc @ os @ ov)"
    using find_by_name [OF Flags_names f(1)] f(2) os(1) ov by (simp add: nv)
  moreover have "case map_of (nv # given) name of
       None \<Rightarrow> view (fold (\<lambda>f. f) (os @ ov) c) = view c
     | Some v \<Rightarrow> meaning v = Some (view (fold (\<lambda>f. f) (os @ ov) c))"
    if "(name, view, meaning) \<in> set (listen_row # settings pl)" for name view meaning c
    using bspec [OF os(2) that] bspec [OF rows that] new f(2)
    by (auto simp: row_ok_def nv split: if_splits option.splits)
  ultimately show ?case
    by (intro exI [of _ "os @ ov"]) auto
qed simp


section \<open>The command keeps what the flags say\<close>

lemma Load_finalized:
  assumes "fst (Load env ov) = Inr (c, p)"
  shows "\<exists>raw cfg. fst (loadTOML env (DefaultConfig (le_infoLevel env))) = Inr (p, raw, cfg) \<and>
    cfg_Runtime c = cfg_Runtime (fst (Finalize (fold (\<lambda>f. f) ov cfg))) \<and>
    st_App (cfg_Startup c) = st_App (cfg_Startup (fst (Finalize (fold (\<lambda>f. f) ov cfg))))"
  using assms by (auto simp: Load_Inr_iff Let_def)

lemma settings_view:
  assumes "(name, view, meaning) \<in> set (listen_row # settings pl)"
    and "cfg_Runtime a = cfg_Runtime b" "st_App (cfg_Startup a) = st_App (cfg_Startup b)"
  shows "view a = view b"
  using assms by (auto simp: settings_def listen_row_def)

lemma settings_Finalize:
  assumes "(name, view, meaning) \<in> set (settings pl)"
  shows "view (fst (Finalize c)) = view c"
  using assms by (auto simp: settings_def Finalize_def Let_def)

lemma Finalize_listen:
  "addr_IP (app_ListenAddr (st_App (cfg_Startup c))) \<noteq> [] \<Longrightarrow> fst (Finalize c) = c"
  by (simp add: Finalize_def Let_def)

lemma accepted_listen:
  assumes "accepted pl given" "map_of given ''listen-addr'' = Some v"
  shows "\<exists>s a. v = StringVal s \<and> MustParseTCPAddr s = Inr a \<and> addr_IP a \<noteq> []"
proof -
  have "list_ex (\<lambda>f. flag_Name f = ''listen-addr'' \<and> flag_accepts f v) (Flags pl)"
    using assms map_of_SomeD [OF assms(2)] by (auto simp: accepted_def list_all_iff)
  then have "flag_accepts listen_addr_flag v"
    by (simp add: Flags_def flag_defs)
  then show ?thesis
    by (cases v) (auto simp: listen_addr_flag_def dest!: check_reads(1))
qed

lemma CreateCommand_RunFunc:
  assumes "CreateCommand os env given = RunFunc p c"
  obtains ov env' where "run_actions (Flags (le_parseLevel env)) given [] = Inr ov"
    "command_env os env given = Some env'" "fst (Load env' ov) = Inr (c, p)"
  using assms by (auto simp: CreateCommand_def split: sum.splits if_splits option.splits)

lemma command_env_fields:
  assumes "command_env os env given = Some env'"
  shows "le_infoLevel env' = le_infoLevel env" "le_parseLevel env' = le_parseLevel env"
    "le_clean env' = cmd_Bool given ''clean''"
  using assms by (auto simp: command_env_def split: if_splits option.splits)

lemma CreateCommand_no_panic:
  assumes "known_levels (le_parseLevel env)" "accepted (le_parseLevel env) given"
  shows "CreateCommand os env given \<noteq> CommandFailed Panic"
proof -
  obtain ov where ov: "run_actions (Flags (le_parseLevel env)) given [] = Inr ov"
    using run_actions_ok [OF assms, of "[]"] unfolding append_Nil by blast
  have "no_panic (fst (Load env' ov))" if "command_env os env given = Some env'" for env'
    using Load_no_panic command_env_fields [OF that] assms(1) by simp
  then show ?thesis
    by (auto simp: CreateCommand_def ov no_panic_def split: option.splits sum.splits)
qed

lemma CreateCommand_options:
  assumes "known_levels (le_parseLevel env)" "accepted (le_parseLevel env) given"
    and "CreateCommand os env given = RunFunc p c"
  obtains env' raw cfg where "command_env os env given = Some env'"
    and "fst (loadTOML env' (DefaultConfig (le_infoLevel env))) = Inr (p, raw, cfg)"
    and "cmd_Bool given ''clean'' \<Longrightarrow> cfg = DefaultConfig (le_infoLevel env)"
    and "\<And>name view meaning. (name, view, meaning) \<in> set (settings (le_parseLevel env)) \<Longrightarrow>
      case map_of given name of None \<Rightarrow> view c = view cfg | Some v \<Rightarrow> meaning v = Some (view c)"
    and "\<And>v. map_of given ''listen-addr'' = Some v \<Longrightarrow>
      \<exists>s. v = StringVal s \<and> MustParseTCPAddr s = Inr (app_ListenAddr (st_App (cfg_Startup c)))"
proof -
  obtain ov where ov: "run_actions (Flags (le_parseLevel env)) given [] = Inr ov"
    and rows: "\<forall>(name, view, meaning) \<in> set (listen_row # settings (le_parseLevel env)). \<forall>c.
       case map_of given name of
         None \<Rightarrow> view (fold (\<lambda>f. f) ov c) = view c
       | Some v \<Rightarrow> meaning v = Some (view (fold (\<lambda>f. f) ov c))"
    using run_actions_ok [OF assms(1,2), of "[]"] unfolding append_Nil by blast
  obtain env' where env': "command_env os env given = Some env'" and l: "fst (Load env' ov) = Inr (c, p)"
    using ov assms(3) by (auto elim: CreateCommand_RunFunc)
  obtain raw cfg where cfg: "fst (loadTOML env' (DefaultConfig (le_infoLevel env))) = Inr (p, raw, cfg)"
    and c: "cfg_Runtime c = cfg_Runtime (fst (Finalize (fold (\<lambda>f. f) ov cfg)))"
      "st_App (cfg_Startup c) = st_App (cfg_Startup (fst (Finalize (fold (\<lambda>f. f) ov cfg))))"
    using Load_finalized [OF l] command_env_fields [OF env'] by auto
  show thesis
  proof (rule that [OF env' cfg])
    show "cfg = DefaultConfig (le_infoLevel env)" if "cmd_Bool given ''clean''"
      using cfg command_env_fields [OF env'] that by (simp add: loadTOML_def)
    show "case map_of given name of None \<Rightarrow> view c = view cfg | Some v \<Rightarrow> meaning v = Some (view c)"
      if r: "(name, view, meaning) \<in> set (settings (le_parseLevel env))" for name view meaning
    proof -
      have "view c = view (fold (\<lambda>f. f) ov cfg)"
        using settings_view [OF _ c, of name view meaning "le_parseLevel env"] settings_Finalize [OF r] r by simp
      then show ?thesis
        using bspec [OF rows, of "(name, view, meaning)"] r by (auto split: option.splits)
    qed
    show "\<exists>s. v = StringVal s \<and> MustParseTCPAddr s = Inr (app_ListenAddr (st_App (cfg_Startup c)))"
      if v: "map_of given ''listen-addr'' = Some v" for v
    proof -
      obtain s a where s: "v = StringVal s" "MustParseTCPAddr s = Inr a" "addr_IP a \<noteq> []"
        using accepted_listen [OF assms(2) v] by blast
      then have "a = app_ListenAddr (st_App (cfg_Startup (fold (\<lambda>f. f) ov cfg)))"
        using bspec [OF rows, of listen_row] v by (simp add: listen_row_def parsed_def)
      then show ?thesis
        using s c Finalize_listen by simp
    qed
  qed
qed



definition sample_users :: user_env where
  "sample_users = \<lparr>os_SUDO_USER = [], os_XDG_CONFIG_HOME = [], os_Lookup = (\<lambda>u. None), os_Current = None\<rparr>"

definition sample_given :: "(string \<times> flag_value) list" where
  "sample_given = [(''clean'', BoolVal True), (''dns-timeout'', Int64Val 2000), (''https-split-mode'', StringVal ''sni'')]"

lemma sample_accepted: "accepted pl sample_given"
  by (simp add: accepted_def sample_given_def Flags_def flag_defs range_checks checkHTTPSSplitMode_def checkOneOf_def
      availableHTTPSModeValues_def)

lemma sample_command: "\<exists>p c. CreateCommand sample_users sample_env sample_given = RunFunc p c"
  by (simp add: CreateCommand_def sample_given_def Flags_def flag_defs cmd_Bool_def command_env_def
      mustParseHTTPSSplitModeType_def Load_def loadTOML_def Let_def case_prod_beta resolveRules_def Config_Validate_def
      Finalize_def on_defs)



end
