(* ===== verification/Tui.thy ===== *)
theory Tui
  imports Prelude "HOL-Library.Word" "HOL-Library.Sublist"
begin

text \<open>
  The terminal interface (\<open>cmd/spoofdpi/tui.go\<close>): its model and \<open>Update\<close>, which handles the keys, the window, the
  ticks and the log lines. The scrolling area and the spinner (\<open>bubbles\<close>), the wrapping of lines (\<open>ansi\<close>), the height of
  the rendered header (\<open>lipgloss\<close>) and the floating point numbers are parameters, collected in \<open>ui\<close>. The functions
  that only render styled text are not modelled.
\<close>

section \<open>The model\<close>

datatype msg =
    CtrlC
  | KeyMsg string
  | WindowSizeMsg int int
  | SpinnerTickMsg
  | TickMsg int
  | LogMsg string
  | OtherMsg

text \<open>What \<open>Update\<close> does besides changing the model.\<close>

datatype ui_effect = Quit | TickCmd | SpinnerCmd | ViewportCmd | CloseReady

record ('v, 's, 'f) model =
  m_viewport :: 'v
  m_spinner :: 's
  m_logs :: "string list"
  m_filteredLogs :: "string list"
  m_speed :: "'f \<times> 'f"
  m_lastTxBytes :: "64 word"
  m_lastRxBytes :: "64 word"
  m_lastTickTime :: int
  m_avgUpSpeed :: 'f
  m_avgDownSpeed :: 'f
  m_ready :: bool
  m_filterInput :: string
  m_activeFilter :: string
  m_inputMode :: bool
  m_readyChan :: bool

text \<open>The last five fields are the operations of \<open>float64\<close>; \<open>f_num a b\<close> is the constant a/b.\<close>

record ('v, 's, 'f) ui =
  ui_New :: "int \<Rightarrow> int \<Rightarrow> 'v"
  ui_setYPosition :: "int \<Rightarrow> 'v \<Rightarrow> 'v"
  ui_setSize :: "int \<Rightarrow> int \<Rightarrow> 'v \<Rightarrow> 'v"
  ui_Width :: "'v \<Rightarrow> int"
  ui_SetContent :: "string \<Rightarrow> 'v \<Rightarrow> 'v"
  ui_AtBottom :: "'v \<Rightarrow> bool"
  ui_GotoBottom :: "'v \<Rightarrow> 'v"
  ui_viewportUpdate :: "msg \<Rightarrow> 'v \<Rightarrow> 'v"
  ui_spinnerUpdate :: "'s \<Rightarrow> 's"
  ui_Hardwrap :: "string \<Rightarrow> int \<Rightarrow> string"
  ui_headerHeight :: "('v, 's, 'f) model \<Rightarrow> int"
  f_num :: "int \<Rightarrow> int \<Rightarrow> 'f"
  f_u64 :: "64 word \<Rightarrow> 'f"
  f_seconds :: "int \<Rightarrow> 'f"
  f_le :: "'f \<Rightarrow> 'f \<Rightarrow> bool"
  f_arith :: "('f \<Rightarrow> 'f \<Rightarrow> 'f) \<times> ('f \<Rightarrow> 'f \<Rightarrow> 'f) \<times> ('f \<Rightarrow> 'f \<Rightarrow> 'f)"

definition maxLogs :: nat where "maxLogs = 5000"

text \<open>\<open>strings.Contains\<close>\<close>

definition Contains :: "string \<Rightarrow> string \<Rightarrow> bool" where
  "Contains s part \<longleftrightarrow> sublist part s"

definition filterLogs :: "string list \<Rightarrow> string \<Rightarrow> string list" where
  "filterLogs logs part = (if part = [] then logs else filter (\<lambda>l. Contains l part) logs)"

definition initialModel :: "('v, 's, 'f) ui \<Rightarrow> 'v \<Rightarrow> 's \<Rightarrow> int \<Rightarrow> ('v, 's, 'f) model" where
  "initialModel ui zeroViewport spinner now =
     \<lparr>m_viewport = zeroViewport, m_spinner = spinner, m_logs = [], m_filteredLogs = [],
      m_speed = (f_num ui 0 1, f_num ui 0 1), m_lastTxBytes = 0, m_lastRxBytes = 0, m_lastTickTime = now,
      m_avgUpSpeed = f_num ui 0 1, m_avgDownSpeed = f_num ui 0 1, m_ready = False, m_filterInput = [],
      m_activeFilter = [], m_inputMode = False, m_readyChan = True\<rparr>"

text \<open>\<open>strings.Join(lines, "\n")\<close>\<close>

fun joinLines :: "string list \<Rightarrow> string" where
  "joinLines [] = []"
| "joinLines [l] = l"
| "joinLines (l # ls) = l @ [CHR 0x0A] @ joinLines ls"

definition updateViewport :: "('v, 's, 'f) ui \<Rightarrow> ('v, 's, 'f) model \<Rightarrow> ('v, 's, 'f) model" where
  "updateViewport ui m =
     (if \<not> m_ready m then m
      else
        let isAtBottom = ui_AtBottom ui (m_viewport m);
            width = (if ui_Width ui (m_viewport m) \<le> 0 then 80 else ui_Width ui (m_viewport m));
            wrapped = map (\<lambda>line. ui_Hardwrap ui line width) (m_filteredLogs m);
            vp = ui_SetContent ui (joinLines wrapped) (m_viewport m) in
        m\<lparr>m_viewport := (if isAtBottom then ui_GotoBottom ui vp else vp)\<rparr>)"

section \<open>The messages\<close>

definition typed :: "string \<Rightarrow> ('v, 's, 'f) model \<Rightarrow> ('v, 's, 'f) model" where
  "typed key m = m\<lparr>m_filterInput := m_filterInput m @ key\<rparr>"

definition on_key :: "('v, 's, 'f) ui \<Rightarrow> string \<Rightarrow> ('v, 's, 'f) model \<Rightarrow> ('v, 's, 'f) model" where
  "on_key ui key m =
     (if key = ''enter'' then
        (if m_inputMode m then
           updateViewport ui (m\<lparr>m_activeFilter := m_filterInput m,
             m_filteredLogs := filterLogs (m_logs m) (m_filterInput m), m_inputMode := False\<rparr>)
         else m)
      else if key = ''esc'' then
        (if m_inputMode m then m\<lparr>m_inputMode := False, m_filterInput := []\<rparr>
         else if m_activeFilter m \<noteq> [] then
           updateViewport ui (m\<lparr>m_activeFilter := [], m_filteredLogs := m_logs m\<rparr>)
         else m)
      else if key = ''backspace'' then
        (if m_inputMode m \<and> length (m_filterInput m) > 0
         then m\<lparr>m_filterInput := take (length (m_filterInput m) - 1) (m_filterInput m)\<rparr> else m)
      else if key = ''R'' then
        (if \<not> m_inputMode m then
           updateViewport ui (m\<lparr>m_logs := [], m_filteredLogs := filterLogs [] (m_activeFilter m)\<rparr>)
         else typed key m)
      else if key = ''f'' then
        (if \<not> m_inputMode m then m\<lparr>m_inputMode := True, m_filterInput := []\<rparr> else typed key m)
      else if m_inputMode m then typed key m
      else m)"

definition on_window ::
    "('v, 's, 'f) ui \<Rightarrow> int \<Rightarrow> int \<Rightarrow> ('v, 's, 'f) model \<Rightarrow> ('v, 's, 'f) model \<times> ui_effect list" where
  "on_window ui width height m =
     (let headerHeight = ui_headerHeight ui m;
          verticalMarginHeight = headerHeight + 1 in
      if \<not> m_ready m then
        let vp = ui_SetContent ui (joinLines (m_logs m))
                   (ui_setYPosition ui headerHeight (ui_New ui width (height - verticalMarginHeight))) in
        (m\<lparr>m_viewport := vp, m_ready := True, m_readyChan := False\<rparr>, if m_readyChan m then [CloseReady] else [])
      else
        (updateViewport ui (m\<lparr>m_viewport := ui_setSize ui width (height - verticalMarginHeight) (m_viewport m)\<rparr>), []))"

text \<open>\<open>rx\<close> and \<open>tx\<close> are the counters at the time of the tick; the unsigned differences wrap.\<close>

definition on_tick :: "('v, 's, 'f) ui \<Rightarrow> 64 word \<Rightarrow> 64 word \<Rightarrow> int \<Rightarrow> ('v, 's, 'f) model \<Rightarrow> ('v, 's, 'f) model" where
  "on_tick ui rx tx now m =
     (let (add, mul, quot) = f_arith ui;
          num = f_num ui;
          elapsed = f_seconds ui (now - m_lastTickTime m);
          elapsed = (if f_le ui elapsed (num 0 1) then num 1 1 else elapsed);
          rawUp = quot (quot (f_u64 ui (tx - m_lastTxBytes m)) (num 1024 1)) elapsed;
          rawDown = quot (quot (f_u64 ui (rx - m_lastRxBytes m)) (num 1024 1)) elapsed;
          up = add (mul rawUp (num 3 10)) (mul (m_avgUpSpeed m) (num 7 10));
          down = add (mul rawDown (num 3 10)) (mul (m_avgDownSpeed m) (num 7 10)) in
      m\<lparr>m_lastRxBytes := rx, m_lastTxBytes := tx, m_lastTickTime := now,
        m_avgUpSpeed := up, m_avgDownSpeed := down, m_speed := (up, down)\<rparr>)"

text \<open>Keeping the last lines of a list.\<close>

definition lastLogs :: "string list \<Rightarrow> string list" where
  "lastLogs logs = (if length logs > maxLogs then drop (length logs - maxLogs) logs else logs)"

definition on_log :: "('v, 's, 'f) ui \<Rightarrow> string \<Rightarrow> ('v, 's, 'f) model \<Rightarrow> ('v, 's, 'f) model" where
  "on_log ui line m =
     (let logs = m_logs m @ [line];
          filtered = (if m_activeFilter m = [] \<or> Contains line (m_activeFilter m)
                      then m_filteredLogs m @ [line] else m_filteredLogs m) in
      updateViewport ui (m\<lparr>m_logs := lastLogs logs, m_filteredLogs := lastLogs filtered\<rparr>))"

definition Update ::
    "('v, 's, 'f) ui \<Rightarrow> 64 word \<Rightarrow> 64 word \<Rightarrow> msg \<Rightarrow> ('v, 's, 'f) model \<Rightarrow> ('v, 's, 'f) model \<times> ui_effect list" where
  "Update ui rx tx msg m =
     (if msg = CtrlC then (m, [Quit])
      else
        let (m, effects) =
          (case msg of
             KeyMsg key \<Rightarrow> (on_key ui key m, [])
           | WindowSizeMsg width height \<Rightarrow> on_window ui width height m
           | SpinnerTickMsg \<Rightarrow> (m\<lparr>m_spinner := ui_spinnerUpdate ui (m_spinner m)\<rparr>, [SpinnerCmd])
           | TickMsg now \<Rightarrow> (on_tick ui rx tx now m, [TickCmd])
           | LogMsg line \<Rightarrow> (on_log ui line m, [])
           | _ \<Rightarrow> (m, [])) in
        (m\<lparr>m_viewport := ui_viewportUpdate ui msg (m_viewport m)\<rparr>, effects @ [ViewportCmd]))"

text \<open>The messages of a run, each with the byte counters at its time, and all that the run does.\<close>

fun run_ui ::
    "('v, 's, 'f) ui \<Rightarrow> (64 word \<times> 64 word \<times> msg) list \<Rightarrow> ('v, 's, 'f) model \<Rightarrow> ('v, 's, 'f) model \<times> ui_effect list" where
  "run_ui ui [] m = (m, [])"
| "run_ui ui ((rx, tx, msg) # msgs) m =
     (let (m, effects) = Update ui rx tx msg m; (m, later) = run_ui ui msgs m in (m, effects @ later))"

section \<open>The lines that are shown\<close>

definition logs_ok :: "('v, 's, 'f) model \<Rightarrow> bool" where
  "logs_ok m \<longleftrightarrow> length (m_logs m) \<le> maxLogs \<and> length (m_filteredLogs m) \<le> maxLogs \<and>
     list_all (\<lambda>l. Contains l (m_activeFilter m)) (m_filteredLogs m) \<and>
     suffix (filterLogs (m_logs m) (m_activeFilter m)) (m_filteredLogs m) \<and>
     (m_activeFilter m = [] \<longrightarrow> m_filteredLogs m = m_logs m)"

definition ready_ok :: "('v, 's, 'f) model \<Rightarrow> bool" where
  "ready_ok m \<longleftrightarrow> (m_readyChan m \<longleftrightarrow> \<not> m_ready m)"

lemma Contains_Nil [simp]: "Contains l []"
  by (simp add: Contains_def)

lemma updateViewport_fields [simp]:
  "m_logs (updateViewport ui m) = m_logs m" "m_filteredLogs (updateViewport ui m) = m_filteredLogs m"
  "m_activeFilter (updateViewport ui m) = m_activeFilter m" "m_ready (updateViewport ui m) = m_ready m"
  "m_readyChan (updateViewport ui m) = m_readyChan m"
  by (simp_all add: updateViewport_def Let_def)

lemma length_lastLogs: "length (lastLogs logs) \<le> maxLogs"
  by (simp add: lastLogs_def)

lemma lastLogs_suffix: "suffix (lastLogs logs) logs"
  by (simp add: lastLogs_def suffix_drop)

lemma lastLogs_id: "length logs \<le> maxLogs \<Longrightarrow> lastLogs logs = logs"
  by (simp add: lastLogs_def)

text \<open>A suffix that is short enough is a suffix of what is kept.\<close>

lemma suffix_lastLogs: "suffix xs ys \<Longrightarrow> length xs \<le> maxLogs \<Longrightarrow> suffix xs (lastLogs ys)"
  using suffix_length_suffix [OF _ lastLogs_suffix, of xs ys] suffix_length_le [of xs ys]
  by (auto simp: lastLogs_def)

lemma filterLogs_filter: "filterLogs logs part = filter (\<lambda>l. Contains l part) logs"
  by (simp add: filterLogs_def)

lemma filterLogs_Nil [simp]: "filterLogs [] part = []"
  by (simp add: filterLogs_def)

lemma filter_suffix: "suffix xs ys \<Longrightarrow> suffix (filter P xs) (filter P ys)"
  by (auto simp: suffix_def)

lemma list_all_suffix: "suffix xs ys \<Longrightarrow> list_all P ys \<Longrightarrow> list_all P xs"
  by (auto simp: suffix_def)

lemma on_log_ok:
  assumes "logs_ok m"
  shows "logs_ok (on_log ui line m)"
proof -
  let ?logs = "m_logs m @ [line]"
  let ?part = "m_activeFilter m"
  let ?filtered = "if ?part = [] \<or> Contains line ?part then m_filteredLogs m @ [line] else m_filteredLogs m"
  have all: "list_all (\<lambda>l. Contains l ?part) ?filtered"
    using assms by (auto simp: logs_ok_def)
  have "suffix (filterLogs ?logs ?part) ?filtered"
    using assms by (auto simp: logs_ok_def filterLogs_filter suffix_def)
  then have "suffix (filterLogs (lastLogs ?logs) ?part) ?filtered"
    using filter_suffix [OF lastLogs_suffix] suffix_order.trans unfolding filterLogs_filter by blast
  moreover have "length (filterLogs (lastLogs ?logs) ?part) \<le> maxLogs"
    using length_lastLogs [of ?logs] length_filter_le le_trans unfolding filterLogs_filter by blast
  ultimately have "suffix (filterLogs (lastLogs ?logs) ?part) (lastLogs ?filtered)"
    by (rule suffix_lastLogs)
  then show ?thesis
    using assms list_all_suffix [OF lastLogs_suffix all] length_lastLogs
    by (simp add: logs_ok_def on_log_def Let_def)
qed

lemma logs_ok_updateViewport [simp]: "logs_ok (updateViewport ui m) \<longleftrightarrow> logs_ok m"
  by (simp add: logs_ok_def)

lemma logs_ok_cong:
  "m_logs m = m_logs m' \<Longrightarrow> m_filteredLogs m = m_filteredLogs m' \<Longrightarrow> m_activeFilter m = m_activeFilter m' \<Longrightarrow>
     logs_ok m \<longleftrightarrow> logs_ok m'"
  by (simp add: logs_ok_def)

lemma logs_ok_filtered:
  assumes "length (m_logs m) \<le> maxLogs" and "m_filteredLogs m = filterLogs (m_logs m) (m_activeFilter m)"
  shows "logs_ok m"
  using assms le_trans [OF length_filter_le assms(1)]
  by (auto simp: logs_ok_def filterLogs_filter list_all_iff)

lemma on_key_cases:
  assumes "logs_ok m"
  shows "logs_ok (on_key ui key m) \<and> m_ready (on_key ui key m) = m_ready m \<and> m_readyChan (on_key ui key m) = m_readyChan m"
proof -
  have len: "length (m_logs m) \<le> maxLogs"
    using assms by (simp add: logs_ok_def)
  have "logs_ok (m\<lparr>m_activeFilter := m_filterInput m, m_filteredLogs := filterLogs (m_logs m) (m_filterInput m), m_inputMode := False\<rparr>)"
    "logs_ok (m\<lparr>m_activeFilter := [], m_filteredLogs := m_logs m\<rparr>)"
    "logs_ok (m\<lparr>m_logs := [], m_filteredLogs := filterLogs [] (m_activeFilter m)\<rparr>)"
    using len by (auto intro!: logs_ok_filtered simp: filterLogs_filter)
  moreover have "logs_ok (m\<lparr>m_inputMode := i, m_filterInput := t\<rparr>)" "logs_ok (m\<lparr>m_filterInput := t\<rparr>)" for i t
    using assms by (simp_all add: logs_ok_def)
  ultimately show ?thesis
    using assms by (simp add: on_key_def typed_def)
qed

lemma on_log_fields: "m_ready (on_log ui line m) = m_ready m" "m_readyChan (on_log ui line m) = m_readyChan m"
  by (simp_all add: on_log_def Let_def)

lemma on_tick_fields:
  "m_ready (on_tick ui rx tx now m) = m_ready m" "m_readyChan (on_tick ui rx tx now m) = m_readyChan m"
  "logs_ok (on_tick ui rx tx now m) = logs_ok m"
  by (simp_all add: on_tick_def Let_def case_prod_beta logs_ok_def)

lemma on_window_fields:
  "logs_ok (fst (on_window ui w h m)) = logs_ok m" "m_ready (fst (on_window ui w h m))"
  "m_readyChan (fst (on_window ui w h m)) \<longleftrightarrow> m_ready m \<and> m_readyChan m"
  "snd (on_window ui w h m) = (if \<not> m_ready m \<and> m_readyChan m then [CloseReady] else [])"
  by (auto simp: on_window_def Let_def logs_ok_def)

text \<open>One message keeps the invariants, and closes the channel exactly when it makes the model ready.\<close>

definition closes :: "ui_effect list \<Rightarrow> nat" where
  "closes effects = count_list effects CloseReady"

lemma Update_ok:
  assumes "logs_ok m" "ready_ok m" "Update ui rx tx msg m = (m', effects)"
  shows "logs_ok m' \<and> ready_ok m' \<and> (m_ready m \<longrightarrow> m_ready m') \<and>
    closes effects + (if m_ready m then 1 else 0) = (if m_ready m' then 1 else 0)"
  using assms on_key_cases [OF assms(1), of ui] on_log_ok [OF assms(1), of ui] on_window_fields [of ui]
    on_log_fields [of ui] on_tick_fields [of ui]
  by (cases msg) (auto simp: Update_def Let_def ready_ok_def closes_def case_prod_beta logs_ok_cong [of "_\<lparr>m_viewport := _\<rparr>"]
    logs_ok_cong [of "_\<lparr>m_spinner := _\<rparr>"])

lemma run_ui_ok:
  assumes "logs_ok m" "ready_ok m" "run_ui ui msgs m = (m', effects)"
  shows "logs_ok m' \<and> ready_ok m' \<and> (m_ready m \<longrightarrow> m_ready m') \<and>
    closes effects + (if m_ready m then 1 else 0) = (if m_ready m' then 1 else 0)"
  using assms
proof (induction msgs arbitrary: m effects)
  case (Cons p msgs)
  obtain rx tx msg where p: "p = (rx, tx, msg)" by (metis prod.exhaust)
  obtain m1 e1 where u: "Update ui rx tx msg m = (m1, e1)" by fastforce
  obtain e2 where r: "run_ui ui msgs m1 = (m', e2)" "effects = e1 @ e2"
    using Cons.prems(3) by (auto simp: p u split: prod.splits)
  show ?case
    using Update_ok [OF Cons.prems(1,2) u] Cons.IH [OF _ _ r(1)] by (auto simp: r(2) closes_def split: if_splits)
qed (auto simp: closes_def)


definition sample_ui :: "(unit, unit, unit) ui" where
  "sample_ui = \<lparr>ui_New = \<lambda>_ _. (), ui_setYPosition = \<lambda>_ v. v, ui_setSize = \<lambda>_ _ v. v, ui_Width = \<lambda>_. 80,
     ui_SetContent = \<lambda>_ v. v, ui_AtBottom = \<lambda>_. True, ui_GotoBottom = \<lambda>v. v, ui_viewportUpdate = \<lambda>_ v. v,
     ui_spinnerUpdate = \<lambda>s. s, ui_Hardwrap = \<lambda>l _. l, ui_headerHeight = \<lambda>_. 6, f_num = \<lambda>_ _. (), f_u64 = \<lambda>_. (),
     f_seconds = \<lambda>_. (), f_le = \<lambda>_ _. True, f_arith = (\<lambda>_ _. (), \<lambda>_ _. (), \<lambda>_ _. ())\<rparr>"

lemma sample_keys:
  "on_key ui ''f'' m = (if \<not> m_inputMode m then m\<lparr>m_inputMode := True, m_filterInput := []\<rparr> else typed ''f'' m)"
  "on_key ui ''b'' m = (if m_inputMode m then typed ''b'' m else m)"
  "on_key ui ''enter'' m = (if m_inputMode m then
       updateViewport ui (m\<lparr>m_activeFilter := m_filterInput m, m_filteredLogs := filterLogs (m_logs m) (m_filterInput m),
         m_inputMode := False\<rparr>) else m)"
  by (simp_all add: on_key_def)

definition sample_msgs :: "(64 word \<times> 64 word \<times> msg) list" where
  "sample_msgs = map (\<lambda>msg. (0, 0, msg)) [LogMsg ''ab'', WindowSizeMsg 80 24, KeyMsg ''f'', KeyMsg ''b'', KeyMsg ''enter'', LogMsg ''c'']"

lemma sample_fields:
  "m_logs (fst (run_ui sample_ui sample_msgs (initialModel sample_ui () () 0))) = [''ab'', ''c'']"
  "m_activeFilter (fst (run_ui sample_ui sample_msgs (initialModel sample_ui () () 0))) = ''b''"
  "m_ready (fst (run_ui sample_ui sample_msgs (initialModel sample_ui () () 0)))"
  by (simp_all add: sample_msgs_def Update_def sample_keys on_log_def on_window_def typed_def initialModel_def Let_def
      lastLogs_id maxLogs_def case_prod_beta updateViewport_def sample_ui_def)


end
